(* ===== verification/Prelude.thy ===== *)
theory Prelude
  imports Main "HOL-Library.AList" "HOL-Library.Word" "HOL-Library.Multiset"
    "HOL-Library.Char_ord" "HOL-Library.List_Lexorder" "HOL-Library.Product_Lexorder"
begin

text \<open>
  The shared base of the development: Go's error values, the transaction type (a state
  transformer that may fail), its combinators with the rules that take a successful run
  apart, and the generic lemmas on association lists and sums the components share.

  Go strings are byte strings, so they are HOL's \<^typ>\<open>string\<close> (a list of 8-bit
  characters). A time is the number of nanoseconds since Go's zero time, so the zero time is
  0 and \<open>After\<close> is \<open>>\<close>. Byte sizes and counters are unbounded integers.
\<close>

named_theorems tx_simps \<open>unfolding rules for transaction bodies\<close>
named_theorems tx_defs \<open>definitions of the transactional operations\<close>

type_synonym time = int
type_synonym path = "string \<times> string"

subsection \<open>Errors\<close>

text \<open>
  The sentinel errors of \<open>store/core/errors.go\<close>, the failures an engine reports
  (\<open>EngineError\<close> for a driver failure, \<open>Refused\<close> for a plain message, \<open>ConstraintError\<close> for a violated key or
  foreign key), and \<open>Wrapped\<close> for \<open>fmt.Errorf\<close> with the \<open>w\<close> verb.
\<close>

datatype error =
    EngineError string
  | ConstraintError string
  | ErrDBUnavailable
  | ErrCopyHoldsOnlyDEK
  | ErrEncryptionFlagMismatch
  | ErrNoCopiesToRecord
  | ErrCopyChanged
  | ErrCopyNotExcess
  | ErrTargetRefused
  | ErrIntentLost
  | S3Error nat string string
  | ErrTooManyTags
  | ErrEmptyTagKey
  | ErrTagKeyTooLong
  | ErrTagValueTooLong
  | ErrDuplicateTagKey
  | ErrMalformedTagSet
  | InvalidPartNumber int
  | Refused string
  | Wrapped string error

definition ErrObjectNotFound :: error where
  "ErrObjectNotFound = S3Error 404 ''NoSuchKey'' ''The specified key does not exist.''"

definition ErrMultipartUploadNotFound :: error where
  "ErrMultipartUploadNotFound = S3Error 404 ''NoSuchUpload'' ''multipart upload not found''"

definition ErrCompletionInProgress :: error where
  "ErrCompletionInProgress = S3Error 409 ''OperationAborted''
     ''a CompleteMultipartUpload is in progress for this upload''"

definition ErrInvalidRange :: error where
  "ErrInvalidRange = S3Error 416 ''InvalidRange'' ''the requested range is not satisfiable''"

definition ErrServiceUnavailable :: error where
  "ErrServiceUnavailable = S3Error 503 ''ServiceUnavailable''
     ''database unavailable, writes are temporarily rejected''"

definition ErrInsufficientStorage :: error where
  "ErrInsufficientStorage = S3Error 507 ''InsufficientStorage'' ''no backend has sufficient quota''"

definition ErrUsageLimitExceeded :: error where
  "ErrUsageLimitExceeded = S3Error 429 ''SlowDown''
     ''monthly usage limit exceeded for all backends holding this object''"

fun errors_Is :: "error \<Rightarrow> error \<Rightarrow> bool" where
  "errors_Is (Wrapped m e) target = (Wrapped m e = target \<or> errors_Is e target)"
| "errors_Is e target = (e = target)"

lemma errors_Is_refl [simp]: "errors_Is e e"
  by (cases e) simp_all

subsection \<open>Transactions\<close>

text \<open>
  A transactional body either fails, or yields a value and the new state. The combinators
  are the shapes the Go code has: \<open>if err != nil { return err }\<close> after a call is
  \<open>tx_bind\<close>, \<open>fmt.Errorf("msg: %w", err)\<close> around one is \<open>tx_wrap\<close>, a loop
  that stops at the first error is \<open>tx_each\<close>.
\<close>

type_synonym ('s, 'a) tx = "'s \<Rightarrow> error + 'a \<times> 's"

definition tx_return :: "'a \<Rightarrow> ('s, 'a) tx" where
  "tx_return x s = Inr (x, s)"

definition tx_fail :: "error \<Rightarrow> ('s, 'a) tx" where
  "tx_fail e s = Inl e"

definition tx_bind :: "('s, 'a) tx \<Rightarrow> ('a \<Rightarrow> ('s, 'b) tx) \<Rightarrow> ('s, 'b) tx" where
  "tx_bind m f s = (case m s of Inl e \<Rightarrow> Inl e | Inr (x, t) \<Rightarrow> f x t)"

definition tx_wrap :: "string \<Rightarrow> ('s, 'a) tx \<Rightarrow> ('s, 'a) tx" where
  "tx_wrap msg m s = (case m s of Inl e \<Rightarrow> Inl (Wrapped msg e) | Inr r \<Rightarrow> Inr r)"

fun tx_each :: "('b \<Rightarrow> ('s, unit) tx) \<Rightarrow> 'b list \<Rightarrow> ('s, unit) tx" where
  "tx_each f [] = tx_return ()"
| "tx_each f (x # xs) = tx_bind (f x) (\<lambda>_. tx_each f xs)"

lemma tx_return_Inr [simp, tx_simps]: "tx_return x s = Inr (y, t) \<longleftrightarrow> y = x \<and> t = s"
  by (auto simp: tx_return_def)

lemma tx_fail_not_Inr [simp, tx_simps]: "tx_fail e s \<noteq> Inr r"
  by (simp add: tx_fail_def)

lemma tx_bind_Inr [tx_simps]:
  "tx_bind m f s = Inr r \<longleftrightarrow> (\<exists>x t. m s = Inr (x, t) \<and> f x t = Inr r)"
  by (auto simp: tx_bind_def split: sum.splits prod.splits)

lemma tx_wrap_Inr [simp, tx_simps]: "tx_wrap msg m s = Inr r \<longleftrightarrow> m s = Inr r"
  by (auto simp: tx_wrap_def split: sum.splits)

lemma tx_bind_InrE:
  assumes "tx_bind m f s = Inr r"
  obtains x t where "m s = Inr (x, t)" "f x t = Inr r"
  using assms by (auto simp: tx_bind_Inr)

subsection \<open>Association lists\<close>

text \<open>
  A Go map that is only written through \<open>m[k] += v\<close> or \<open>m[k] = append(m[k], v)\<close>
  is an association list; \<open>alookup\<close> reads it with the zero value for an absent key.
\<close>

definition alookup :: "'v \<Rightarrow> ('k \<times> 'v) list \<Rightarrow> 'k \<Rightarrow> 'v" where
  "alookup z m k = (case map_of m k of None \<Rightarrow> z | Some v \<Rightarrow> v)"

lemma alookup_Nil [simp]: "alookup z [] k = z"
  by (simp add: alookup_def)

lemma alookup_Cons: "alookup z ((k', v) # m) k = (if k = k' then v else alookup z m k)"
  by (simp add: alookup_def)

lemma alookup_update [simp]:
  "alookup z (AList.update k v m) k' = (if k = k' then v else alookup z m k')"
  by (simp add: alookup_def update_conv')

lemma distinct_update [intro, simp]:
  "distinct (map fst m) \<Longrightarrow> distinct (map fst (AList.update k v m))"
  by (simp add: AList.distinct_update)

lemma alookup_not_in: "k \<notin> fst ` set m \<Longrightarrow> alookup z m k = z"
  by (simp add: alookup_def map_of_eq_None_iff[THEN iffD2])

text \<open>Summing a list of rows' sizes, restricted to the rows a predicate selects.\<close>

definition sum_where :: "('a \<Rightarrow> bool) \<Rightarrow> ('a \<Rightarrow> int) \<Rightarrow> 'a list \<Rightarrow> int" where
  "sum_where P f xs = sum_list (map f (filter P xs))"

lemma sum_where_Nil [simp]: "sum_where P f [] = 0"
  by (simp add: sum_where_def)

lemma sum_where_Cons [simp]:
  "sum_where P f (x # xs) = (if P x then f x else 0) + sum_where P f xs"
  by (simp add: sum_where_def)

lemma sum_where_append [simp]: "sum_where P f (xs @ ys) = sum_where P f xs + sum_where P f ys"
  by (simp add: sum_where_def)

lemma sum_where_filter_split:
  "sum_where P f xs = sum_where P f (filter Q xs) + sum_where P f (filter (\<lambda>x. \<not> Q x) xs)"
  by (induction xs) auto

lemma sum_where_nonneg: "(\<And>x. x \<in> set xs \<Longrightarrow> P x \<Longrightarrow> 0 \<le> f x) \<Longrightarrow> 0 \<le> sum_where P f xs"
  by (auto simp: sum_where_def intro!: sum_list_nonneg)

lemma sum_where_cong:
  "(\<And>x. x \<in> set xs \<Longrightarrow> P x = Q x) \<Longrightarrow> (\<And>x. x \<in> set xs \<Longrightarrow> Q x \<Longrightarrow> f x = g x) \<Longrightarrow>
   sum_where P f xs = sum_where Q g xs"
  by (induction xs) auto

lemma sum_where_mset: "mset xs = mset ys \<Longrightarrow> sum_where P f xs = sum_where P f ys"
  unfolding sum_where_def by (metis mset_filter mset_map sum_mset_sum_list)

lemma sum_where_none: "(\<And>x. x \<in> set xs \<Longrightarrow> \<not> P x) \<Longrightarrow> sum_where P f xs = 0"
  by (induction xs) auto

lemma sum_where_disjoint:
  "(\<And>x. x \<in> set xs \<Longrightarrow> P x \<Longrightarrow> \<not> Q x) \<Longrightarrow>
   sum_where P f xs + sum_where Q f xs = sum_where (\<lambda>x. P x \<or> Q x) f xs"
  by (induction xs) auto

text \<open>A map with distinct keys sums to its one entry for a key.\<close>

lemma sum_where_key:
  "distinct (map fst m) \<Longrightarrow> sum_where (\<lambda>e. fst e = k) snd m = alookup 0 m k"
proof (induction m)
  case Nil
  then show ?case by simp
next
  case (Cons e m)
  have "sum_where (\<lambda>e. fst e = k) snd m = 0" if "fst e = k"
    using Cons.prems that by (intro sum_where_none) (auto simp: image_iff)
  with Cons show ?case
    by (cases e) (auto simp: alookup_Cons)
qed

lemma update_new: "k \<notin> fst ` set m \<Longrightarrow> AList.update k v m = m @ [(k, v)]"
  by (induction m) auto

lemma sum_where_update:
  "distinct (map fst m) \<Longrightarrow>
   sum_where (\<lambda>e. P (fst e)) snd (AList.update k (alookup 0 m k + x) m) =
     sum_where (\<lambda>e. P (fst e)) snd m + (if P k then x else 0)"
proof (induction m)
  case (Cons e m)
  then show ?case by (cases e) (auto simp: alookup_Cons alookup_not_in update_new)
qed simp

text \<open>The same sum over the rows of a table whose order does not matter.\<close>

definition bytes_where :: "('a \<Rightarrow> bool) \<Rightarrow> ('a \<Rightarrow> int) \<Rightarrow> 'a multiset \<Rightarrow> int" where
  "bytes_where P f M = (\<Sum>x\<in>#filter_mset P M. f x)"

lemma bytes_where_empty [simp]: "bytes_where P f {#} = 0"
  by (simp add: bytes_where_def)

lemma bytes_where_add [simp]:
  "bytes_where P f (add_mset x M) = (if P x then f x else 0) + bytes_where P f M"
  by (simp add: bytes_where_def)

lemma bytes_where_union [simp]: "bytes_where P f (M + N) = bytes_where P f M + bytes_where P f N"
  by (simp add: bytes_where_def)

lemma bytes_where_mset [simp]: "bytes_where P f (mset xs) = sum_where P f xs"
  by (induction xs) auto

lemma bytes_where_split:
  "bytes_where P f M = bytes_where P f (filter_mset Q M) + bytes_where P f (filter_mset (\<lambda>x. \<not> Q x) M)"
  by (induction M) auto

lemma bytes_where_cong:
  "(\<And>x. x \<in># M \<Longrightarrow> P x = Q x) \<Longrightarrow> (\<And>x. x \<in># M \<Longrightarrow> Q x \<Longrightarrow> f x = g x) \<Longrightarrow>
   bytes_where P f M = bytes_where Q g M"
  by (induction M) auto

lemma bytes_where_nonneg:
  "(\<And>x. x \<in># M \<Longrightarrow> P x \<Longrightarrow> 0 \<le> f x) \<Longrightarrow> 0 \<le> bytes_where P f M"
  by (induction M) auto

lemma bytes_where_none: "(\<And>x. x \<in># M \<Longrightarrow> \<not> P x) \<Longrightarrow> bytes_where P f M = 0"
  by (induction M) auto

lemma bytes_where_image [simp]:
  "bytes_where P f (image_mset g M) = bytes_where (\<lambda>x. P (g x)) (\<lambda>x. f (g x)) M"
  by (induction M) auto

lemma bytes_where_filter:
  "bytes_where P f (filter_mset Q M) = bytes_where (\<lambda>x. P x \<and> Q x) f M"
  by (induction M) auto

lemma bytes_where_neg [simp]: "bytes_where P (\<lambda>x. - f x) M = - bytes_where P f M"
  by (induction M) auto

text \<open>A table in which no two rows share a key.\<close>

definition unique_by :: "('a \<Rightarrow> 'b) \<Rightarrow> 'a multiset \<Rightarrow> bool" where
  "unique_by f M \<longleftrightarrow> (\<forall>k. count (image_mset f M) k \<le> 1)"

lemma unique_by_empty [simp]: "unique_by f {#}"
  by (simp add: unique_by_def)

lemma unique_by_add [simp]:
  "unique_by f (add_mset x M) \<longleftrightarrow> f x \<notin> f ` set_mset M \<and> unique_by f M"
  (is "?l = ?r")
proof -
  have "count (image_mset f M) (f x) = 0 \<longleftrightarrow> f x \<notin> f ` set_mset M"
    by (simp add: count_eq_zero_iff)
  moreover have "?l \<longleftrightarrow> count (image_mset f M) (f x) = 0 \<and> unique_by f M"
    unfolding unique_by_def by (auto intro: le_SucI)
  ultimately show ?thesis by simp
qed

lemma unique_by_mset [simp]: "unique_by f (mset xs) \<longleftrightarrow> distinct (map f xs)"
  by (induction xs) auto

lemma unique_by_filter [intro]: "unique_by f M \<Longrightarrow> unique_by f (filter_mset P M)"
  by (induction M) auto

lemma unique_by_eq: "unique_by f M \<Longrightarrow> x \<in># M \<Longrightarrow> y \<in># M \<Longrightarrow> f x = f y \<Longrightarrow> x = y"
proof (induction M)
  case (add z M)
  then show ?case by (auto simp: image_iff)
qed simp

lemma filter_mset_none: "(\<And>x. x \<in># M \<Longrightarrow> \<not> P x) \<Longrightarrow> filter_mset P M = {#}"
  by (induction M) auto

lemma filter_mset_rest: "filter_mset P M = {#} \<Longrightarrow> filter_mset (\<lambda>x. \<not> P x) M = M"
  by (induction M) (auto split: if_splits)

lemma unique_by_single: "unique_by f M \<Longrightarrow> x \<in># M \<Longrightarrow> filter_mset (\<lambda>y. f y = f x) M = {#x#}"
proof (induction M)
  case (add z M)
  show ?case
  proof (cases "f z = f x")
    case True
    then have "x = z" and "f x \<notin> f ` set_mset M"
      using add.prems unique_by_eq [OF add.prems(1,2), of z] by auto
    then show ?thesis by (auto intro!: filter_mset_none simp: image_iff)
  next
    case False
    with add show ?thesis by auto
  qed
qed simp

end
