(* ===== verification/Flags.thy ===== *)
theory Flags
  imports Prelude
begin

unbundle bit_operations_syntax

text \<open>
  Bit-flag sets: \<open>util/bitset\<close>, and the three flag types built on it that the store and the
  proxy share: \<open>StoredFlags\<close> (the layers a copy's bytes carry), \<open>BackendFlags\<close> (the state an
  operator put a backend in), \<open>BackendCalls\<close> (the calls a backend serves), and the grant
  permissions of \<open>permission.go\<close>. All are 64-bit words, as in the source.

  The main facts: every vocabulary of the source passes \<open>Validate\<close>, and a validated vocabulary
  loses nothing when a set is rendered as names and read back.
\<close>

type_synonym flags = "64 word"

subsection \<open>util/bitset\<close>

definition Has :: "flags \<Rightarrow> flags \<Rightarrow> bool" where
  "Has s want \<longleftrightarrow> s AND want = want"

definition Any :: "flags \<Rightarrow> flags \<Rightarrow> bool" where
  "Any s m \<longleftrightarrow> s AND m \<noteq> 0"

definition Within :: "flags \<Rightarrow> flags \<Rightarrow> bool" where
  "Within s allowed \<longleftrightarrow> s AND NOT allowed = 0"

type_synonym vocabulary = "(flags \<times> string) list"

fun Lookup :: "vocabulary \<Rightarrow> string \<Rightarrow> flags option" where
  "Lookup [] name = None"
| "Lookup ((b, n) # v) name = (if n = name then Some b else Lookup v name)"

definition AllNames :: "vocabulary \<Rightarrow> string list" where
  "AllNames v = map snd v"

definition Names :: "vocabulary \<Rightarrow> flags \<Rightarrow> string list" where
  "Names v s = map snd (filter (\<lambda>b. s AND fst b \<noteq> 0) v)"

fun strings_Join :: "string list \<Rightarrow> string \<Rightarrow> string" where
  "strings_Join [] sep = []"
| "strings_Join [x] sep = x"
| "strings_Join (x # y # ys) sep = x @ sep @ strings_Join (y # ys) sep"

definition Join :: "vocabulary \<Rightarrow> flags \<Rightarrow> string" where
  "Join v s = strings_Join (Names v s) '',''"

definition OnesCount64 :: "flags \<Rightarrow> nat" where
  "OnesCount64 w = length (filter (bit w) [0..<64])"

datatype vocabulary_error = NotSingleBit string | SharesBit string string | NameTwice string

text \<open>
  \<open>Validate\<close> walks the entries with the bits and names seen so far. \<open>sgnd\<close> says whether the
  flag type is an \<open>int64\<close>, where the test \<open>b.Bit <= 0\<close> also refuses bit 63, or a \<open>uint64\<close>.
\<close>

fun Validate_from ::
  "bool \<Rightarrow> (flags \<times> string) list \<Rightarrow> string list \<Rightarrow> vocabulary \<Rightarrow> vocabulary_error option" where
  "Validate_from sgnd seen names [] = None"
| "Validate_from sgnd seen names ((b, n) # v) =
    (if (if sgnd then sint b \<le> 0 else b = 0) \<or> OnesCount64 b \<noteq> 1 then Some (NotSingleBit n)
     else case map_of seen b of
            Some prior \<Rightarrow> Some (SharesBit n prior)
          | None \<Rightarrow>
              if n \<in> set names then Some (NameTwice n)
              else Validate_from sgnd ((b, n) # seen) (n # names) v)"

definition Validate :: "bool \<Rightarrow> vocabulary \<Rightarrow> vocabulary_error option" where
  "Validate sgnd v = Validate_from sgnd [] [] v"

text \<open>Reading names back into a set: unknown names are skipped (\<open>CallsNamed\<close>).\<close>

fun set_named :: "vocabulary \<Rightarrow> flags \<Rightarrow> string list \<Rightarrow> flags" where
  "set_named v acc [] = acc"
| "set_named v acc (n # ns) =
     set_named v (case Lookup v n of Some b \<Rightarrow> acc OR b | None \<Rightarrow> acc) ns"

definition all_bits :: "vocabulary \<Rightarrow> flags" where
  "all_bits v = foldr (\<lambda>b acc. fst b OR acc) v 0"

subsection \<open>StoredFlags\<close>

definition StoredCompressed :: flags where "StoredCompressed = 1"
definition StoredEncrypted :: flags where "StoredEncrypted = 2"
definition StoredHashed :: flags where "StoredHashed = 4"
definition StoredKeyed :: flags where "StoredKeyed = 8"
definition StoredReadable :: flags where "StoredReadable = StoredEncrypted OR StoredKeyed"
definition StoredLayers :: flags where "StoredLayers = StoredCompressed OR StoredEncrypted"

definition storedFlagNames :: vocabulary where
  "storedFlagNames =
     [(StoredCompressed, ''compressed''), (StoredEncrypted, ''encrypted''),
      (StoredHashed, ''hashed''), (StoredKeyed, ''keyed'')]"

definition Unreadable :: "flags \<Rightarrow> bool" where
  "Unreadable f \<longleftrightarrow> Has f StoredEncrypted \<and> \<not> Has f StoredKeyed"

lemmas stored_flag_defs =
  StoredCompressed_def StoredEncrypted_def StoredHashed_def StoredKeyed_def StoredReadable_def
  StoredLayers_def

subsection \<open>BackendFlags\<close>

definition FlagCordoned :: flags where "FlagCordoned = 1"
definition FlagDraining :: flags where "FlagDraining = 2"
definition FlagDrained :: flags where "FlagDrained = 4"
definition FlagDrainFailed :: flags where "FlagDrainFailed = 8"
definition DrainFlags :: flags where "DrainFlags = FlagDraining OR FlagDrained OR FlagDrainFailed"
definition DrainBusy :: flags where "DrainBusy = FlagDraining OR FlagDrained"
definition AcceptForWrite :: flags where "AcceptForWrite = 0"
definition AcceptForReconcile :: flags where "AcceptForReconcile = FlagCordoned"
definition AcceptForRewrite :: flags where "AcceptForRewrite = FlagCordoned"
definition AcceptForPart :: flags where "AcceptForPart = FlagCordoned"

definition backendFlagNames :: vocabulary where
  "backendFlagNames =
     [(FlagCordoned, ''cordoned''), (FlagDraining, ''draining''),
      (FlagDrained, ''drained''), (FlagDrainFailed, ''drain-failed'')]"

definition AcceptedBy :: "flags \<Rightarrow> flags \<Rightarrow> bool" where
  "AcceptedBy f accept = Within f accept"

definition DrainState :: "flags \<Rightarrow> string" where
  "DrainState f =
     (if Any f FlagDraining then ''draining''
      else if Any f FlagDrained then ''drained''
      else if Any f FlagDrainFailed then ''failed''
      else [])"

lemmas backend_flag_defs =
  FlagCordoned_def FlagDraining_def FlagDrained_def FlagDrainFailed_def DrainFlags_def
  DrainBusy_def AcceptForWrite_def AcceptForReconcile_def AcceptForRewrite_def AcceptForPart_def

subsection \<open>BackendCalls\<close>

definition CallPutObject :: flags where "CallPutObject = 1"
definition CallGetObject :: flags where "CallGetObject = 2"
definition CallHeadObject :: flags where "CallHeadObject = 4"
definition CallDeleteObject :: flags where "CallDeleteObject = 8"
definition CallDeleteObjects :: flags where "CallDeleteObjects = 16"
definition CallCopyObject :: flags where "CallCopyObject = 32"
definition CallListObjects :: flags where "CallListObjects = 64"

definition AllCalls :: flags where
  "AllCalls = CallPutObject OR CallGetObject OR CallHeadObject OR CallDeleteObject OR
     CallDeleteObjects OR CallCopyObject OR CallListObjects"

definition RequiredForWrite :: flags where "RequiredForWrite = CallPutObject OR CallGetObject"
definition RequiredForRead :: flags where "RequiredForRead = CallGetObject"
definition RequiredForProbe :: flags where "RequiredForProbe = CallHeadObject"

definition backendCallNames :: vocabulary where
  "backendCallNames =
     [(CallPutObject, ''PutObject''), (CallGetObject, ''GetObject''),
      (CallHeadObject, ''HeadObject''), (CallDeleteObject, ''DeleteObject''),
      (CallDeleteObjects, ''DeleteObjects''), (CallCopyObject, ''CopyObject''),
      (CallListObjects, ''ListObjects'')]"

definition Health :: "flags \<Rightarrow> string" where
  "Health c =
     (if c AND AllCalls = 0 then ''healthy''
      else if Has c AllCalls then ''down''
      else ''degraded'')"

definition CallsNamed :: "string list \<Rightarrow> flags" where
  "CallsNamed names = set_named backendCallNames 0 names"

lemmas backend_call_defs =
  CallPutObject_def CallGetObject_def CallHeadObject_def CallDeleteObject_def
  CallDeleteObjects_def CallCopyObject_def CallListObjects_def AllCalls_def
  RequiredForWrite_def RequiredForRead_def RequiredForProbe_def

subsection \<open>Permissions\<close>

text \<open>
  Grant permissions. \<open>strings.ToLower\<close> and \<open>strings.TrimSpace\<close> are modelled on ASCII input; a
  byte outside ASCII is kept as it is.
\<close>

datatype ResourceKind = ResourceBucket | ResourceBackend | ResourceOrchestrator

definition PermListBuckets :: flags where "PermListBuckets = 1"
definition PermList :: flags where "PermList = 2"
definition PermRead :: flags where "PermRead = 4"
definition PermWrite :: flags where "PermWrite = 8"
definition PermDelete :: flags where "PermDelete = 16"
definition PermTags :: flags where "PermTags = 32"
definition PermAdminRead :: flags where "PermAdminRead = 64"
definition PermAdminLogs :: flags where "PermAdminLogs = 128"
definition PermAdminMaintain :: flags where "PermAdminMaintain = 256"
definition PermAdminConvert :: flags where "PermAdminConvert = 512"
definition PermAdminKeys :: flags where "PermAdminKeys = 1024"
definition PermAdminCache :: flags where "PermAdminCache = 2048"
definition PermAdminDrain :: flags where "PermAdminDrain = 4096"
definition PermAdminCordon :: flags where "PermAdminCordon = 8192"
definition PermAdminDecommission :: flags where "PermAdminDecommission = 16384"
definition PermAdminConfig :: flags where "PermAdminConfig = 32768"
definition PermAdminProvision :: flags where "PermAdminProvision = 65536"

definition PermAll :: flags where
  "PermAll = PermListBuckets OR PermList OR PermRead OR PermWrite OR PermDelete OR PermTags"

definition PermAdminAll :: flags where
  "PermAdminAll = PermAdminRead OR PermAdminLogs OR PermAdminMaintain OR PermAdminConvert OR
     PermAdminKeys OR PermAdminCache OR PermAdminDrain OR PermAdminCordon OR
     PermAdminDecommission OR PermAdminConfig OR PermAdminProvision"

lemmas permission_defs =
  PermListBuckets_def PermList_def PermRead_def PermWrite_def PermDelete_def PermTags_def
  PermAdminRead_def PermAdminLogs_def PermAdminMaintain_def PermAdminConvert_def
  PermAdminKeys_def PermAdminCache_def PermAdminDrain_def PermAdminCordon_def
  PermAdminDecommission_def PermAdminConfig_def PermAdminProvision_def PermAll_def
  PermAdminAll_def

definition permissionNames :: vocabulary where
  "permissionNames =
     [(PermListBuckets, ''list-buckets''), (PermList, ''list''), (PermRead, ''read''),
      (PermWrite, ''write''), (PermDelete, ''delete''), (PermTags, ''tags''),
      (PermAdminRead, ''admin-read''), (PermAdminLogs, ''admin-logs''),
      (PermAdminMaintain, ''admin-maintain''), (PermAdminConvert, ''admin-convert''),
      (PermAdminKeys, ''admin-keys''), (PermAdminCache, ''admin-cache''),
      (PermAdminDrain, ''admin-drain''), (PermAdminCordon, ''admin-cordon''),
      (PermAdminDecommission, ''admin-decommission''), (PermAdminConfig, ''admin-config''),
      (PermAdminProvision, ''admin-provision'')]"

definition PermissionSet_String :: "flags \<Rightarrow> string" where
  "PermissionSet_String p =
     (if p = PermAll then ''all''
      else if p = PermAdminAll then ''admin-all''
      else Join permissionNames p)"

definition ascii_lower :: "char \<Rightarrow> char" where
  "ascii_lower c =
     (let n = (of_char c :: nat) in if 65 \<le> n \<and> n \<le> 90 then char_of (n + 32) else c)"

definition ascii_space :: "char \<Rightarrow> bool" where
  "ascii_space c \<longleftrightarrow> (of_char c :: nat) \<in> {9, 10, 11, 12, 13, 32}"

definition strings_ToLower :: "string \<Rightarrow> string" where
  "strings_ToLower s = map ascii_lower s"

definition strings_TrimSpace :: "string \<Rightarrow> string" where
  "strings_TrimSpace s = rev (dropWhile ascii_space (rev (dropWhile ascii_space s)))"

fun ParsePermissions_from :: "flags \<Rightarrow> string list \<Rightarrow> string + flags" where
  "ParsePermissions_from out [] = Inr out"
| "ParsePermissions_from out (field # names) =
    (let name = strings_ToLower (strings_TrimSpace field) in
     if name = [] then ParsePermissions_from out names
     else if name = ''all'' then ParsePermissions_from (out OR PermAll) names
     else if name = ''admin-all'' then ParsePermissions_from (out OR PermAdminAll) names
     else case Lookup permissionNames name of
            None \<Rightarrow> Inl name
          | Some b \<Rightarrow> ParsePermissions_from (out OR b) names)"

definition ParsePermissions :: "string list \<Rightarrow> string + flags" where
  "ParsePermissions names = ParsePermissions_from 0 names"

definition emptyPermissions :: "ResourceKind \<Rightarrow> flags" where
  "emptyPermissions k = (if k = ResourceBucket then PermAll else 0)"

definition ValidOn :: "ResourceKind \<Rightarrow> flags" where
  "ValidOn k = (if k = ResourceBucket then PermAll else PermAdminAll)"

definition ValidatePermissions :: "ResourceKind \<Rightarrow> flags \<Rightarrow> bool" where
  "ValidatePermissions k p \<longleftrightarrow> Within p (ValidOn k)"

subsection \<open>Facts about flag tests\<close>

lemma bit_flags_less: "bit (s :: flags) i \<Longrightarrow> i < 64"
  using bit_imp_le_length [of s i] by simp

lemma Has_iff_bits: "Has s want \<longleftrightarrow> (\<forall>i. bit want i \<longrightarrow> bit s i)"
  by (auto simp: Has_def bit_eq_iff bit_simps dest: bit_flags_less)

lemma Any_iff_bits: "Any s m \<longleftrightarrow> (\<exists>i. bit s i \<and> bit m i)"
  by (auto simp: Any_def bit_eq_iff bit_simps dest: bit_flags_less)

lemma Within_iff_bits: "Within s allowed \<longleftrightarrow> (\<forall>i. bit s i \<longrightarrow> bit allowed i)"
proof
  assume w: "Within s allowed"
  show "\<forall>i. bit s i \<longrightarrow> bit allowed i"
  proof (intro allI impI)
    fix i assume "bit s i"
    moreover from this have "i < 64" by (rule bit_flags_less)
    moreover have "\<not> bit (s AND NOT allowed) i"
      using w by (simp add: Within_def)
    ultimately show "bit allowed i"
      by (simp add: bit_simps)
  qed
next
  assume "\<forall>i. bit s i \<longrightarrow> bit allowed i"
  then show "Within s allowed"
    by (auto simp: Within_def bit_eq_iff bit_simps)
qed

lemma Within_0 [simp]: "Within 0 allowed"
  by (simp add: Within_def)

lemma Within_zero_mask [simp]: "Within s 0 \<longleftrightarrow> s = 0"
  by (simp add: Within_def)

lemma OnesCount64_single:
  assumes "OnesCount64 b = 1"
  obtains i where "\<And>j. bit b j \<longleftrightarrow> j = i"
proof -
  from assms obtain i where "filter (bit b) [0..<64] = [i]"
    by (auto simp: OnesCount64_def length_Suc_conv)
  then have "set (filter (bit b) [0..<64]) = {i}"
    by simp
  then have "{j. j < 64 \<and> bit b j} = {i}"
    by auto
  then have "bit b j \<longleftrightarrow> j = i" for j
    using bit_flags_less [of b j] by auto
  then show thesis by (rule that)
qed

lemma and_single_bit: "OnesCount64 b = 1 \<Longrightarrow> s AND b = (if s AND b \<noteq> 0 then b else 0)"
proof (erule OnesCount64_single)
  fix i
  assume b: "\<And>j. bit b j \<longleftrightarrow> j = i"
  show ?thesis
  proof (cases "bit s i")
    case True
    with b have "s AND b = b"
      by (intro bit_word_eqI) (auto simp: bit_simps)
    then show ?thesis by simp
  next
    case False
    with b have "s AND b = 0"
      by (intro bit_word_eqI) (auto simp: bit_simps)
    then show ?thesis by simp
  qed
qed

subsection \<open>A validated vocabulary round-trips\<close>

lemma Validate_from_None:
  "Validate_from sgnd seen names v = None \<Longrightarrow>
     (\<forall>b \<in> set v. OnesCount64 (fst b) = 1) \<and> distinct (map snd v) \<and>
     set names \<inter> snd ` set v = {}"
  by (induction sgnd seen names v rule: Validate_from.induct)
     (auto split: if_splits option.splits)

lemma all_bits_Nil [simp]: "all_bits [] = 0"
  by (simp add: all_bits_def)

lemma all_bits_Cons [simp]: "all_bits (b # v) = fst b OR all_bits v"
  by (simp add: all_bits_def)

lemma Lookup_distinct: "distinct (map snd v) \<Longrightarrow> (b, n) \<in> set v \<Longrightarrow> Lookup v n = Some b"
  by (induction v n rule: Lookup.induct) (auto simp: image_iff)

locale valid_vocabulary =
  fixes sgnd :: bool and v :: vocabulary
  assumes valid: "Validate sgnd v = None"
begin

lemma single_bits: "b \<in> set v \<Longrightarrow> OnesCount64 (fst b) = 1"
  and distinct_names: "distinct (map snd v)"
  using Validate_from_None [OF valid [unfolded Validate_def]] by auto

lemma Lookup_entry: "b \<in> set v \<Longrightarrow> Lookup v (snd b) = Some (fst b)"
  by (rule Lookup_distinct [OF distinct_names]) simp

lemma set_named_entries:
  "set ws \<subseteq> set v \<Longrightarrow> set_named v acc (map snd ws) = acc OR all_bits ws"
  by (induction ws arbitrary: acc) (auto simp: Lookup_entry or.assoc)

lemma all_bits_filter:
  "set ws \<subseteq> set v \<Longrightarrow> all_bits (filter (\<lambda>b. s AND fst b \<noteq> 0) ws) = s AND all_bits ws"
proof (induction ws)
  case Nil
  then show ?case by simp
next
  case (Cons b ws)
  have "s AND fst b = (if s AND fst b \<noteq> 0 then fst b else 0)"
    using Cons.prems by (intro and_single_bit single_bits) simp
  with Cons show ?case
    by (auto simp: bit.conj_disj_distrib)
qed

lemma named_Names: "set_named v 0 (Names v s) = s AND all_bits v"
  using set_named_entries [of "filter (\<lambda>b. s AND fst b \<noteq> 0) v" 0] all_bits_filter [of v s]
  by (simp add: Names_def)

lemma Names_inj: "s AND all_bits v = s \<Longrightarrow> t AND all_bits v = t \<Longrightarrow> Names v s = Names v t \<Longrightarrow> s = t"
  by (metis named_Names)

end

subsection \<open>The vocabularies of the source\<close>

interpretation stored_names: valid_vocabulary True storedFlagNames
  by unfold_locales code_simp

interpretation backend_names: valid_vocabulary True backendFlagNames
  by unfold_locales code_simp

interpretation call_names: valid_vocabulary False backendCallNames
  by unfold_locales code_simp

interpretation permission_names: valid_vocabulary False permissionNames
  by unfold_locales code_simp

lemma all_bits_calls: "all_bits backendCallNames = AllCalls"
  by (simp add: backendCallNames_def AllCalls_def)

lemma all_bits_permissions: "all_bits permissionNames = PermAll OR PermAdminAll"
  by (simp add: permissionNames_def PermAll_def PermAdminAll_def or.assoc)

lemma permission_names_canonical:
  "list_all (\<lambda>b. strings_ToLower (strings_TrimSpace (snd b)) = snd b \<and> snd b \<noteq> [] \<and>
     snd b \<noteq> ''all'' \<and> snd b \<noteq> ''admin-all'') permissionNames"
  by code_simp

lemma ParsePermissions_from_entries:
  "set ws \<subseteq> set permissionNames \<Longrightarrow>
   ParsePermissions_from out (map snd ws) = Inr (out OR all_bits ws)"
proof (induction ws arbitrary: out)
  case Nil
  then show ?case by simp
next
  case (Cons b ws)
  then have "b \<in> set permissionNames" by simp
  then have "strings_ToLower (strings_TrimSpace (snd b)) = snd b" "snd b \<noteq> []"
    "snd b \<noteq> ''all''" "snd b \<noteq> ''admin-all''"
    and "Lookup permissionNames (snd b) = Some (fst b)"
    using permission_names_canonical permission_names.Lookup_entry
    by (auto simp: list_all_iff)
  with Cons show ?case
    by (simp add: Let_def or.assoc)
qed

text \<open>
  Rendering a grant's permissions as names and parsing the names back gives the same set:
  for any set of defined permissions \<open>ParsePermissions\<close> inverts \<open>Names\<close>.
\<close>

theorem permissions_roundtrip:
  "ParsePermissions (Names permissionNames p) = Inr (p AND (PermAll OR PermAdminAll))"
  using ParsePermissions_from_entries [of "filter (\<lambda>b. p AND fst b \<noteq> 0) permissionNames" 0]
    permission_names.all_bits_filter [of permissionNames p]
  by (simp add: ParsePermissions_def Names_def all_bits_permissions)

text \<open>
  Reading call names off the admin API gives back exactly the calls that were rendered.
\<close>

theorem calls_roundtrip: "CallsNamed (Names backendCallNames c) = c AND AllCalls"
  by (simp add: CallsNamed_def call_names.named_Names all_bits_calls)

text \<open>
  No set of permissions that is valid on a bucket grant carries an administrative
  permission, and none valid on another kind of grant carries a data-plane one.
\<close>

theorem permission_planes_disjoint:
  assumes "ValidatePermissions k p"
  shows "\<not> Any p (if k = ResourceBucket then PermAdminAll else PermAll)"
proof -
  have "ValidOn k AND (if k = ResourceBucket then PermAdminAll else PermAll) = 0"
    by (simp add: ValidOn_def permission_defs)
  then have "\<not> (bit (ValidOn k) i \<and> bit (if k = ResourceBucket then PermAdminAll else PermAll) i)"
    for i by (metis bit_and_iff bit_0_eq bot_apply bot_bool_def)
  with assms show ?thesis
    by (auto simp: ValidatePermissions_def Within_iff_bits Any_iff_bits)
qed

theorem permission_planes_disjoint_witness:
  "ValidatePermissions ResourceBucket (PermRead OR PermWrite) \<and>
   \<not> Any (PermRead OR PermWrite) PermAdminAll"
proof -
  have h: "ValidatePermissions ResourceBucket (PermRead OR PermWrite)" by code_simp
  show ?thesis using h permission_planes_disjoint [OF h] by simp
qed

end
