(* ===== verification/Utf8.thy ===== *)
theory Utf8
  imports Prelude
begin

text \<open>
  Go's UTF-8 decoding of a byte string, as \<open>for _, r := range s\<close>, \<open>[]rune(s)\<close> and
  \<open>string(r)\<close> perform it: an invalid or truncated sequence decodes to U+FFFD and advances one
  byte, and an unencodable rune encodes as U+FFFD. The tag limits and the listing bounds are
  stated over these.
\<close>

definition byte :: "char \<Rightarrow> nat" where
  "byte c = of_char c"

definition unbyte :: "nat \<Rightarrow> char" where
  "unbyte n = char_of n"

definition RuneError :: nat where "RuneError = 65533"
definition MaxRune :: nat where "MaxRune = 1114111"

definition is_surrogate :: "nat \<Rightarrow> bool" where
  "is_surrogate r \<longleftrightarrow> 55296 \<le> r \<and> r < 57344"

definition valid_rune :: "nat \<Rightarrow> bool" where
  "valid_rune r \<longleftrightarrow> r \<le> MaxRune \<and> \<not> is_surrogate r"

text \<open>The range the second byte of a sequence must lie in, by its first byte.\<close>

definition accept_lo :: "nat \<Rightarrow> nat" where
  "accept_lo b0 = (if b0 = 224 then 160 else if b0 = 240 then 144 else 128)"

definition accept_hi :: "nat \<Rightarrow> nat" where
  "accept_hi b0 = (if b0 = 237 then 159 else if b0 = 244 then 143 else 191)"

definition is_cont :: "nat \<Rightarrow> bool" where
  "is_cont b \<longleftrightarrow> 128 \<le> b \<and> b \<le> 191"

fun decode_rune :: "nat list \<Rightarrow> nat \<times> nat" where
  "decode_rune [] = (RuneError, 0)"
| "decode_rune (b0 # s) =
    (if b0 < 128 then (b0, 1)
     else if b0 < 194 \<or> 244 < b0 then (RuneError, 1)
     else case s of
       [] \<Rightarrow> (RuneError, 1)
     | b1 # s \<Rightarrow>
         if b1 < accept_lo b0 \<or> accept_hi b0 < b1 then (RuneError, 1)
         else if b0 < 224 then ((b0 - 192) * 64 + (b1 - 128), 2)
         else case s of
           [] \<Rightarrow> (RuneError, 1)
         | b2 # s \<Rightarrow>
             if \<not> is_cont b2 then (RuneError, 1)
             else if b0 < 240 then ((b0 - 224) * 4096 + (b1 - 128) * 64 + (b2 - 128), 3)
             else case s of
               [] \<Rightarrow> (RuneError, 1)
             | b3 # s \<Rightarrow>
                 if \<not> is_cont b3 then (RuneError, 1)
                 else ((b0 - 240) * 262144 + (b1 - 128) * 4096 + (b2 - 128) * 64 + (b3 - 128), 4))"

fun decode_runes :: "nat list \<Rightarrow> nat list" where
  "decode_runes [] = []"
| "decode_runes (b # s) =
     (case decode_rune (b # s) of (r, w) \<Rightarrow> r # decode_runes (drop (w - 1) s))"

definition runes :: "string \<Rightarrow> nat list" where
  "runes s = decode_runes (map byte s)"

definition encode_rune :: "nat \<Rightarrow> nat list" where
  "encode_rune r0 =
    (let r = (if valid_rune r0 then r0 else RuneError) in
     if r < 128 then [r]
     else if r < 2048 then [192 + r div 64, 128 + r mod 64]
     else if r < 65536 then [224 + r div 4096, 128 + r div 64 mod 64, 128 + r mod 64]
     else [240 + r div 262144, 128 + r div 4096 mod 64, 128 + r div 64 mod 64, 128 + r mod 64])"

definition string_of_runes :: "nat list \<Rightarrow> string" where
  "string_of_runes rs = map unbyte (concat (map encode_rune rs))"

text \<open>\<open>utf16Length\<close> of \<open>store/core/tags.go\<close>.\<close>

definition utf16Length :: "string \<Rightarrow> nat" where
  "utf16Length s = sum_list (map (\<lambda>r. if r > 65535 then 2 else 1) (runes s))"

subsection \<open>Decoding inverts encoding\<close>

lemma base64_digits:
  fixes r :: nat
  shows "r div 4096 = r div 64 div 64" "r div 262144 = r div 64 div 64 div 64"
    and "r div 64 * 64 + r mod 64 = r"
  by (simp_all flip: div_mult2_eq)

lemma decode_encode_rune:
  assumes "valid_rune r"
  shows "decode_rune (encode_rune r @ s) = (r, length (encode_rune r))"
proof -
  define d0 d1 d2 d3 where "d0 = r mod 64" and "d1 = r div 64 mod 64"
    and "d2 = r div 64 div 64 mod 64" and "d3 = r div 64 div 64 div 64"
  have lt: "d0 < 64" "d1 < 64" "d2 < 64"
    by (simp_all add: d0_def d1_def d2_def)
  have q1: "r div 64 = (d3 * 64 + d2) * 64 + d1" and q2: "r div 64 div 64 = d3 * 64 + d2"
    by (simp_all add: d1_def d2_def d3_def base64_digits(3))
  have "r = ((d3 * 64 + d2) * 64 + d1) * 64 + d0"
    unfolding q1 [symmetric] d0_def by (rule base64_digits(3) [symmetric])
  then have r: "r = 262144 * d3 + 4096 * d2 + 64 * d1 + d0"
    by simp
  have lim: "r \<le> 1114111" "\<not> (55296 \<le> r \<and> r < 57344)"
    using assms by (auto simp: valid_rune_def MaxRune_def is_surrogate_def)
  have enc: "encode_rune r =
    (if r < 128 then [r]
     else if r < 2048 then [192 + r div 64, 128 + d0]
     else if r < 65536 then [224 + r div 64 div 64, 128 + d1, 128 + d0]
     else [240 + d3, 128 + d2, 128 + d1, 128 + d0])"
    using assms by (simp only: encode_rune_def Let_def if_True base64_digits(1,2) d0_def d1_def
        d2_def d3_def)
  consider "r < 128" | "128 \<le> r" "r < 2048" | "2048 \<le> r" "r < 65536" | "65536 \<le> r"
    by linarith
  then show ?thesis
  proof cases
    case 1
    then show ?thesis by (simp add: enc)
  next
    case 2
    moreover from 2 have z: "d3 = 0" "d2 = 0"
      using r by linarith+
    moreover from 2 have "2 \<le> d1" "d1 < 32"
      using r lt unfolding z by linarith+
    ultimately show ?thesis
      unfolding enc using r lt q1 by (simp add: accept_lo_def accept_hi_def)
  next
    case 3
    moreover from 3 have z: "d3 = 0"
      using r by linarith
    moreover from 3 have "d2 < 16" "d2 = 0 \<Longrightarrow> 32 \<le> d1" "d2 = 13 \<Longrightarrow> d1 < 32"
      using r lt lim unfolding z by linarith+
    ultimately show ?thesis
      unfolding enc using r lt q2 by (auto simp: accept_lo_def accept_hi_def is_cont_def)
  next
    case 4
    moreover have "d3 \<le> 4" "d3 = 0 \<Longrightarrow> 16 \<le> d2" "d3 = 4 \<Longrightarrow> d2 < 16"
      using 4 r lt lim by linarith+
    ultimately show ?thesis
      unfolding enc using r lt q2 by (auto simp: accept_lo_def accept_hi_def is_cont_def)
  qed
qed

end
