(* ===== verification/StoreTypes.thy ===== *)
theory StoreTypes
  imports Flags Utf8
begin

text \<open>
  The data the store's operations exchange (\<open>store/core/types.go\<close>) and the pure functions on
  it: stored forms and the flags they imply (\<open>storedflags.go\<close>), identities
  (\<open>identity.go\<close>), copies and intents (\<open>types.go\<close>, \<open>helpers.go\<close>), tag sets
  (\<open>tags.go\<close>), the quota stripe a key selects (\<open>quota_stripes.go\<close>). A nil pointer is
  \<^const>\<open>None\<close>; a Go map is an association list; a JSON column is the value it encodes.
\<close>

subsection \<open>Stored forms\<close>

record StoredForm =
  Encrypted :: bool
  EncryptionKey :: string
  KeyID :: string
  PlaintextSize :: int
  ContentHash :: string
  CompressionAlgorithm :: string
  CompressionLevel :: string
  CompressionFormatVersion :: int
  LogicalSize :: int

definition zeroForm :: StoredForm where
  "zeroForm = \<lparr>Encrypted = False, EncryptionKey = [], KeyID = [], PlaintextSize = 0,
     ContentHash = [], CompressionAlgorithm = [], CompressionLevel = [],
     CompressionFormatVersion = 0, LogicalSize = 0\<rparr>"

definition StoredForm_Form :: "StoredForm \<Rightarrow> 64 word" where
  "StoredForm_Form f =
     or (if CompressionAlgorithm f \<noteq> [] then StoredCompressed else 0)
     (or (if Encrypted f then StoredEncrypted else 0)
     (or (if ContentHash f \<noteq> [] then StoredHashed else 0)
         (if EncryptionKey f \<noteq> [] then StoredKeyed else 0)))"

text \<open>\<open>Form\<close> on a nil pointer is the empty set.\<close>

definition FormOf :: "StoredForm option \<Rightarrow> 64 word" where
  "FormOf f = (case f of None \<Rightarrow> 0 | Some f \<Rightarrow> StoredForm_Form f)"

definition StoredForm_Unreadable :: "StoredForm option \<Rightarrow> bool" where
  "StoredForm_Unreadable f = Unreadable (FormOf f)"

definition Recorded :: "StoredForm \<Rightarrow> StoredForm" where
  "Recorded f =
    (let r = zeroForm\<lparr>ContentHash := ContentHash f\<rparr>;
         r = (if Encrypted f
              then r\<lparr>Encrypted := True, EncryptionKey := EncryptionKey f, KeyID := KeyID f,
                     PlaintextSize := PlaintextSize f\<rparr>
              else r)
     in if CompressionAlgorithm f \<noteq> []
        then r\<lparr>CompressionAlgorithm := CompressionAlgorithm f,
               CompressionLevel := CompressionLevel f,
               CompressionFormatVersion := CompressionFormatVersion f,
               LogicalSize := LogicalSize f\<rparr>
        else r)"

definition ClientSize :: "StoredForm \<Rightarrow> int \<Rightarrow> int" where
  "ClientSize f stored =
    (let form = StoredForm_Form f in
     if Has form StoredCompressed then LogicalSize f
     else if Has form StoredEncrypted then PlaintextSize f
     else stored)"

definition Described :: "StoredForm option \<Rightarrow> StoredForm option" where
  "Described f =
    (if \<not> Any (FormOf f) (or StoredCompressed (or StoredEncrypted StoredHashed)) then None else f)"

text \<open>
  The two columns the schema generates from the stored form
  (\<open>store/sqlite/schema.sql\<close>): \<open>form\<close> joins one bit per layer, and
  \<open>object_size\<close> picks a size column.
\<close>

definition sql_form :: "StoredForm \<Rightarrow> int" where
  "sql_form f =
     or (or (or (if CompressionAlgorithm f \<noteq> [] then 1 else 0) (if Encrypted f then 2 else 0))
       (if ContentHash f \<noteq> [] then 4 else 0)) (if EncryptionKey f \<noteq> [] then 8 else 0)"

definition sql_object_size :: "StoredForm \<Rightarrow> int \<Rightarrow> int" where
  "sql_object_size f stored =
     (if CompressionAlgorithm f \<noteq> [] then LogicalSize f
      else if Encrypted f then PlaintextSize f else stored)"

subsection \<open>Identities\<close>

record ObjectIdentity =
  ETag :: string
  ContentType :: string
  UserMetadata :: "(string \<times> string) list option"

definition Complete :: "ObjectIdentity option \<Rightarrow> bool" where
  "Complete i = (case i of None \<Rightarrow> False | Some i \<Rightarrow> ETag i \<noteq> [])"

definition IdentityColumns ::
  "ObjectIdentity option \<Rightarrow> string \<times> string \<times> (string \<times> string) list option" where
  "IdentityColumns i =
    (case i of None \<Rightarrow> ([], [], None) | Some i \<Rightarrow> (ETag i, ContentType i, UserMetadata i))"

definition IdentityFromColumns ::
  "string \<times> string \<times> (string \<times> string) list option \<Rightarrow> ObjectIdentity option" where
  "IdentityFromColumns c =
    (case c of (etag, contentType, meta) \<Rightarrow>
      if etag = [] \<and> contentType = [] \<and> meta = None then None
      else Some \<lparr>ETag = etag, ContentType = contentType, UserMetadata = meta\<rparr>)"

definition ListedIdentity :: "string \<Rightarrow> ObjectIdentity option" where
  "ListedIdentity etag =
    (if etag = [] then None
     else Some \<lparr>ETag = etag, ContentType = [], UserMetadata = None\<rparr>)"

definition NewObjectIdentity ::
  "string \<Rightarrow> string \<Rightarrow> (string \<times> string) list option \<Rightarrow> ObjectIdentity" where
  "NewObjectIdentity etag contentType meta =
    \<lparr>ETag = etag, ContentType = contentType,
     UserMetadata = Some (case meta of None \<Rightarrow> [] | Some m \<Rightarrow> m)\<rparr>"

subsection \<open>Copies\<close>

record ObjectLocation =
  locForm :: StoredForm
  locObjectKey :: string
  locBackendName :: string
  locStorageKey :: string
  locSizeBytes :: int
  locCreatedAt :: time
  locProbeSize :: int
  locProbeLevel :: string
  locLastScrubbedAt :: "time option"
  locUnmanaged :: bool
  locIdentity :: "ObjectIdentity option"
  locTagCount :: int

definition ObjectSize :: "ObjectLocation \<Rightarrow> int" where
  "ObjectSize l = ClientSize (locForm l) (locSizeBytes l)"

definition CopyAt :: "ObjectLocation \<Rightarrow> string \<Rightarrow> string \<Rightarrow> ObjectLocation" where
  "CopyAt l backend storageKey = l\<lparr>locBackendName := backend, locStorageKey := storageKey\<rparr>"

record ExistingCopy =
  ecObjectKey :: string
  ecBackendName :: string
  ecStorageKey :: string
  ecSizeBytes :: int
  ecCreatedAt :: time
  ecForm :: "64 word"

record removedCopy =
  rcBackendName :: string
  rcStorageKey :: string
  rcSizeBytes :: int
  rcReason :: string

record CleanupRequest =
  crBackendName :: string
  crObjectKey :: string
  crStorageKey :: string
  crReason :: string
  crSizeBytes :: int

record CleanupClaim =
  clAt :: time
  clBy :: string

record CleanupItem =
  ciRequest :: CleanupRequest
  ciID :: nat
  ciAttempts :: int
  ciClaim :: "CleanupClaim option"
  ciReclaimed :: bool

definition MaxCleanupAttempts :: int where "MaxCleanupAttempts = 10"

definition StoragePath :: "string \<Rightarrow> string \<Rightarrow> string" where
  "StoragePath objectKey storageKey = (if storageKey = [] then objectKey else storageKey)"

definition removedCopy_request :: "removedCopy \<Rightarrow> string \<Rightarrow> string \<Rightarrow> CleanupRequest" where
  "removedCopy_request d objectKey defaultReason =
    \<lparr>crBackendName = rcBackendName d, crObjectKey = objectKey,
     crStorageKey = StoragePath objectKey (rcStorageKey d),
     crReason = (if rcReason d \<noteq> [] then rcReason d else defaultReason),
     crSizeBytes = rcSizeBytes d\<rparr>"

definition CleanupReasonOverwritten :: string where
  "CleanupReasonOverwritten = ''overwrite_displaced''"
definition CleanupReasonDeleted :: string where
  "CleanupReasonDeleted = ''object_deleted''"
definition CleanupReasonPartReplaced :: string where
  "CleanupReasonPartReplaced = ''part_replaced''"
definition CleanupReasonSupersededIntent :: string where
  "CleanupReasonSupersededIntent = ''superseded_intent''"
definition CleanupReasonCompanionDiscarded :: string where
  "CleanupReasonCompanionDiscarded = ''companion_discarded''"
definition CleanupReasonCompanionUntrusted :: string where
  "CleanupReasonCompanionUntrusted = ''companion_untrusted''"

definition ObjectFromStoredForm ::
  "string \<Rightarrow> string \<Rightarrow> string \<Rightarrow> int \<Rightarrow> StoredForm option \<Rightarrow> ObjectIdentity option \<Rightarrow>
   ObjectLocation" where
  "ObjectFromStoredForm key backend storageKey sz form i =
    \<lparr>locForm = (case form of None \<Rightarrow> zeroForm | Some f \<Rightarrow> f),
     locObjectKey = key, locBackendName = backend, locStorageKey = StoragePath key storageKey,
     locSizeBytes = sz, locCreatedAt = 0, locProbeSize = 0, locProbeLevel = [],
     locLastScrubbedAt = None, locUnmanaged = False, locIdentity = i, locTagCount = 0\<rparr>"

definition removedFromExisting :: "ExistingCopy list \<Rightarrow> removedCopy list" where
  "removedFromExisting existing =
    map (\<lambda>ec. \<lparr>rcBackendName = ecBackendName ec, rcStorageKey = ecStorageKey ec,
               rcSizeBytes = ecSizeBytes ec, rcReason = []\<rparr>) existing"

definition KeysOf :: "ObjectLocation list \<Rightarrow> string list" where
  "KeysOf locs = map locObjectKey locs"

definition LocationOn :: "ObjectLocation list \<Rightarrow> string \<Rightarrow> ObjectLocation option" where
  "LocationOn locs backendName = find (\<lambda>l. locBackendName l = backendName) locs"

definition copyOnBackend :: "ExistingCopy list \<Rightarrow> string \<Rightarrow> ExistingCopy option" where
  "copyOnBackend existing backendName = find (\<lambda>ec. ecBackendName ec = backendName) existing"

definition isLastDecryptableCopy :: "ExistingCopy list \<Rightarrow> string \<Rightarrow> bool" where
  "isLastDecryptableCopy existing backendName =
    (let decryptable = length (filter (\<lambda>ec. Has (ecForm ec) StoredReadable) existing);
         target = length (filter (\<lambda>ec. Has (ecForm ec) StoredReadable \<and>
                                        ecBackendName ec = backendName) existing)
     in decryptable = 1 \<and> target = 1 \<and> decryptable < length existing)"

definition intentSuperseded :: "ExistingCopy list \<Rightarrow> time \<Rightarrow> bool" where
  "intentSuperseded existing intentCreatedAt =
    list_ex (\<lambda>ec. ecCreatedAt ec \<noteq> 0 \<and> ecCreatedAt ec > intentCreatedAt) existing"

definition ClientLocations :: "error + ObjectLocation list \<Rightarrow> error + ObjectLocation list" where
  "ClientLocations r = (case r of Inl e \<Rightarrow> Inl e | Inr locs \<Rightarrow>
    (let visible = filter (\<lambda>l. \<not> locUnmanaged l) locs
     in if visible = [] then Inl ErrObjectNotFound else Inr visible))"

definition HeaderSize :: int where "HeaderSize = 32"

definition ValidateEncryptionMetadata :: "ObjectLocation option \<Rightarrow> error option" where
  "ValidateEncryptionMetadata loc = (case loc of None \<Rightarrow> None | Some loc \<Rightarrow>
    (let form = StoredForm_Form (locForm loc) in
     if \<not> Has form StoredEncrypted then
       (if Has form StoredKeyed
        then Some (Wrapped ''row is not encrypted but still carries a key'' ErrEncryptionFlagMismatch)
        else None)
     else if Unreadable form
       then Some (Wrapped ''row is encrypted but carries no key'' ErrEncryptionFlagMismatch)
     else if PlaintextSize (locForm loc) < 0
       then Some (Wrapped ''row is encrypted but carries a negative plaintext size''
                    ErrEncryptionFlagMismatch)
     else if PlaintextSize (locForm loc) = 0 \<and> locSizeBytes loc > HeaderSize
       then Some (Wrapped ''row is encrypted but carries no plaintext size''
                    ErrEncryptionFlagMismatch)
     else None))"

subsection \<open>Pending intents and tags\<close>

record Tag =
  tagKey :: string
  tagValue :: string

datatype PendingRole = PendingRoleUnset | PendingRolePrimary | PendingRoleCompanion

record SupersededIntent =
  siIntentID :: string
  siObjectKey :: string
  siBackendName :: string
  siStorageKey :: string
  siSizeBytes :: int

record PendingObject =
  poForm :: StoredForm
  poIntentID :: string
  poObjectKey :: string
  poStorageKey :: string
  poBackendName :: string
  poSizeBytes :: int
  poIdentity :: "ObjectIdentity option"
  poTags :: "Tag list"
  poCreatedAt :: time
  poRole :: PendingRole

definition IsCompanion :: "PendingObject \<Rightarrow> bool" where
  "IsCompanion p \<longleftrightarrow> poRole p = PendingRoleCompanion"

definition RoleOrDefault :: "PendingObject \<Rightarrow> PendingRole" where
  "RoleOrDefault p = (if poRole p = PendingRoleUnset then PendingRolePrimary else poRole p)"

fun role_name :: "PendingRole \<Rightarrow> string" where
  "role_name PendingRoleUnset = []"
| "role_name PendingRolePrimary = ''primary''"
| "role_name PendingRoleCompanion = ''companion''"

definition intentBytes :: "PendingObject \<Rightarrow> removedCopy" where
  "intentBytes p = \<lparr>rcBackendName = poBackendName p, rcStorageKey = poStorageKey p,
     rcSizeBytes = poSizeBytes p, rcReason = []\<rparr>"

record ObjectCopy =
  cpBackend :: string
  cpIntentID :: string
  cpStorageKey :: string

record RecordObjectRequest =
  rqKey :: string
  rqSize :: int
  rqForm :: "StoredForm option"
  rqIdentity :: "ObjectIdentity option"
  rqTags :: "Tag list"
  rqCopies :: "ObjectCopy list"
  rqPlacing :: "ObjectCopy list"

definition intentIDs :: "ObjectCopy list \<Rightarrow> string list" where
  "intentIDs copies = map cpIntentID copies"

definition PendingObject_Copy :: "PendingObject \<Rightarrow> ObjectCopy" where
  "PendingObject_Copy p =
    \<lparr>cpBackend = poBackendName p, cpIntentID = poIntentID p, cpStorageKey = poStorageKey p\<rparr>"

definition RecordFor :: "PendingObject \<Rightarrow> StoredForm option \<Rightarrow> RecordObjectRequest" where
  "RecordFor p form =
    \<lparr>rqKey = poObjectKey p, rqSize = poSizeBytes p, rqForm = form, rqIdentity = poIdentity p,
     rqTags = poTags p, rqCopies = [PendingObject_Copy p], rqPlacing = []\<rparr>"

datatype PendingPromoteResult =
    PendingPromoteCommitted
  | PendingPromoteAmbiguous
  | PendingPromoteAlreadyResolved
  | PendingPromoteSuperseded
  | PendingPromoteCompanionKept
  | PendingPromoteCompanionDiscarded

datatype CompanionCommitResult = CompanionCopyCommitted | CompanionCopyUntrusted

definition MaxTagsPerObject :: nat where "MaxTagsPerObject = 10"
definition MaxTagKeyLength :: nat where "MaxTagKeyLength = 128"
definition MaxTagValueLength :: nat where "MaxTagValueLength = 256"

definition SortedTags :: "Tag list \<Rightarrow> Tag list" where
  "SortedTags tags = sort_key tagKey tags"

fun ValidateTags_from :: "string list \<Rightarrow> Tag list \<Rightarrow> error option" where
  "ValidateTags_from seen [] = None"
| "ValidateTags_from seen (t # ts) =
    (if tagKey t = [] then Some ErrEmptyTagKey
     else if utf16Length (tagKey t) > MaxTagKeyLength
       then Some (Wrapped ''key is over the limit'' ErrTagKeyTooLong)
     else if utf16Length (tagValue t) > MaxTagValueLength
       then Some (Wrapped ''value is over the limit'' ErrTagValueTooLong)
     else if tagKey t \<in> set seen then Some (Wrapped (tagKey t) ErrDuplicateTagKey)
     else ValidateTags_from (tagKey t # seen) ts)"

definition ValidateTags :: "Tag list \<Rightarrow> error option" where
  "ValidateTags tags =
    (if length tags > MaxTagsPerObject
     then Some (Wrapped ''over the tag limit'' ErrTooManyTags)
     else ValidateTags_from [] tags)"

definition IsTagValidationError :: "error \<Rightarrow> bool" where
  "IsTagValidationError e \<longleftrightarrow>
     errors_Is e ErrTooManyTags \<or> errors_Is e ErrEmptyTagKey \<or> errors_Is e ErrTagKeyTooLong \<or>
     errors_Is e ErrTagValueTooLong \<or> errors_Is e ErrDuplicateTagKey \<or>
     errors_Is e ErrMalformedTagSet"

subsection \<open>Placements and imports\<close>

record MoveReasons =
  mrOrphan :: string
  mrSourceDelete :: string

record Placement =
  plSource :: ObjectLocation
  plIntent :: PendingObject
  plRemoveSource :: bool
  plReformed :: bool
  plReasons :: MoveReasons

record ImportObjectRequest =
  irKey :: string
  irBackend :: string
  irSize :: int
  irUnmanaged :: bool
  irForm :: "StoredForm option"
  irWrittenAt :: time

datatype PathState = PathUntracked | PathRecorded | PathInFlight | PathPendingCleanup

datatype ImportOutcome = ImportSkippedExisting | ImportInserted | ImportSkippedPendingCleanup

subsection \<open>Multipart uploads\<close>

record MultipartPart =
  mpForm :: StoredForm
  mpPartNumber :: int
  mpETag :: string
  mpPlaintextETag :: string
  mpSizeBytes :: int
  mpStorageKey :: string
  mpCreatedAt :: time

record RecordPartParams =
  rpUploadID :: string
  rpPartNumber :: int
  rpETag :: string
  rpPlaintextETag :: string
  rpSizeBytes :: int
  rpForm :: "StoredForm option"
  rpIntent :: PendingObject
  rpCompletionStaleBefore :: time

fun nat_digits :: "nat \<Rightarrow> string" where
  "nat_digits n = (if n < 10 then [char_of (48 + n)]
                   else nat_digits (n div 10) @ [char_of (48 + n mod 10)])"

declare nat_digits.simps [simp del]

definition strconv_Itoa :: "int \<Rightarrow> string" where
  "strconv_Itoa i = (if i < 0 then CHR ''-'' # nat_digits (nat (- i)) else nat_digits (nat i))"

definition PartPath :: "string \<Rightarrow> int \<Rightarrow> string" where
  "PartPath uploadID partNumber = ''__multipart/'' @ uploadID @ ''/'' @ strconv_Itoa partNumber"

definition MultipartPart_Path :: "MultipartPart \<Rightarrow> string \<Rightarrow> string" where
  "MultipartPart_Path p uploadID =
     StoragePath (PartPath uploadID (mpPartNumber p)) (mpStorageKey p)"

definition MinPartNumber :: int where "MinPartNumber = 1"
definition MaxPartNumber :: int where "MaxPartNumber = 10000"

definition ValidPartNumber :: "int \<Rightarrow> bool" where
  "ValidPartNumber n \<longleftrightarrow> n \<ge> MinPartNumber \<and> n \<le> MaxPartNumber"

subsection \<open>Quota stripes\<close>

record StripeCharge =
  scBackend :: string
  scStripe :: nat
  scDelta :: int

definition QuotaStripeCount :: nat where "QuotaStripeCount = 16"

text \<open>\<open>hash/fnv\<close>'s 32-bit FNV-1a.\<close>

definition fnv32a :: "string \<Rightarrow> 32 word" where
  "fnv32a s = fold (\<lambda>c h. xor h (of_char c) * 16777619) s 2166136261"

definition StripeFor :: "string \<Rightarrow> nat" where
  "StripeFor key = unat (fnv32a key) mod QuotaStripeCount"

text \<open>The same stripe over integers, which evaluates.\<close>

lemma fnv_step: "uint (xor h (of_char c) * 16777619 :: 32 word) = take_bit 32 (xor (uint h) (of_char c) * 16777619)"
proof -
  have "(of_char c :: 32 word) = word_of_int (of_char c)"
    by (simp add: of_char_def of_int_of_bool)
  then have "uint (of_char c :: 32 word) = take_bit 32 (of_char c :: int)"
    by (simp add: uint_word_of_int_eq)
  also have "\<dots> = of_char c"
    by (rule take_bit_int_eq_self) (auto simp: of_char_def of_bool_def)
  finally have "uint (xor h (of_char c) :: 32 word) = xor (uint h) (of_char c)" by (simp add: uint_xor)
  moreover have "uint (16777619 :: 32 word) = 16777619" by simp
  moreover have "uint (a * b) = take_bit 32 (uint a * uint b)" for a b :: "32 word"
    by (simp add: uint_word_ariths(3) take_bit_eq_mod)
  ultimately show ?thesis by metis
qed

lemma fnv_fold: "uint (fold (\<lambda>c h. xor h (of_char c) * 16777619) s (i :: 32 word)) =
   fold (\<lambda>c h. take_bit 32 (xor h (of_char c) * 16777619)) s (uint i)"
  by (induction s arbitrary: i) (simp_all add: fnv_step)

lemma StripeFor_int [code]: "StripeFor k =
   nat (fold (\<lambda>c h. take_bit 32 (xor h (of_char c) * 16777619)) k 2166136261 mod 16)"
proof -
  have "nat (uint (fnv32a k) mod 16) = nat (uint (fnv32a k)) mod nat 16"
    by (rule nat_mod_distrib) simp_all
  then have "StripeFor k = nat (uint (fnv32a k) mod 16)"
    by (simp add: StripeFor_def QuotaStripeCount_def)
  then show ?thesis by (simp add: fnv32a_def fnv_fold)
qed

text \<open>\<open>quotaDeltas\<close> and \<open>stripeDeltas\<close> are maps written only by \<open>m[k] += v\<close>.\<close>

definition quotaDeltas_add :: "(string \<times> int) list \<Rightarrow> string \<Rightarrow> int \<Rightarrow> (string \<times> int) list" where
  "quotaDeltas_add q backendName delta =
     AList.update backendName (alookup 0 q backendName + delta) q"

definition stripeDeltas_add ::
  "((string \<times> nat) \<times> int) list \<Rightarrow> string \<Rightarrow> string \<Rightarrow> int \<Rightarrow> ((string \<times> nat) \<times> int) list" where
  "stripeDeltas_add d key backend delta =
     AList.update (backend, StripeFor key) (alookup 0 d (backend, StripeFor key) + delta) d"

record QuotaStat =
  qsBackendName :: string
  qsBytesUsed :: int
  qsBytesLimit :: int
  qsOrphanBytes :: int
  qsInflightBytes :: int

definition Unlimited :: "QuotaStat \<Rightarrow> bool" where
  "Unlimited q \<longleftrightarrow> qsBytesLimit q \<le> 0"

definition Unrecorded :: "QuotaStat \<Rightarrow> int" where
  "Unrecorded q = qsOrphanBytes q + qsInflightBytes q"

definition Occupied :: "QuotaStat \<Rightarrow> int" where
  "Occupied q = qsBytesUsed q + Unrecorded q"

end
