(* ===== verification/TagCodec.thy ===== *)
theory TagCodec
  imports StoreTypes
begin

text \<open>
  The text form of a tag set (\<open>EncodeTags\<close> and \<open>DecodeTags\<close> of
  \<open>store/core/tags.go\<close>), in which intents and multipart uploads keep the tags a write
  carried. \<open>net/url\<close>'s query escaping is modelled byte for byte.
\<close>

definition is_unreserved :: "char \<Rightarrow> bool" where
  "is_unreserved c \<longleftrightarrow>
     (let n = byte c in 97 \<le> n \<and> n \<le> 122 \<or> 65 \<le> n \<and> n \<le> 90 \<or> 48 \<le> n \<and> n \<le> 57)
     \<or> c \<in> set ''-_.~''"

definition hex_digit :: "nat \<Rightarrow> char" where
  "hex_digit n = (if n < 10 then unbyte (48 + n) else unbyte (55 + n))"

definition unhex :: "char \<Rightarrow> nat option" where
  "unhex c = (let n = byte c in
     if 48 \<le> n \<and> n \<le> 57 then Some (n - 48)
     else if 97 \<le> n \<and> n \<le> 102 then Some (n - 87)
     else if 65 \<le> n \<and> n \<le> 70 then Some (n - 55) else None)"

definition escape_byte :: "char \<Rightarrow> string" where
  "escape_byte c =
    (if is_unreserved c then [c]
     else if c = CHR '' '' then ''+''
     else [CHR ''%'', hex_digit (byte c div 16), hex_digit (byte c mod 16)])"

definition QueryEscape :: "string \<Rightarrow> string" where
  "QueryEscape s = concat (map escape_byte s)"

fun QueryUnescape :: "string \<Rightarrow> string option" where
  "QueryUnescape [] = Some []"
| "QueryUnescape (c # s) =
    (if c = CHR ''%'' then
       (case s of
          h # l # s' \<Rightarrow>
            (case (unhex h, unhex l) of
               (Some a, Some b) \<Rightarrow> map_option ((#) (unbyte (16 * a + b))) (QueryUnescape s')
             | _ \<Rightarrow> None)
        | _ \<Rightarrow> None)
     else map_option ((#) (if c = CHR ''+'' then CHR '' '' else c)) (QueryUnescape s))"

definition cut_before :: "char \<Rightarrow> string \<Rightarrow> string" where
  "cut_before c s = takeWhile (\<lambda>x. x \<noteq> c) s"

definition cut_after :: "char \<Rightarrow> string \<Rightarrow> string" where
  "cut_after c s = tl (dropWhile (\<lambda>x. x \<noteq> c) s)"

lemma cut_after_less [termination_simp]: "q \<noteq> [] \<Longrightarrow> length (cut_after c q) < length q"
  using length_dropWhile_le [of "\<lambda>x. x \<noteq> c" q]
  by (cases q) (auto simp: cut_after_def less_Suc_eq_le intro: le_trans [OF diff_le_self])

text \<open>
  \<open>url.ParseQuery\<close>: the values of every key in order of appearance, and an
  error if some pair does not decode; parsing goes on past it.
\<close>

fun ParseQuery_from ::
  "(string \<times> string list) list \<Rightarrow> string option \<Rightarrow> string \<Rightarrow>
   (string \<times> string list) list \<times> string option" where
  "ParseQuery_from m err q =
    (if q = [] then (m, err)
     else
       let part = cut_before CHR ''&'' q; rest = cut_after CHR ''&'' q in
       if CHR '';'' \<in> set part
       then ParseQuery_from m (Some ''invalid semicolon separator in query'') rest
       else if part = [] then ParseQuery_from m err rest
       else
         (case (QueryUnescape (cut_before CHR ''='' part), QueryUnescape (cut_after CHR ''='' part)) of
            (Some key, Some val) \<Rightarrow>
              ParseQuery_from (AList.update key (alookup [] m key @ [val]) m) err rest
          | _ \<Rightarrow> ParseQuery_from m
                   (Some (case err of None \<Rightarrow> ''invalid URL escape'' | Some e \<Rightarrow> e)) rest))"

declare ParseQuery_from.simps [simp del]

definition ParseQuery :: "string \<Rightarrow> (string \<times> string list) list \<times> string option" where
  "ParseQuery q = ParseQuery_from [] None q"

definition EncodeTags :: "Tag list \<Rightarrow> string" where
  "EncodeTags tags =
    (if tags = [] then []
     else
       let values = foldl (\<lambda>m t. AList.update (tagKey t) (tagValue t) m) [] tags in
       strings_Join (map (\<lambda>(k, v). QueryEscape k @ ''='' @ QueryEscape v) (sort_key fst values)) ''&'')"

definition DecodeTags :: "string \<Rightarrow> error + Tag list" where
  "DecodeTags encoded =
    (if encoded = [] then Inr []
     else
       case ParseQuery encoded of
         (values, Some err) \<Rightarrow> Inl (Wrapped err ErrMalformedTagSet)
       | (values, None) \<Rightarrow>
           (case find (\<lambda>(k, vals). length vals > 1) values of
              Some (k, vals) \<Rightarrow> Inl (Wrapped k ErrDuplicateTagKey)
            | None \<Rightarrow> Inr (SortedTags (map (\<lambda>(k, vals). \<lparr>tagKey = k, tagValue = hd vals\<rparr>) values))))"

subsection \<open>Escaping round trip\<close>

lemma unhex_hex_digit [simp]: "n < 16 \<Longrightarrow> unhex (hex_digit n) = Some n"
  by (simp add: unhex_def hex_digit_def byte_def unbyte_def Let_def)

lemma byte_less: "byte c < 256"
  by (simp add: byte_def)

lemma unbyte_byte [simp]: "unbyte (byte c) = c"
  by (simp add: unbyte_def byte_def)

lemma reserved_not_unreserved:
  "\<not> is_unreserved CHR ''%''" "\<not> is_unreserved CHR ''+''" "\<not> is_unreserved CHR ''&''"
  "\<not> is_unreserved CHR ''=''" "\<not> is_unreserved CHR '';''"
  by (simp_all add: is_unreserved_def byte_def)

lemma hex_digit_unreserved: "n < 16 \<Longrightarrow> is_unreserved (hex_digit n)"
  by (simp add: is_unreserved_def hex_digit_def byte_def unbyte_def Let_def)

lemma QueryUnescape_escape_byte:
  "QueryUnescape (escape_byte c @ s) = map_option ((#) c) (QueryUnescape s)"
proof -
  have "byte c div 16 < 16"
    using byte_less [of c] by simp
  then show ?thesis
    using reserved_not_unreserved by (auto simp: escape_byte_def)
qed

lemma QueryUnescape_QueryEscape [simp]: "QueryUnescape (QueryEscape s) = Some s"
  by (induction s) (simp_all add: QueryEscape_def QueryUnescape_escape_byte)

lemma escape_byte_chars: "x \<in> set (escape_byte c) \<Longrightarrow> is_unreserved x \<or> x = CHR ''+'' \<or> x = CHR ''%''"
  using byte_less [of c] by (auto simp: escape_byte_def hex_digit_unreserved split: if_splits)

lemma QueryEscape_free:
  "CHR ''&'' \<notin> set (QueryEscape s)" "CHR ''='' \<notin> set (QueryEscape s)" "CHR '';'' \<notin> set (QueryEscape s)"
  using escape_byte_chars reserved_not_unreserved by (fastforce simp: QueryEscape_def)+

lemma cut_at:
  "c \<notin> set p \<Longrightarrow> cut_before c (p @ c # r) = p" "c \<notin> set p \<Longrightarrow> cut_after c (p @ c # r) = r"
  "c \<notin> set p \<Longrightarrow> cut_before c p = p" "c \<notin> set p \<Longrightarrow> cut_after c p = []"
  by (induction p) (auto simp: cut_before_def cut_after_def)

definition tag_pair :: "string \<times> string \<Rightarrow> string" where
  "tag_pair = (\<lambda>(k, v). QueryEscape k @ ''='' @ QueryEscape v)"

lemma tag_pair_props:
  "tag_pair kv \<noteq> []" "CHR ''&'' \<notin> set (tag_pair kv)" "CHR '';'' \<notin> set (tag_pair kv)"
  "cut_before CHR ''='' (tag_pair kv) = QueryEscape (fst kv)"
  "cut_after CHR ''='' (tag_pair kv) = QueryEscape (snd kv)"
  by (cases kv; simp add: tag_pair_def QueryEscape_free cut_at)+

lemma ParseQuery_pairs:
  assumes "distinct (map fst (m @ map (\<lambda>kv. (fst kv, [snd kv])) kvs))"
  shows "ParseQuery_from m None (strings_Join (map tag_pair kvs) ''&'') =
    (m @ map (\<lambda>kv. (fst kv, [snd kv])) kvs, None)"
  using assms
proof (induction kvs arbitrary: m rule: induct_list012)
  case 1
  then show ?case by (simp add: ParseQuery_from.simps)
next
  case (2 kv)
  then show ?case
    by (simp add: ParseQuery_from.simps [of m] ParseQuery_from.simps [of _ _ "[]"] tag_pair_props
        cut_at update_new alookup_not_in Let_def image_Un)
next
  case (3 kv kv' kvs)
  let ?m = "m @ [(fst kv, [snd kv])]"
  have "ParseQuery_from ?m None (strings_Join (map tag_pair (kv' # kvs)) ''&'') =
      (?m @ map (\<lambda>kv. (fst kv, [snd kv])) (kv' # kvs), None)"
    using "3.prems" by (intro "3.IH"(2)) auto
  with "3.prems" show ?case
    by (simp add: ParseQuery_from.simps [of m] tag_pair_props cut_at update_new alookup_not_in
        Let_def)
qed

lemma tag_eta [simp]: "\<lparr>tagKey = tagKey t, tagValue = tagValue t\<rparr> = (t :: Tag)"
  by (cases t) simp

definition tag_entry :: "Tag \<Rightarrow> string \<times> string" where
  "tag_entry t = (tagKey t, tagValue t)"

lemma encode_values:
  assumes "distinct (map tagKey tags)"
  shows "foldl (\<lambda>m t. AList.update (tagKey t) (tagValue t) m) [] tags = map tag_entry tags"
proof -
  have "distinct (map fst m @ map tagKey tags) \<Longrightarrow>
    foldl (\<lambda>m t. AList.update (tagKey t) (tagValue t) m) m tags = m @ map tag_entry tags" for m
    by (induction tags arbitrary: m) (simp_all add: update_new tag_entry_def)
  from this [of "[]"] assms show ?thesis by simp
qed

lemma DecodeTags_EncodeTags:
  assumes "distinct (map tagKey tags)"
  shows "DecodeTags (EncodeTags tags) = Inr (SortedTags tags)"
proof (cases "tags = []")
  case True
  then show ?thesis by (simp add: DecodeTags_def EncodeTags_def SortedTags_def)
next
  case False
  define kvs where "kvs = sort_key fst (map tag_entry tags)"
  have ms: "mset kvs = mset (map tag_entry tags)"
    by (simp add: kvs_def)
  have "map fst (map tag_entry tags) = map tagKey tags"
    by (simp add: tag_entry_def)
  then have dist: "distinct (map fst kvs)"
    using assms ms by (metis mset_eq_imp_distinct_iff mset_map)
  have enc: "EncodeTags tags = strings_Join (map tag_pair kvs) ''&''"
    using False assms by (simp add: EncodeTags_def encode_values kvs_def tag_pair_def)
  have "kvs \<noteq> []"
    using False ms by auto
  then have ne: "strings_Join (map tag_pair kvs) ''&'' \<noteq> []"
    by (cases kvs rule: remdups_adj.cases) (auto simp: tag_pair_props)
  have "ParseQuery (EncodeTags tags) = (map (\<lambda>kv. (fst kv, [snd kv])) kvs, None)"
    using ParseQuery_pairs [of "[]" kvs] dist by (simp add: ParseQuery_def enc comp_def)
  moreover have "find (\<lambda>(k, vals). length vals > 1) (map (\<lambda>kv. (fst kv, [snd kv])) kvs) = None"
    by (auto simp: find_None_iff)
  ultimately have "DecodeTags (EncodeTags tags) =
      Inr (SortedTags (map (\<lambda>kv. \<lparr>tagKey = fst kv, tagValue = snd kv\<rparr>) kvs))"
    using ne by (simp add: DecodeTags_def enc comp_def)
  moreover have "SortedTags (map (\<lambda>kv. \<lparr>tagKey = fst kv, tagValue = snd kv\<rparr>) kvs) = SortedTags tags"
    unfolding SortedTags_def
  proof (rule sort_key_inj_key_eq)
    have "image_mset (\<lambda>kv. \<lparr>tagKey = fst kv, tagValue = snd kv\<rparr>) (mset kvs) = mset tags"
      unfolding ms by (simp add: multiset.map_comp comp_def tag_entry_def)
    then show "mset (map (\<lambda>kv. \<lparr>tagKey = fst kv, tagValue = snd kv\<rparr>) kvs) = mset (sort_key tagKey tags)"
      by simp
    show "inj_on tagKey (set (map (\<lambda>kv. \<lparr>tagKey = fst kv, tagValue = snd kv\<rparr>) kvs))"
      using dist by (auto simp: inj_on_def distinct_map)
  qed simp
  ultimately show ?thesis by simp
qed

text \<open>
  C39. Decoding the text form of a tag set whose keys are distinct gives the set back, sorted by
  key: no byte of a key or value is lost or read as a separator.
\<close>

theorem tags_roundtrip:
  assumes "distinct (map tagKey tags)"
  shows "DecodeTags (EncodeTags tags) = Inr (SortedTags tags)"
  using assms by (rule DecodeTags_EncodeTags)

theorem tags_roundtrip_witness:
  "DecodeTags (EncodeTags [\<lparr>tagKey = ''b;'', tagValue = ''1 &''\<rparr>, \<lparr>tagKey = ''a'', tagValue = ''=%''\<rparr>])
     = Inr (SortedTags [\<lparr>tagKey = ''b;'', tagValue = ''1 &''\<rparr>, \<lparr>tagKey = ''a'', tagValue = ''=%''\<rparr>])"
  by (rule tags_roundtrip) simp

end
