(* ===== verification/Adapter.thy ===== *)
theory Adapter
  imports TagCodec
begin

text \<open>
  The seam between the store's operations and a database engine: the transactional interface
  \<open>TxAdapter\<close> (\<open>store/core/adapter.go\<close>) as a record of operations on an engine state
  \<open>'s\<close>, the transaction runner (\<open>store/core/runner.go\<close>, \<open>store/sqlite/cb.go\<close>), the
  abstract \<open>ledger\<close> every engine presents, and the contract an engine keeps with it, as the
  locales \<open>tx_engine\<close> (what a statement that succeeded did) and \<open>live_engine\<close> (when a
  statement succeeds).
\<close>

subsection \<open>The transactional interface\<close>

record CompressionProbe =
  cpbSize :: int
  cpbLevel :: string

record CopyPatch =
  ptEncryptionKey :: string
  ptKeyID :: string
  ptContentHash :: string
  ptScrubbed :: bool
  ptProbe :: "CompressionProbe option"

record 's TxAdapter =
  txAcquireKeyLock :: "string list \<Rightarrow> ('s, unit) tx"
  txAcquireBackendLock :: "string list \<Rightarrow> ('s, unit) tx"
  txInsertPendingIfFits :: "PendingObject \<Rightarrow> 64 word \<Rightarrow> ('s, bool) tx"
  txClaimPending :: "string \<Rightarrow> ('s, bool) tx"
  txDeletePending :: "string \<Rightarrow> ('s, unit) tx"
  txClearPendingForKey :: "string list \<Rightarrow> string list \<Rightarrow> ('s, SupersededIntent list) tx"
  txGetExistingCopiesForUpdate :: "string list \<Rightarrow> ('s, ExistingCopy list) tx"
  txInsertObjectLocation :: "ObjectLocation \<Rightarrow> ('s, unit) tx"
  txDeleteObjectCopies :: "string list \<Rightarrow> ('s, unit) tx"
  txListedPathStates :: "string \<Rightarrow> string list \<Rightarrow> ('s, (string \<times> PathState) list) tx"
  txLockObjectOnBackend :: "string \<Rightarrow> string \<Rightarrow> ('s, ObjectLocation option) tx"
  txDeleteObjectFromBackend :: "string \<Rightarrow> string \<Rightarrow> ('s, unit) tx"
  txUpdateCopyMetadata :: "ObjectLocation \<Rightarrow> CopyPatch \<Rightarrow> ('s, unit) tx"
  txInsertObjectLocationIfNotExists :: "ObjectLocation \<Rightarrow> ('s, bool) tx"
  txInsertCleanup :: "CleanupRequest list \<Rightarrow> ('s, CleanupItem list) tx"
  txInsertObjectTag :: "string \<Rightarrow> string \<Rightarrow> string \<Rightarrow> ('s, unit) tx"
  txDeleteObjectTags :: "string list \<Rightarrow> ('s, unit) tx"
  txAdjustQuotaStripes :: "StripeCharge list \<Rightarrow> ('s, unit) tx"
  txLockMultipartUpload :: "string \<Rightarrow> ('s, string \<times> time) tx"
  txUpsertPart :: "RecordPartParams \<Rightarrow> ('s, MultipartPart option) tx"
  txDeleteMultipartUpload :: "string \<Rightarrow> ('s, MultipartPart list) tx"

text \<open>
  The operations run through a runner. Opening the transaction, committing it and waiting for
  a claim slot can fail; \<^const>\<open>None\<close> is success. A transaction whose body or commit fails
  leaves the state as it was.
\<close>

record 's TxOps =
  opsAdapter :: "'s TxAdapter"
  opsBegin :: "error option"
  opsCommit :: "error option"
  opsClaimSlot :: "error option"

definition WithTxVal ::
  "'s TxOps \<Rightarrow> ('s TxAdapter \<Rightarrow> ('s, 'a) tx) \<Rightarrow> 's \<Rightarrow> (error + 'a) \<times> 's" where
  "WithTxVal runner fn s =
    (case opsBegin runner of
       Some err \<Rightarrow> (Inl err, s)
     | None \<Rightarrow>
         (case fn (opsAdapter runner) s of
            Inl err \<Rightarrow> (Inl err, s)
          | Inr (v, t) \<Rightarrow>
              (case opsCommit runner of Some err \<Rightarrow> (Inl err, s) | None \<Rightarrow> (Inr v, t))))"

lemma WithTxVal_Inr:
  "WithTxVal r fn s = (Inr v, t) \<longleftrightarrow>
     opsBegin r = None \<and> opsCommit r = None \<and> fn (opsAdapter r) s = Inr (v, t)"
  by (auto simp: WithTxVal_def split: option.splits sum.splits)

lemma WithTxVal_Inl: "WithTxVal r fn s = (Inl e, t) \<Longrightarrow> t = s"
  by (auto simp: WithTxVal_def split: option.splits sum.splits)

subsection \<open>The abstract ledger\<close>

text \<open>
  What a database holds, without the order of its rows: the ceilings and flags of the
  backends, the byte counter by stripe and in total, the recorded copies, the intents, the
  bytes queued or dead-lettered for deletion, the tags, and the multipart uploads (backend and
  completion heartbeat) with their parts.
\<close>

record ledger =
  lgLimit :: "string \<Rightarrow> int option"
  lgFlags :: "string \<Rightarrow> 64 word"
  lgStripe :: "string \<times> nat \<Rightarrow> int"
  lgUsed :: "string \<Rightarrow> int"
  lgCopies :: "ObjectLocation multiset"
  lgIntents :: "PendingObject multiset"
  lgQueued :: "CleanupRequest multiset"
  lgDead :: "CleanupRequest multiset"
  lgTags :: "(string \<times> Tag) multiset"
  lgUpload :: "string \<Rightarrow> (string \<times> time) option"
  lgParts :: "(string \<times> MultipartPart) multiset"

text \<open>The projections and stored rows the statements are specified by.\<close>

definition existing_of :: "ObjectLocation \<Rightarrow> ExistingCopy" where
  "existing_of l = \<lparr>ecObjectKey = locObjectKey l, ecBackendName = locBackendName l,
     ecStorageKey = locStorageKey l, ecSizeBytes = locSizeBytes l,
     ecCreatedAt = locCreatedAt l, ecForm = StoredForm_Form (locForm l)\<rparr>"

definition superseded_of :: "PendingObject \<Rightarrow> SupersededIntent" where
  "superseded_of p = \<lparr>siIntentID = poIntentID p, siObjectKey = poObjectKey p,
     siBackendName = poBackendName p, siStorageKey = poStorageKey p,
     siSizeBytes = poSizeBytes p\<rparr>"

definition stored_location :: "time \<Rightarrow> ObjectLocation \<Rightarrow> ObjectLocation" where
  "stored_location now loc = loc\<lparr>locForm := Recorded (locForm loc),
     locCreatedAt := (if locCreatedAt loc = 0 then now else locCreatedAt loc),
     locLastScrubbedAt := None,
     locIdentity := IdentityFromColumns (IdentityColumns (locIdentity loc)),
     locTagCount := 0\<rparr>"

definition stored_intent :: "time \<Rightarrow> PendingObject \<Rightarrow> PendingObject" where
  "stored_intent now p = p\<lparr>poStorageKey := StoragePath (poObjectKey p) (poStorageKey p),
     poIdentity := IdentityFromColumns (IdentityColumns (poIdentity p)),
     poTags := (case DecodeTags (EncodeTags (poTags p)) of Inl _ \<Rightarrow> [] | Inr ts \<Rightarrow> ts), poCreatedAt := now, poRole := RoleOrDefault p\<rparr>"

definition stored_part :: "time \<Rightarrow> RecordPartParams \<Rightarrow> MultipartPart" where
  "stored_part now p =
    \<lparr>mpForm = (case rpForm p of
         None \<Rightarrow> zeroForm
       | Some f \<Rightarrow> if Encrypted f
           then zeroForm\<lparr>Encrypted := True, EncryptionKey := EncryptionKey f, KeyID := KeyID f,
                          PlaintextSize := PlaintextSize f\<rparr>
           else zeroForm),
     mpPartNumber = rpPartNumber p, mpETag = rpETag p, mpPlaintextETag = rpPlaintextETag p,
     mpSizeBytes = rpSizeBytes p, mpStorageKey = poStorageKey (rpIntent p),
     mpCreatedAt = now\<rparr>"

definition part_location :: "MultipartPart \<Rightarrow> MultipartPart" where
  "part_location p = \<lparr>mpForm = zeroForm, mpPartNumber = mpPartNumber p, mpETag = [],
     mpPlaintextETag = [], mpSizeBytes = mpSizeBytes p, mpStorageKey = mpStorageKey p,
     mpCreatedAt = 0\<rparr>"

definition patched :: "time \<Rightarrow> CopyPatch \<Rightarrow> ObjectLocation \<Rightarrow> ObjectLocation" where
  "patched now p l =
    (let f = locForm l;
         f = (if ptEncryptionKey p \<noteq> [] then f\<lparr>EncryptionKey := ptEncryptionKey p\<rparr> else f);
         f = (if ptKeyID p \<noteq> [] then f\<lparr>KeyID := ptKeyID p\<rparr> else f);
         f = (if ptContentHash p \<noteq> [] then f\<lparr>ContentHash := ptContentHash p\<rparr> else f);
         l = l\<lparr>locForm := f\<rparr>;
         l = (if ptScrubbed p then l\<lparr>locLastScrubbedAt := Some now\<rparr> else l)
     in case ptProbe p of
          None \<Rightarrow> l
        | Some pr \<Rightarrow> l\<lparr>locProbeSize := cpbSize pr, locProbeLevel := cpbLevel pr\<rparr>)"

text \<open>The byte totals of the view \<open>backend_capacity\<close>.\<close>

definition orphanBytes :: "ledger \<Rightarrow> string \<Rightarrow> int" where
  "orphanBytes L b = bytes_where (\<lambda>r. crBackendName r = b) crSizeBytes (lgQueued L + lgDead L)"

definition partBytes :: "ledger \<Rightarrow> string \<Rightarrow> int" where
  "partBytes L b = bytes_where
     (\<lambda>(u, p). \<exists>h. lgUpload L u = Some (b, h)) (\<lambda>(u, p). mpSizeBytes p) (lgParts L)"

definition intentInflight :: "ledger \<Rightarrow> string \<Rightarrow> int" where
  "intentInflight L b = bytes_where (\<lambda>p. poBackendName p = b) poSizeBytes (lgIntents L)"

definition occupied :: "ledger \<Rightarrow> string \<Rightarrow> int" where
  "occupied L b = max 0 (lgUsed L b) + orphanBytes L b + partBytes L b + intentInflight L b"

definition admits :: "ledger \<Rightarrow> PendingObject \<Rightarrow> 64 word \<Rightarrow> bool" where
  "admits L p accepts \<longleftrightarrow> (case lgLimit L (poBackendName p) of
     None \<Rightarrow> False
   | Some l \<Rightarrow> and (lgFlags L (poBackendName p)) (not accepts) = 0 \<and>
       (l = 0 \<or> l - occupied L (poBackendName p) \<ge> poSizeBytes p))"

definition charge_sum :: "(StripeCharge \<Rightarrow> bool) \<Rightarrow> StripeCharge list \<Rightarrow> int" where
  "charge_sum P cs = sum_where P scDelta cs"

definition path_state :: "ledger \<Rightarrow> string \<Rightarrow> string \<Rightarrow> PathState" where
  "path_state L b k =
    (if \<exists>r \<in># lgQueued L + lgDead L. crBackendName r = b \<and> crStorageKey r = k
     then PathPendingCleanup
     else if \<exists>p \<in># lgIntents L. poBackendName p = b \<and> poStorageKey p = k then PathInFlight
     else if \<exists>l \<in># lgCopies L. locBackendName l = b \<and> locStorageKey l = k then PathRecorded
     else PathUntracked)"

subsection \<open>What an engine promises\<close>

text \<open>
  The uniqueness and reference constraints every engine's schema declares, as they read on
  the ledger.
\<close>

definition ledger_ok :: "ledger \<Rightarrow> bool" where
  "ledger_ok L \<longleftrightarrow>
     unique_by (\<lambda>l. (locObjectKey l, locBackendName l)) (lgCopies L) \<and>
     unique_by (\<lambda>l. (locBackendName l, locStorageKey l)) (lgCopies L) \<and>
     unique_by poIntentID (lgIntents L) \<and>
     unique_by (\<lambda>(k, t). (k, tagKey t)) (lgTags L) \<and>
     unique_by (\<lambda>(u, p). (u, mpPartNumber p)) (lgParts L) \<and>
     (\<forall>l \<in># lgCopies L. lgLimit L (locBackendName l) \<noteq> None) \<and>
     (\<forall>p \<in># lgIntents L. lgLimit L (poBackendName p) \<noteq> None) \<and>
     (\<forall>u p. (u, p) \<in># lgParts L \<longrightarrow> lgUpload L u \<noteq> None) \<and>
     (\<forall>u b h. lgUpload L u = Some (b, h) \<longrightarrow> lgLimit L b \<noteq> None)"

definition insertable :: "ledger \<Rightarrow> ObjectLocation \<Rightarrow> bool" where
  "insertable L loc \<longleftrightarrow>
     lgLimit L (locBackendName loc) \<noteq> None \<and>
     (\<forall>l \<in># lgCopies L. \<not> (locObjectKey l = locObjectKey loc \<and> locBackendName l = locBackendName loc)) \<and>
     (\<forall>l \<in># lgCopies L. \<not> (locBackendName l = locBackendName loc \<and> locStorageKey l = locStorageKey loc))"

definition holds_intent :: "ledger \<Rightarrow> string \<Rightarrow> bool" where
  "holds_intent L i \<longleftrightarrow> (\<exists>p \<in># lgIntents L. poIntentID p = i)"

definition with_copy :: "time \<Rightarrow> ObjectLocation \<Rightarrow> ledger \<Rightarrow> ledger" where
  "with_copy now loc L = L\<lparr>lgCopies := add_mset (stored_location now loc) (lgCopies L)\<rparr>"

definition with_charges :: "StripeCharge list \<Rightarrow> ledger \<Rightarrow> ledger" where
  "with_charges cs L = L\<lparr>
     lgStripe := (\<lambda>bi. lgStripe L bi + charge_sum (\<lambda>c. (scBackend c, scStripe c) = bi) cs),
     lgUsed := (\<lambda>b. lgUsed L b + charge_sum (\<lambda>c. scBackend c = b) cs)\<rparr>"

text \<open>
  \<open>ok\<close> is the engine's own invariant, \<open>view\<close> the ledger its state presents, \<open>now\<close>
  the clock the transaction reads and \<open>inst\<close> the instance that queues cleanups. Rows come
  back in no particular order, so results are stated as multisets.
\<close>

locale tx_engine =
  fixes a :: "'s TxAdapter" and ok :: "'s \<Rightarrow> bool" and view :: "'s \<Rightarrow> ledger"
    and now :: time and inst :: string
  assumes ok_view: "ok s \<Longrightarrow> ledger_ok (view s)"
    and key_lock: "\<lbrakk>txAcquireKeyLock a ks s = Inr (u, t); ok s\<rbrakk> \<Longrightarrow> ok t \<and> view t = view s"
    and backend_lock: "\<lbrakk>txAcquireBackendLock a bs s = Inr (u, t); ok s\<rbrakk> \<Longrightarrow> ok t \<and> view t = view s"
    and insert_pending: "\<lbrakk>txInsertPendingIfFits a p accepts s = Inr (fits, t); ok s\<rbrakk> \<Longrightarrow>
      ok t \<and> fits = admits (view s) p accepts \<and>
      (fits \<longrightarrow> \<not> holds_intent (view s) (poIntentID p)) \<and>
      view t = (if fits then (view s)\<lparr>lgIntents := add_mset (stored_intent now p) (lgIntents (view s))\<rparr>
                else view s)"
    and claim_pending: "\<lbrakk>txClaimPending a i s = Inr (claimed, t); ok s\<rbrakk> \<Longrightarrow>
      ok t \<and> claimed = holds_intent (view s) i \<and> view t = view s"
    and delete_pending: "\<lbrakk>txDeletePending a i s = Inr (u, t); ok s\<rbrakk> \<Longrightarrow>
      ok t \<and> view t = (view s)\<lparr>lgIntents := filter_mset (\<lambda>p. poIntentID p \<noteq> i) (lgIntents (view s))\<rparr>"
    and clear_pending: "\<lbrakk>txClearPendingForKey a keep ks s = Inr (cleared, t); ok s\<rbrakk> \<Longrightarrow>
      ok t \<and>
      mset cleared = image_mset superseded_of (filter_mset
        (\<lambda>p. poObjectKey p \<in> set ks \<and> poIntentID p \<notin> set keep) (lgIntents (view s))) \<and>
      view t = (view s)\<lparr>lgIntents := filter_mset
        (\<lambda>p. \<not> (poObjectKey p \<in> set ks \<and> poIntentID p \<notin> set keep)) (lgIntents (view s))\<rparr>"
    and existing_copies: "\<lbrakk>txGetExistingCopiesForUpdate a ks s = Inr (existing, t); ok s\<rbrakk> \<Longrightarrow>
      ok t \<and> view t = view s \<and>
      mset existing = image_mset existing_of (filter_mset (\<lambda>l. locObjectKey l \<in> set ks) (lgCopies (view s)))"
    and insert_location: "\<lbrakk>txInsertObjectLocation a loc s = Inr (u, t); ok s\<rbrakk> \<Longrightarrow>
      ok t \<and> insertable (view s) loc \<and> view t = with_copy now loc (view s)"
    and delete_copies: "\<lbrakk>txDeleteObjectCopies a ks s = Inr (u, t); ok s\<rbrakk> \<Longrightarrow>
      ok t \<and> view t = (view s)\<lparr>lgCopies :=
        filter_mset (\<lambda>l. locObjectKey l \<notin> set ks) (lgCopies (view s))\<rparr>"
    and listed_states: "\<lbrakk>txListedPathStates a bk ks s = Inr (states, t); ok s\<rbrakk> \<Longrightarrow>
      ok t \<and> view t = view s \<and> (\<forall>k \<in> set ks. alookup PathUntracked states k = path_state (view s) bk k)"
    and lock_object: "\<lbrakk>txLockObjectOnBackend a k bk s = Inr (found, t); ok s\<rbrakk> \<Longrightarrow>
      ok t \<and> view t = view s \<and>
      (case found of
         None \<Rightarrow> \<forall>l \<in># lgCopies (view s). \<not> (locObjectKey l = k \<and> locBackendName l = bk)
       | Some l \<Rightarrow> l \<in># lgCopies (view s) \<and> locObjectKey l = k \<and> locBackendName l = bk)"
    and delete_from_backend: "\<lbrakk>txDeleteObjectFromBackend a k bk s = Inr (u, t); ok s\<rbrakk> \<Longrightarrow>
      ok t \<and> view t = (view s)\<lparr>lgCopies := filter_mset
        (\<lambda>l. \<not> (locObjectKey l = k \<and> locBackendName l = bk)) (lgCopies (view s))\<rparr>"
    and insert_if_absent: "\<lbrakk>txInsertObjectLocationIfNotExists a loc s = Inr (inserted, t); ok s\<rbrakk> \<Longrightarrow>
      ok t \<and>
      inserted = (\<forall>l \<in># lgCopies (view s).
            \<not> (locObjectKey l = locObjectKey loc \<and> locBackendName l = locBackendName loc)) \<and>
      (inserted \<longrightarrow> insertable (view s) loc) \<and>
      view t = (if inserted then with_copy now loc (view s) else view s)"
    and insert_cleanup: "\<lbrakk>txInsertCleanup a rs s = Inr (items, t); ok s\<rbrakk> \<Longrightarrow>
      ok t \<and> image_mset ciRequest (mset items) = mset rs \<and>
      (\<forall>it \<in> set items. ciClaim it = Some \<lparr>clAt = now, clBy = inst\<rparr>) \<and>
      view t = (view s)\<lparr>lgQueued := lgQueued (view s) + mset rs\<rparr>"
    and insert_tag: "\<lbrakk>txInsertObjectTag a k tk tv s = Inr (u, t); ok s\<rbrakk> \<Longrightarrow>
      ok t \<and> view t = (view s)\<lparr>lgTags :=
        add_mset (k, \<lparr>tagKey = tk, tagValue = tv\<rparr>) (lgTags (view s))\<rparr>"
    and delete_tags: "\<lbrakk>txDeleteObjectTags a ks s = Inr (u, t); ok s\<rbrakk> \<Longrightarrow>
      ok t \<and> view t = (view s)\<lparr>lgTags := filter_mset (\<lambda>e. fst e \<notin> set ks) (lgTags (view s))\<rparr>"
    and adjust_stripes: "\<lbrakk>txAdjustQuotaStripes a cs s = Inr (u, t); ok s\<rbrakk> \<Longrightarrow>
      ok t \<and> view t = with_charges cs (view s)"
    and lock_upload: "\<lbrakk>txLockMultipartUpload a i s = Inr (row, t); ok s\<rbrakk> \<Longrightarrow>
      ok t \<and> view t = view s \<and> row = (case lgUpload (view s) i of None \<Rightarrow> ([], 0) | Some bh \<Rightarrow> bh)"
    and upsert_part: "\<lbrakk>txUpsertPart a pp s = Inr (replaced, t); ok s\<rbrakk> \<Longrightarrow>
      ok t \<and>
      image_mset (\<lambda>e. part_location (snd e)) (filter_mset
        (\<lambda>e. fst e = rpUploadID pp \<and> mpPartNumber (snd e) = rpPartNumber pp) (lgParts (view s)))
        = (case replaced of None \<Rightarrow> {#} | Some q \<Rightarrow> {#q#}) \<and>
      view t = (view s)\<lparr>lgParts := add_mset (rpUploadID pp, stored_part now pp) (filter_mset
        (\<lambda>e. \<not> (fst e = rpUploadID pp \<and> mpPartNumber (snd e) = rpPartNumber pp)) (lgParts (view s)))\<rparr>"
    and delete_upload: "\<lbrakk>txDeleteMultipartUpload a i s = Inr (removed, t); ok s\<rbrakk> \<Longrightarrow>
      ok t \<and>
      mset removed = image_mset (\<lambda>e. part_location (snd e))
        (filter_mset (\<lambda>e. fst e = i) (lgParts (view s))) \<and>
      view t = (view s)\<lparr>lgParts := filter_mset (\<lambda>e. fst e \<noteq> i) (lgParts (view s)),
        lgUpload := (lgUpload (view s))(i := None)\<rparr>"
    and update_metadata: "\<lbrakk>txUpdateCopyMetadata a loc patch s = Inr (u, t); ok s\<rbrakk> \<Longrightarrow>
      ok t \<and> view t = (view s)\<lparr>lgCopies := image_mset
        (\<lambda>l. if locObjectKey l = locObjectKey loc \<and> locBackendName l = locBackendName loc \<and>
                locStorageKey l = locStorageKey loc then patched now patch l else l) (lgCopies (view s))\<rparr>"

text \<open>When the statements a write issues succeed: the constraints of the schema are the only
  reason one is refused.\<close>

locale live_engine = tx_engine +
  assumes key_lock_live: "ok s \<Longrightarrow> \<exists>t. txAcquireKeyLock a ks s = Inr ((), t)"
    and claim_live: "ok s \<Longrightarrow> \<exists>b t. txClaimPending a i s = Inr (b, t)"
    and delete_pending_live: "ok s \<Longrightarrow> \<exists>t. txDeletePending a i s = Inr ((), t)"
    and clear_live: "ok s \<Longrightarrow> \<exists>r t. txClearPendingForKey a keep ks s = Inr (r, t)"
    and existing_live: "ok s \<Longrightarrow> \<exists>r t. txGetExistingCopiesForUpdate a ks s = Inr (r, t)"
    and delete_copies_live: "ok s \<Longrightarrow> \<exists>t. txDeleteObjectCopies a ks s = Inr ((), t)"
    and delete_tags_live: "ok s \<Longrightarrow> \<exists>t. txDeleteObjectTags a ks s = Inr ((), t)"
    and insert_location_live: "\<lbrakk>ok s; insertable (view s) loc\<rbrakk> \<Longrightarrow>
      \<exists>t. txInsertObjectLocation a loc s = Inr ((), t)"
    and insert_tag_live: "\<lbrakk>ok s; \<forall>e \<in># lgTags (view s). \<not> (fst e = k \<and> tagKey (snd e) = tk)\<rbrakk> \<Longrightarrow>
      \<exists>t. txInsertObjectTag a k tk tv s = Inr ((), t)"
    and insert_cleanup_live: "\<lbrakk>ok s; \<forall>r \<in> set rs. lgLimit (view s) (crBackendName r) \<noteq> None\<rbrakk> \<Longrightarrow>
      \<exists>items t. txInsertCleanup a rs s = Inr (items, t)"
    and adjust_live: "\<lbrakk>ok s; \<forall>c \<in> set cs. lgLimit (view s) (scBackend c) \<noteq> None\<rbrakk> \<Longrightarrow>
      \<exists>t. txAdjustQuotaStripes a cs s = Inr ((), t)"

end
