(* ===== verification/StoreCore.thy ===== *)
theory StoreCore
  imports Adapter
begin

text \<open>
  The store's transactional operations (\<open>store/core\<close>: \<open>objects.go\<close>,
  \<open>pending.go\<close>, \<open>cleanup.go\<close>, \<open>quota.go\<close>, \<open>tags.go\<close>, \<open>multipart.go\<close>,
  \<open>store.go\<close>), each written over the engine interface. A Go map filled by a loop is an
  association list; a \<open>*Tx\<close> function is the transactional body, the exported operation runs
  it through \<^const>\<open>WithTxVal\<close>.
\<close>

subsection \<open>Quota\<close>

definition charges_of :: "((string \<times> nat) \<times> int) list \<Rightarrow> StripeCharge list" where
  "charges_of d =
    map (\<lambda>row. \<lparr>scBackend = fst row, scStripe = snd row, scDelta = alookup 0 d row\<rparr>)
      (filter (\<lambda>row. alookup 0 d row \<noteq> 0) (sort (map fst d)))"

definition charge :: "'s TxAdapter \<Rightarrow> ((string \<times> nat) \<times> int) list \<Rightarrow> ('s, unit) tx" where
  "charge a d =
    (let charges = charges_of d in
     if charges = [] then tx_return ()
     else tx_wrap ''charge quota stripes'' (txAdjustQuotaStripes a charges))"

definition stripe_rows :: "string \<Rightarrow> (string \<times> int) list \<Rightarrow> ((string \<times> nat) \<times> int) list" where
  "stripe_rows key deltas =
     foldl (\<lambda>rows e. stripeDeltas_add rows key (fst e) (snd e)) [] deltas"

definition chargeStripes :: "'s TxAdapter \<Rightarrow> string \<Rightarrow> (string \<times> int) list \<Rightarrow> ('s, unit) tx" where
  "chargeStripes a key deltas = charge a (stripe_rows key deltas)"

subsection \<open>Cleanup\<close>

definition queueCleanup :: "'s TxAdapter \<Rightarrow> CleanupRequest list \<Rightarrow> ('s, CleanupItem list) tx" where
  "queueCleanup a requests =
    (if requests = [] then tx_return []
     else tx_wrap ''queue cleanup'' (txInsertCleanup a requests))"

definition enqueueRemoved ::
  "'s TxAdapter \<Rightarrow> string \<Rightarrow> string \<Rightarrow> removedCopy list \<Rightarrow> ('s, CleanupItem list) tx" where
  "enqueueRemoved a objectKey reason removed =
     queueCleanup a (map (\<lambda>d. removedCopy_request d objectKey reason) removed)"

definition dropIntent :: "'s TxAdapter \<Rightarrow> PendingObject \<Rightarrow> string \<Rightarrow> ('s, CleanupItem list) tx" where
  "dropIntent a p reason =
     tx_bind (tx_wrap ''delete discarded intent'' (txDeletePending a (poIntentID p))) (\<lambda>_.
     enqueueRemoved a (poObjectKey p) reason [intentBytes p])"

subsection \<open>Intents\<close>

fun intentsHeld :: "'s TxAdapter \<Rightarrow> string list \<Rightarrow> ('s, bool) tx" where
  "intentsHeld a [] = tx_return True"
| "intentsHeld a (i # ids) =
    (if i = [] then intentsHeld a ids
     else tx_bind (txClaimPending a i) (\<lambda>claimed.
          if \<not> claimed then tx_return False else intentsHeld a ids))"

definition keyIntentsHeld :: "'s TxAdapter \<Rightarrow> string \<Rightarrow> string list \<Rightarrow> ('s, bool) tx" where
  "keyIntentsHeld a key ids = tx_bind (txAcquireKeyLock a [key]) (\<lambda>_. intentsHeld a ids)"

definition DiscardPending ::
  "'s TxOps \<Rightarrow> PendingObject \<Rightarrow> string \<Rightarrow> 's \<Rightarrow> (error + CleanupItem list) \<times> 's" where
  "DiscardPending r p reason = WithTxVal r (\<lambda>a.
     tx_bind (keyIntentsHeld a (poObjectKey p) [poIntentID p]) (\<lambda>claimed.
     if \<not> claimed then tx_return [] else dropIntent a p reason))"

definition group_superseded ::
  "string list \<Rightarrow> SupersededIntent list \<Rightarrow> (string \<times> removedCopy list) list" where
  "group_superseded committing cleared =
    foldl (\<lambda>stale si.
      if siIntentID si \<in> set committing then stale
      else AList.update (siObjectKey si)
             (alookup [] stale (siObjectKey si) @
              [\<lparr>rcBackendName = siBackendName si, rcStorageKey = siStorageKey si,
                rcSizeBytes = siSizeBytes si, rcReason = CleanupReasonSupersededIntent\<rparr>]) stale)
      [] cleared"

definition clearSupersededIntents ::
  "'s TxAdapter \<Rightarrow> string list \<Rightarrow> string list \<Rightarrow> string list \<Rightarrow>
   ('s, (string \<times> removedCopy list) list) tx" where
  "clearSupersededIntents a keep committing keys =
     tx_bind (tx_wrap ''clear superseded intents'' (txClearPendingForKey a keep keys)) (\<lambda>cleared.
     tx_return (group_superseded committing cleared))"

definition clearExistingCopies ::
  "'s TxAdapter \<Rightarrow> string \<Rightarrow> ExistingCopy list \<Rightarrow> (string \<times> int) list \<Rightarrow>
   ('s, removedCopy list \<times> (string \<times> int) list) tx" where
  "clearExistingCopies a key existing deltas =
    (if existing = [] then tx_return ([], deltas)
     else tx_bind (tx_wrap ''delete existing copies'' (txDeleteObjectCopies a [key])) (\<lambda>_.
          tx_return (removedFromExisting existing,
            foldl (\<lambda>q ec. quotaDeltas_add q (ecBackendName ec) (- ecSizeBytes ec)) deltas existing)))"

subsection \<open>Tags\<close>

definition clearTagsForKey :: "'s TxAdapter \<Rightarrow> string list \<Rightarrow> ('s, unit) tx" where
  "clearTagsForKey a keys = tx_wrap ''clear object tags'' (txDeleteObjectTags a keys)"

definition replaceObjectTagsTx :: "'s TxAdapter \<Rightarrow> string \<Rightarrow> Tag list \<Rightarrow> ('s, unit) tx" where
  "replaceObjectTagsTx a key tags =
     tx_bind (clearTagsForKey a [key]) (\<lambda>_.
     tx_each (\<lambda>t. tx_wrap (''insert tag '' @ tagKey t)
       (txInsertObjectTag a key (tagKey t) (tagValue t))) tags)"

definition requireObjectExists :: "'s TxAdapter \<Rightarrow> string \<Rightarrow> ('s, unit) tx" where
  "requireObjectExists a key =
     tx_bind (txGetExistingCopiesForUpdate a [key]) (\<lambda>existing.
     if existing = [] then tx_fail ErrObjectNotFound else tx_return ())"

definition ReplaceObjectTags ::
  "'s TxOps \<Rightarrow> string \<Rightarrow> Tag list \<Rightarrow> 's \<Rightarrow> (error + unit) \<times> 's" where
  "ReplaceObjectTags r key tags s =
    (case ValidateTags tags of
       Some err \<Rightarrow> (Inl err, s)
     | None \<Rightarrow> WithTxVal r (\<lambda>a.
         tx_bind (txAcquireKeyLock a [key]) (\<lambda>_.
         tx_bind (requireObjectExists a key) (\<lambda>_.
         replaceObjectTagsTx a key tags))) s)"

subsection \<open>Recording an object\<close>

fun overtaken_copies :: "'s TxAdapter \<Rightarrow> int \<Rightarrow> ObjectCopy list \<Rightarrow> ('s, removedCopy list) tx" where
  "overtaken_copies a sz [] = tx_return []"
| "overtaken_copies a sz (c # cs) =
    tx_bind (if cpIntentID c \<noteq> []
             then tx_wrap ''delete overtaken intent'' (txDeletePending a (cpIntentID c))
             else tx_return ()) (\<lambda>_.
    tx_bind (overtaken_copies a sz cs) (\<lambda>own.
    tx_return (\<lparr>rcBackendName = cpBackend c, rcStorageKey = cpStorageKey c, rcSizeBytes = sz,
                rcReason = []\<rparr> # own)))"

definition discardOvertakenWrite ::
  "'s TxAdapter \<Rightarrow> RecordObjectRequest \<Rightarrow> ('s, CleanupItem list) tx" where
  "discardOvertakenWrite a req =
     tx_bind (overtaken_copies a (rqSize req) (rqCopies req)) (\<lambda>own.
     enqueueRemoved a (rqKey req) CleanupReasonSupersededIntent own)"

fun insert_copies ::
  "'s TxAdapter \<Rightarrow> RecordObjectRequest \<Rightarrow> ObjectCopy list \<Rightarrow> (string \<times> int) list \<Rightarrow>
   ('s, (string \<times> int) list) tx" where
  "insert_copies a req [] deltas = tx_return deltas"
| "insert_copies a req (c # cs) deltas =
    tx_bind (tx_wrap (''insert object location on '' @ cpBackend c)
      (txInsertObjectLocation a (ObjectFromStoredForm (rqKey req) (cpBackend c) (cpStorageKey c)
         (rqSize req) (rqForm req) (rqIdentity req)))) (\<lambda>_.
    insert_copies a req cs (quotaDeltas_add deltas (cpBackend c) (rqSize req)))"

definition recordObjectTx ::
  "'s TxAdapter \<Rightarrow> RecordObjectRequest \<Rightarrow> ('s, CleanupItem list) tx" where
  "recordObjectTx a req =
    (let committed = intentIDs (rqCopies req) in
     tx_bind (keyIntentsHeld a (rqKey req) committed) (\<lambda>held.
     if \<not> held then discardOvertakenWrite a req
     else
       tx_bind (txGetExistingCopiesForUpdate a [rqKey req]) (\<lambda>existing.
       tx_bind (clearExistingCopies a (rqKey req) existing []) (\<lambda>(displaced, deltas).
       tx_bind (replaceObjectTagsTx a (rqKey req) (rqTags req)) (\<lambda>_.
       tx_bind (insert_copies a req (rqCopies req) deltas) (\<lambda>deltas.
       tx_bind (chargeStripes a (rqKey req) deltas) (\<lambda>_.
       tx_bind (clearSupersededIntents a (intentIDs (rqPlacing req)) committed [rqKey req]) (\<lambda>superseded.
       enqueueRemoved a (rqKey req) CleanupReasonOverwritten
         (displaced @ alookup [] superseded (rqKey req))))))))))"

definition RecordObject ::
  "'s TxOps \<Rightarrow> RecordObjectRequest \<Rightarrow> 's \<Rightarrow> (error + CleanupItem list) \<times> 's" where
  "RecordObject r req s =
    (if rqCopies req = [] then (Inl ErrNoCopiesToRecord, s)
     else case ValidateTags (rqTags req) of
       Some err \<Rightarrow> (Inl err, s)
     | None \<Rightarrow> WithTxVal r (\<lambda>a. recordObjectTx a req) s)"

subsection \<open>Deleting objects and copies\<close>

definition splitRemovedCopies ::
  "ExistingCopy list \<Rightarrow> (string \<times> removedCopy list) list \<times> ((string \<times> nat) \<times> int) list" where
  "splitRemovedCopies rows =
    (foldl (\<lambda>removed r. AList.update (ecObjectKey r)
        (alookup [] removed (ecObjectKey r) @
         [\<lparr>rcBackendName = ecBackendName r, rcStorageKey = ecStorageKey r,
           rcSizeBytes = ecSizeBytes r, rcReason = []\<rparr>]) removed) [] rows,
     foldl (\<lambda>debits r. stripeDeltas_add debits (ecObjectKey r) (ecBackendName r) (- ecSizeBytes r))
       [] rows)"

definition delete_requests ::
  "(string \<times> removedCopy list) list \<Rightarrow> (string \<times> removedCopy list) list \<Rightarrow> string list \<Rightarrow>
   CleanupRequest list" where
  "delete_requests removed superseded held =
     concat (map (\<lambda>key. map (\<lambda>d. removedCopy_request d key CleanupReasonDeleted)
       (alookup [] removed key @ alookup [] superseded key)) held)"

definition deleteObjectsBatchTx :: "'s TxAdapter \<Rightarrow> string list \<Rightarrow> ('s, CleanupItem list) tx" where
  "deleteObjectsBatchTx a keys =
     tx_bind (txAcquireKeyLock a keys) (\<lambda>_.
     tx_bind (txGetExistingCopiesForUpdate a keys) (\<lambda>rows.
     if rows = [] then tx_return []
     else
       tx_bind (tx_wrap ''delete object copies'' (txDeleteObjectCopies a keys)) (\<lambda>_.
       tx_bind (clearTagsForKey a keys) (\<lambda>_.
       case splitRemovedCopies rows of (removed, debits) \<Rightarrow>
       let held = sort (map fst removed) in
       tx_bind (clearSupersededIntents a [] [] held) (\<lambda>superseded.
       tx_bind (queueCleanup a (delete_requests removed superseded held)) (\<lambda>cleanup.
       tx_bind (charge a debits) (\<lambda>_.
       tx_return cleanup)))))))"

definition DeleteObjectsBatch ::
  "'s TxOps \<Rightarrow> string list \<Rightarrow> 's \<Rightarrow> (error + CleanupItem list) \<times> 's" where
  "DeleteObjectsBatch r keys s =
    (if keys = [] then (Inr [], s) else WithTxVal r (\<lambda>a. deleteObjectsBatchTx a keys) s)"

definition DeleteObject :: "'s TxOps \<Rightarrow> string \<Rightarrow> 's \<Rightarrow> (error + CleanupItem list) \<times> 's" where
  "DeleteObject r key s =
    (case DeleteObjectsBatch r [key] s of
       (Inr [], s') \<Rightarrow> (Inl ErrObjectNotFound, s')
     | res \<Rightarrow> res)"

definition removableCopy :: "ExistingCopy list \<Rightarrow> ObjectLocation \<Rightarrow> int \<Rightarrow> error + ExistingCopy" where
  "removableCopy existing loc keepAtLeast =
    (case copyOnBackend existing (locBackendName loc) of
       None \<Rightarrow> Inl ErrCopyChanged
     | Some held \<Rightarrow>
         if ecStorageKey held \<noteq> locStorageKey loc then Inl ErrCopyChanged
         else if keepAtLeast \<le> 0 then Inr held
         else if int (length existing) \<le> keepAtLeast then Inl ErrCopyNotExcess
         else if isLastDecryptableCopy existing (locBackendName loc) then Inl ErrCopyHoldsOnlyDEK
         else Inr held)"

definition removeCopyRow ::
  "'s TxAdapter \<Rightarrow> string \<Rightarrow> ExistingCopy \<Rightarrow> bool \<Rightarrow> ('s, unit) tx" where
  "removeCopyRow a key held last_copy =
     tx_bind (txDeleteObjectFromBackend a key (ecBackendName held)) (\<lambda>_.
     tx_bind (if last_copy then clearTagsForKey a [key] else tx_return ()) (\<lambda>_.
     chargeStripes a key [(ecBackendName held, - ecSizeBytes held)]))"

definition deleteObjectLocationTx ::
  "'s TxAdapter \<Rightarrow> ObjectLocation \<Rightarrow> int \<Rightarrow> string \<Rightarrow> ('s, CleanupItem list) tx" where
  "deleteObjectLocationTx a loc keepAtLeast reason =
    (let key = locObjectKey loc in
     tx_bind (txAcquireKeyLock a [key]) (\<lambda>_.
     tx_bind (txGetExistingCopiesForUpdate a [key]) (\<lambda>existing.
     case removableCopy existing loc keepAtLeast of
       Inl err \<Rightarrow> tx_fail err
     | Inr held \<Rightarrow>
         tx_bind (removeCopyRow a key held (length existing = 1)) (\<lambda>_.
         if reason = [] then tx_return []
         else enqueueRemoved a key reason (removedFromExisting [held])))))"

definition DeleteObjectLocation ::
  "'s TxOps \<Rightarrow> ObjectLocation \<Rightarrow> int \<Rightarrow> string \<Rightarrow> 's \<Rightarrow> (error + CleanupItem list) \<times> 's" where
  "DeleteObjectLocation r loc keepAtLeast reason =
     WithTxVal r (\<lambda>a. deleteObjectLocationTx a loc keepAtLeast reason)"

subsection \<open>Placing a copy\<close>

record placeOutcome =
  poutPlaced :: int
  poutCleanup :: "CleanupItem list"
  poutRefusal :: "error option"

definition placedCopy :: "Placement \<Rightarrow> ObjectLocation \<Rightarrow> ObjectLocation" where
  "placedCopy p src =
    (let placed = CopyAt src (poBackendName (plIntent p)) (poStorageKey (plIntent p)) in
     if \<not> plReformed p then placed
     else placed\<lparr>locForm := (poForm (plIntent p))\<lparr>ContentHash := ContentHash (locForm src)\<rparr>,
                  locSizeBytes := poSizeBytes (plIntent p),
                  locProbeSize := 0, locProbeLevel := []\<rparr>)"

definition Placement_refusal :: "Placement \<Rightarrow> ExistingCopy list \<Rightarrow> error option" where
  "Placement_refusal p existing =
    (case removableCopy existing (plSource p) 0 of
       Inl err \<Rightarrow> Some err
     | Inr _ \<Rightarrow>
         (let target = poBackendName (plIntent p) in
          if target = locBackendName (plSource p)
          then (if \<not> plRemoveSource p then Some ErrTargetRefused else None)
          else case copyOnBackend existing target of
                 Some _ \<Rightarrow> Some ErrTargetRefused
               | None \<Rightarrow> None))"

definition Placement_refuse :: "'s TxAdapter \<Rightarrow> Placement \<Rightarrow> error \<Rightarrow> ('s, placeOutcome) tx" where
  "Placement_refuse a p refusal =
     tx_bind (dropIntent a (plIntent p) (mrOrphan (plReasons p))) (\<lambda>cleanup.
     tx_return \<lparr>poutPlaced = 0, poutCleanup = cleanup, poutRefusal = Some refusal\<rparr>)"

definition Placement_commit :: "'s TxAdapter \<Rightarrow> Placement \<Rightarrow> ObjectLocation \<Rightarrow> ('s, placeOutcome) tx" where
  "Placement_commit a p src =
    (let key = locObjectKey src; placed = placedCopy p src in
     tx_bind
       (if plRemoveSource p then
          tx_bind (txDeleteObjectFromBackend a key (locBackendName src)) (\<lambda>_.
          tx_bind (enqueueRemoved a key (mrSourceDelete (plReasons p))
            [\<lparr>rcBackendName = locBackendName src, rcStorageKey = locStorageKey src,
              rcSizeBytes = locSizeBytes src, rcReason = []\<rparr>]) (\<lambda>queued.
          tx_return (quotaDeltas_add [] (locBackendName src) (- locSizeBytes src), queued)))
        else tx_return ([], [])) (\<lambda>(deltas, cleanup).
     tx_bind (tx_wrap (''insert placed copy on '' @ locBackendName placed)
       (txInsertObjectLocation a placed)) (\<lambda>_.
     tx_bind (chargeStripes a key
       (quotaDeltas_add deltas (locBackendName placed) (locSizeBytes placed))) (\<lambda>_.
     tx_return \<lparr>poutPlaced = locSizeBytes placed, poutCleanup = cleanup, poutRefusal = None\<rparr>))))"

definition placeCopyTx :: "'s TxAdapter \<Rightarrow> Placement \<Rightarrow> ('s, placeOutcome) tx" where
  "placeCopyTx a p =
    (let key = locObjectKey (plSource p) in
     tx_bind (keyIntentsHeld a key [poIntentID (plIntent p)]) (\<lambda>held.
     if \<not> held then
       tx_bind (enqueueRemoved a key CleanupReasonSupersededIntent [intentBytes (plIntent p)]) (\<lambda>cleanup.
       tx_return \<lparr>poutPlaced = 0, poutCleanup = cleanup, poutRefusal = Some ErrCopyChanged\<rparr>)
     else
       tx_bind (txGetExistingCopiesForUpdate a [key]) (\<lambda>existing.
       case Placement_refusal p existing of
         Some refusal \<Rightarrow> Placement_refuse a p refusal
       | None \<Rightarrow>
           tx_bind (txLockObjectOnBackend a key (locBackendName (plSource p))) (\<lambda>found.
           case found of
             None \<Rightarrow> Placement_refuse a p ErrCopyChanged
           | Some src \<Rightarrow>
               tx_bind (tx_wrap ''delete placed intent''
                 (txDeletePending a (poIntentID (plIntent p)))) (\<lambda>_.
               Placement_commit a p src)))))"

text \<open>The placed bytes, the queued rows and the error \<open>PlaceCopy\<close> returns.\<close>

definition PlaceCopy ::
  "'s TxOps \<Rightarrow> Placement \<Rightarrow> 's \<Rightarrow> (int \<times> CleanupItem list \<times> error option) \<times> 's" where
  "PlaceCopy r p s =
    (case WithTxVal r (\<lambda>a. placeCopyTx a p) s of
       (Inl err, s') \<Rightarrow> ((0, [], Some err), s')
     | (Inr out, s') \<Rightarrow> ((poutPlaced out, poutCleanup out, poutRefusal out), s'))"

subsection \<open>Importing an object\<close>

definition importObjectTx :: "'s TxAdapter \<Rightarrow> time \<Rightarrow> ImportObjectRequest \<Rightarrow> ('s, ImportOutcome) tx" where
  "importObjectTx a now req =
     tx_bind (txListedPathStates a (irBackend req) [irKey req]) (\<lambda>states.
     case alookup PathUntracked states (irKey req) of
       PathPendingCleanup \<Rightarrow> tx_return ImportSkippedPendingCleanup
     | PathRecorded \<Rightarrow> tx_return ImportSkippedExisting
     | PathInFlight \<Rightarrow> tx_return ImportSkippedExisting
     | PathUntracked \<Rightarrow>
         (let loc = (ObjectFromStoredForm (irKey req) (irBackend req) (irKey req) (irSize req)
                       (irForm req) None)
               \<lparr>locUnmanaged := irUnmanaged req \<or> StoredForm_Unreadable (irForm req),
                locCreatedAt := (if irWrittenAt req \<noteq> 0 then irWrittenAt req else now)\<rparr> in
          tx_bind (txInsertObjectLocationIfNotExists a loc) (\<lambda>inserted.
          if \<not> inserted then tx_return ImportSkippedExisting
          else tx_bind (chargeStripes a (irKey req) [(irBackend req, irSize req)]) (\<lambda>_.
               tx_return ImportInserted))))"

definition ImportObject ::
  "'s TxOps \<Rightarrow> time \<Rightarrow> ImportObjectRequest \<Rightarrow> 's \<Rightarrow> (error + ImportOutcome) \<times> 's" where
  "ImportObject r now req = WithTxVal r (\<lambda>a. importObjectTx a now req)"

subsection \<open>Promoting intents and committing companions\<close>

definition recordIntent :: "'s TxAdapter \<Rightarrow> PendingObject \<Rightarrow> (string \<times> int) list \<Rightarrow> ('s, unit) tx" where
  "recordIntent a p deltas =
    (let loc = ObjectFromStoredForm (poObjectKey p) (poBackendName p) (poStorageKey p)
                 (poSizeBytes p) (Some (poForm p)) (poIdentity p) in
     tx_bind (tx_wrap (''insert '' @ role_name (RoleOrDefault p) @ '' location'')
       (txInsertObjectLocation a loc)) (\<lambda>_.
     tx_bind (chargeStripes a (poObjectKey p)
       (quotaDeltas_add deltas (poBackendName p) (poSizeBytes p))) (\<lambda>_.
     tx_wrap (''delete '' @ role_name (RoleOrDefault p) @ '' pending row'')
       (txDeletePending a (poIntentID p)))))"

definition resolveCompanion ::
  "'s TxAdapter \<Rightarrow> PendingObject \<Rightarrow> ExistingCopy list \<Rightarrow>
   ('s, PendingPromoteResult \<times> CleanupItem list) tx" where
  "resolveCompanion a p existing =
    (if list_ex (\<lambda>ec. ecBackendName ec = poBackendName p \<and> ecStorageKey ec = poStorageKey p) existing
     then tx_bind (tx_wrap ''delete companion pending row'' (txDeletePending a (poIntentID p))) (\<lambda>_.
          tx_return (PendingPromoteCompanionKept, []))
     else tx_bind (dropIntent a p CleanupReasonCompanionDiscarded) (\<lambda>cleanup.
          tx_return (PendingPromoteCompanionDiscarded, cleanup)))"

definition commitPromotion ::
  "'s TxAdapter \<Rightarrow> PendingObject \<Rightarrow> ExistingCopy list \<Rightarrow>
   ('s, PendingPromoteResult \<times> CleanupItem list) tx" where
  "commitPromotion a p existing =
     tx_bind (clearExistingCopies a (poObjectKey p) existing []) (\<lambda>(displaced, deltas).
     tx_bind (recordIntent a p deltas) (\<lambda>_.
     tx_bind (replaceObjectTagsTx a (poObjectKey p) (poTags p)) (\<lambda>_.
     tx_bind (enqueueRemoved a (poObjectKey p) CleanupReasonOverwritten displaced) (\<lambda>cleanup.
     tx_return (PendingPromoteCommitted, cleanup)))))"

definition promotePendingTx ::
  "'s TxAdapter \<Rightarrow> PendingObject \<Rightarrow> ('s, PendingPromoteResult \<times> CleanupItem list) tx" where
  "promotePendingTx a p =
     tx_bind (keyIntentsHeld a (poObjectKey p) [poIntentID p]) (\<lambda>claimed.
     if \<not> claimed then tx_return (PendingPromoteAlreadyResolved, [])
     else
       tx_bind (txGetExistingCopiesForUpdate a [poObjectKey p]) (\<lambda>existing.
       if IsCompanion p then resolveCompanion a p existing
       else if intentSuperseded existing (poCreatedAt p)
         then tx_bind (dropIntent a p CleanupReasonSupersededIntent) (\<lambda>cleanup.
              tx_return (PendingPromoteSuperseded, cleanup))
       else commitPromotion a p existing))"

definition PromotePending ::
  "'s TxOps \<Rightarrow> PendingObject \<Rightarrow> 's \<Rightarrow>
   (PendingPromoteResult \<times> CleanupItem list \<times> error option) \<times> 's" where
  "PromotePending r p s =
    (case WithTxVal r (\<lambda>a. promotePendingTx a p) s of
       (Inl err, s') \<Rightarrow> ((PendingPromoteAmbiguous, [], Some (Wrapped ''promote pending'' err)), s')
     | (Inr (result, cleanup), s') \<Rightarrow> ((result, cleanup, None), s'))"

definition discardUntrustedCopy ::
  "'s TxAdapter \<Rightarrow> PendingObject \<Rightarrow> ('s, CompanionCommitResult \<times> CleanupItem list) tx" where
  "discardUntrustedCopy a p =
     tx_bind (enqueueRemoved a (poObjectKey p) CleanupReasonCompanionUntrusted [intentBytes p]) (\<lambda>cleanup.
     tx_return (CompanionCopyUntrusted, cleanup))"

definition commitCompanionTx ::
  "'s TxAdapter \<Rightarrow> PendingObject \<Rightarrow> ('s, CompanionCommitResult \<times> CleanupItem list) tx" where
  "commitCompanionTx a p =
     tx_bind (keyIntentsHeld a (poObjectKey p) [poIntentID p]) (\<lambda>claimed.
     if \<not> claimed then discardUntrustedCopy a p
     else tx_bind (recordIntent a p []) (\<lambda>_.
          tx_return (CompanionCopyCommitted, [])))"

definition CommitCompanionCopy ::
  "'s TxOps \<Rightarrow> PendingObject \<Rightarrow> 's \<Rightarrow>
   (CompanionCommitResult \<times> CleanupItem list \<times> error option) \<times> 's" where
  "CommitCompanionCopy r p s =
    (case WithTxVal r (\<lambda>a. commitCompanionTx a p) s of
       (Inl err, s') \<Rightarrow> ((CompanionCopyCommitted, [], Some (Wrapped ''commit companion copy'' err)), s')
     | (Inr (result, cleanup), s') \<Rightarrow> ((result, cleanup, None), s'))"

subsection \<open>Claiming room\<close>

definition claimTx ::
  "'s TxOps \<Rightarrow> string list \<Rightarrow> ('s TxAdapter \<Rightarrow> ('s, 'a) tx) \<Rightarrow> 's \<Rightarrow> (error + 'a) \<times> 's" where
  "claimTx r backends claim s =
    (case opsClaimSlot r of
       Some err \<Rightarrow> (Inl (Wrapped ''wait for a claim slot'' err), s)
     | None \<Rightarrow> WithTxVal r (\<lambda>a.
         tx_bind (txAcquireBackendLock a backends) (\<lambda>_. claim a)) s)"

definition InsertPendingIfFits ::
  "'s TxOps \<Rightarrow> PendingObject \<Rightarrow> 64 word \<Rightarrow> 's \<Rightarrow> (error + bool) \<times> 's" where
  "InsertPendingIfFits r p accepts =
     claimTx r [poBackendName p] (\<lambda>a. txInsertPendingIfFits a p accepts)"

record CopyClaims =
  ccClaimed :: "PendingObject list"
  ccDeclined :: "string list"

fun ClaimInRankOrder_from ::
  "CopyClaims \<Rightarrow> PendingObject list \<Rightarrow> string list \<Rightarrow> 64 word \<Rightarrow>
   (PendingObject \<Rightarrow> 64 word \<Rightarrow> ('s, bool) tx) \<Rightarrow> ('s, CopyClaims) tx" where
  "ClaimInRankOrder_from out intents [] accepts insert_intent = tx_return out"
| "ClaimInRankOrder_from out intents (name # ranked) accepts insert_intent =
    (if length (ccClaimed out) = length intents then tx_return out
     else
       let p = (intents ! length (ccClaimed out))\<lparr>poBackendName := name\<rparr> in
       tx_bind (tx_wrap (''claim '' @ name) (insert_intent p accepts)) (\<lambda>fits.
       ClaimInRankOrder_from
         (if fits then out\<lparr>ccClaimed := ccClaimed out @ [p]\<rparr>
          else out\<lparr>ccDeclined := ccDeclined out @ [name]\<rparr>)
         intents ranked accepts insert_intent))"

definition ClaimInRankOrder ::
  "PendingObject list \<Rightarrow> string list \<Rightarrow> 64 word \<Rightarrow>
   (PendingObject \<Rightarrow> 64 word \<Rightarrow> ('s, bool) tx) \<Rightarrow> ('s, CopyClaims) tx" where
  "ClaimInRankOrder = ClaimInRankOrder_from \<lparr>ccClaimed = [], ccDeclined = []\<rparr>"

definition ClaimPendingCopies ::
  "'s TxOps \<Rightarrow> PendingObject list \<Rightarrow> string list \<Rightarrow> 64 word \<Rightarrow> 's \<Rightarrow> (error + CopyClaims) \<times> 's" where
  "ClaimPendingCopies r intents ranked accepts =
     claimTx r ranked (\<lambda>a. ClaimInRankOrder intents ranked accepts (txInsertPendingIfFits a))"

subsection \<open>Multipart parts\<close>

definition lockUploadIdle :: "'s TxAdapter \<Rightarrow> string \<Rightarrow> time \<Rightarrow> ('s, string) tx" where
  "lockUploadIdle a uploadID staleBefore =
     tx_bind (txLockMultipartUpload a uploadID) (\<lambda>(backendName, heartbeat).
     if heartbeat > staleBefore then tx_fail ErrCompletionInProgress else tx_return backendName)"

definition recordPartTx ::
  "'s TxAdapter \<Rightarrow> RecordPartParams \<Rightarrow> ('s, CleanupItem list \<times> error option) tx" where
  "recordPartTx a p =
    (let partPath = PartPath (rpUploadID p) (rpPartNumber p) in
     tx_bind (txAcquireKeyLock a [partPath]) (\<lambda>_.
     tx_bind (lockUploadIdle a (rpUploadID p) (rpCompletionStaleBefore p)) (\<lambda>backendName.
     if backendName = [] then tx_fail ErrMultipartUploadNotFound
     else
       tx_bind (intentsHeld a [poIntentID (rpIntent p)]) (\<lambda>held.
       if \<not> held then
         tx_bind (enqueueRemoved a partPath CleanupReasonSupersededIntent [intentBytes (rpIntent p)]) (\<lambda>cleanup.
         tx_return (cleanup, Some ErrIntentLost))
       else
         tx_bind (txUpsertPart a p) (\<lambda>replaced.
         tx_bind (tx_wrap ''delete recorded part intent''
           (txDeletePending a (poIntentID (rpIntent p)))) (\<lambda>_.
         case replaced of
           None \<Rightarrow> tx_return ([], None)
         | Some part \<Rightarrow>
             tx_bind (enqueueRemoved a partPath CleanupReasonPartReplaced
               [\<lparr>rcBackendName = poBackendName (rpIntent p),
                 rcStorageKey = MultipartPart_Path part (rpUploadID p),
                 rcSizeBytes = mpSizeBytes part, rcReason = []\<rparr>]) (\<lambda>cleanup.
             tx_return (cleanup, None))))))))"

definition RecordPart ::
  "'s TxOps \<Rightarrow> RecordPartParams \<Rightarrow> 's \<Rightarrow> (CleanupItem list \<times> error option) \<times> 's" where
  "RecordPart r p s =
    (if \<not> ValidPartNumber (rpPartNumber p) then (([], Some (InvalidPartNumber (rpPartNumber p))), s)
     else case WithTxVal r (\<lambda>a. recordPartTx a p) s of
       (Inl err, s') \<Rightarrow> (([], Some err), s')
     | (Inr out, s') \<Rightarrow> (out, s'))"

definition deleteMultipartUploadTx ::
  "'s TxAdapter \<Rightarrow> string \<Rightarrow> string \<Rightarrow> time \<Rightarrow> ('s, CleanupItem list) tx" where
  "deleteMultipartUploadTx a uploadID reason staleBefore =
     tx_bind (lockUploadIdle a uploadID staleBefore) (\<lambda>backendName.
     if backendName = [] then tx_return []
     else
       tx_bind (txDeleteMultipartUpload a uploadID) (\<lambda>parts.
       queueCleanup a (map (\<lambda>part. removedCopy_request
         \<lparr>rcBackendName = backendName, rcStorageKey = MultipartPart_Path part uploadID,
          rcSizeBytes = mpSizeBytes part, rcReason = []\<rparr>
         (PartPath uploadID (mpPartNumber part)) reason) parts)))"

definition DeleteMultipartUpload ::
  "'s TxOps \<Rightarrow> string \<Rightarrow> string \<Rightarrow> time \<Rightarrow> 's \<Rightarrow> (error + CleanupItem list) \<times> 's" where
  "DeleteMultipartUpload r uploadID reason staleBefore =
     WithTxVal r (\<lambda>a. deleteMultipartUploadTx a uploadID reason staleBefore)"

end
