(* ===== verification/StoreSpec.thy ===== *)
theory StoreSpec
  imports StoreCore
begin

text \<open>
  What each store operation promises, as a function on the ledger: no statements, no loops, no
  row order. \<open>StoreRefinement\<close> shows that the operations of \<open>store/core\<close> implement these
  functions on any engine that keeps its contract.
\<close>

subsection \<open>Vocabulary\<close>

text \<open>The cleanup that deletes a copy's bytes, or an intent's upload.\<close>

definition copy_cleanup :: "string \<Rightarrow> ObjectLocation \<Rightarrow> CleanupRequest" where
  "copy_cleanup reason l =
    \<lparr>crBackendName = locBackendName l, crObjectKey = locObjectKey l,
     crStorageKey = StoragePath (locObjectKey l) (locStorageKey l),
     crReason = reason, crSizeBytes = locSizeBytes l\<rparr>"

definition intent_cleanup :: "string \<Rightarrow> PendingObject \<Rightarrow> CleanupRequest" where
  "intent_cleanup reason p =
    \<lparr>crBackendName = poBackendName p, crObjectKey = poObjectKey p,
     crStorageKey = StoragePath (poObjectKey p) (poStorageKey p),
     crReason = reason, crSizeBytes = poSizeBytes p\<rparr>"

definition upload_cleanup :: "RecordObjectRequest \<Rightarrow> ObjectCopy \<Rightarrow> CleanupRequest" where
  "upload_cleanup req c =
    \<lparr>crBackendName = cpBackend c, crObjectKey = rqKey req,
     crStorageKey = StoragePath (rqKey req) (cpStorageKey c),
     crReason = CleanupReasonSupersededIntent, crSizeBytes = rqSize req\<rparr>"

definition part_cleanup :: "string \<Rightarrow> string \<Rightarrow> string \<Rightarrow> MultipartPart \<Rightarrow> CleanupRequest" where
  "part_cleanup reason backend uploadID p =
    \<lparr>crBackendName = backend, crObjectKey = PartPath uploadID (mpPartNumber p),
     crStorageKey = StoragePath (PartPath uploadID (mpPartNumber p)) (MultipartPart_Path p uploadID),
     crReason = reason, crSizeBytes = mpSizeBytes p\<rparr>"

definition copies_of :: "ledger \<Rightarrow> string \<Rightarrow> ObjectLocation multiset" where
  "copies_of L k = filter_mset (\<lambda>l. locObjectKey l = k) (lgCopies L)"

definition bytes_on :: "string \<Rightarrow> ObjectLocation multiset \<Rightarrow> int" where
  "bytes_on b M = bytes_where (\<lambda>l. locBackendName l = b) locSizeBytes M"

text \<open>A change of the byte counter on the stripe a key selects.\<close>

definition charged :: "string \<Rightarrow> (string \<Rightarrow> int) \<Rightarrow> ledger \<Rightarrow> ledger" where
  "charged key \<delta> L = L\<lparr>
     lgStripe := (\<lambda>bi. lgStripe L bi + (if snd bi = StripeFor key then \<delta> (fst bi) else 0)),
     lgUsed := (\<lambda>b. lgUsed L b + \<delta> b)\<rparr>"

definition queued :: "CleanupRequest multiset \<Rightarrow> ledger \<Rightarrow> ledger" where
  "queued M L = L\<lparr>lgQueued := lgQueued L + M\<rparr>"

definition without_intents :: "(PendingObject \<Rightarrow> bool) \<Rightarrow> ledger \<Rightarrow> ledger" where
  "without_intents P L = L\<lparr>lgIntents := filter_mset (\<lambda>p. \<not> P p) (lgIntents L)\<rparr>"

definition without_copies :: "(ObjectLocation \<Rightarrow> bool) \<Rightarrow> ledger \<Rightarrow> ledger" where
  "without_copies P L = L\<lparr>lgCopies := filter_mset (\<lambda>l. \<not> P l) (lgCopies L)\<rparr>"

definition retagged :: "string \<Rightarrow> Tag list \<Rightarrow> ledger \<Rightarrow> ledger" where
  "retagged k tags L = L\<lparr>lgTags :=
     filter_mset (\<lambda>e. fst e \<noteq> k) (lgTags L) + image_mset (Pair k) (mset tags)\<rparr>"

lemmas ledger_ops = charged_def queued_def without_intents_def without_copies_def retagged_def
  with_copy_def

subsection \<open>Writes\<close>

definition new_copies :: "time \<Rightarrow> RecordObjectRequest \<Rightarrow> ObjectLocation multiset" where
  "new_copies now req = image_mset
     (\<lambda>c. stored_location now (ObjectFromStoredForm (rqKey req) (cpBackend c) (cpStorageKey c)
             (rqSize req) (rqForm req) (rqIdentity req))) (mset (rqCopies req))"

definition all_held :: "ledger \<Rightarrow> string list \<Rightarrow> bool" where
  "all_held L ids \<longleftrightarrow> (\<forall>i \<in> set ids. i \<noteq> [] \<longrightarrow> holds_intent L i)"

text \<open>
  A write that still holds its intents replaces the key's copies and tags, drops every intent of
  the key except the uploads it is still placing, queues what it displaced, and moves the
  counter by the difference. A write that lost one records nothing and queues its own uploads.
\<close>

definition spec_record :: "time \<Rightarrow> RecordObjectRequest \<Rightarrow> ledger \<Rightarrow> ledger" where
  "spec_record now req L =
    (let k = rqKey req; ids = intentIDs (rqCopies req); placing = intentIDs (rqPlacing req);
         stale = (\<lambda>p. poObjectKey p = k \<and> poIntentID p \<notin> set placing) in
     if all_held L ids then
       L\<lparr>lgCopies := filter_mset (\<lambda>l. locObjectKey l \<noteq> k) (lgCopies L) + new_copies now req,
         lgTags := filter_mset (\<lambda>e. fst e \<noteq> k) (lgTags L) + image_mset (Pair k) (mset (rqTags req)),
         lgStripe := (\<lambda>bi. lgStripe L bi + (if snd bi = StripeFor k
           then bytes_on (fst bi) (new_copies now req) - bytes_on (fst bi) (copies_of L k) else 0)),
         lgUsed := (\<lambda>b. lgUsed L b + (bytes_on b (new_copies now req) - bytes_on b (copies_of L k))),
         lgIntents := filter_mset (\<lambda>p. \<not> stale p) (lgIntents L),
         lgQueued := lgQueued L + image_mset (copy_cleanup CleanupReasonOverwritten) (copies_of L k)
           + image_mset (intent_cleanup CleanupReasonSupersededIntent)
               (filter_mset (\<lambda>p. stale p \<and> poIntentID p \<notin> set ids) (lgIntents L))\<rparr>
     else
       L\<lparr>lgIntents := filter_mset (\<lambda>p. \<not> (poIntentID p \<noteq> [] \<and> poIntentID p \<in> set ids)) (lgIntents L),
         lgQueued := lgQueued L + image_mset (upload_cleanup req) (mset (rqCopies req))\<rparr>)"

text \<open>
  An intent that is gone was resolved already. A companion's upload is never recorded by the
  reaper; a primary one is, unless a copy newer than the intent exists.
\<close>

definition spec_drop :: "string \<Rightarrow> PendingObject \<Rightarrow> ledger \<Rightarrow> ledger" where
  "spec_drop reason p L =
     L\<lparr>lgIntents := filter_mset (\<lambda>q. poIntentID q \<noteq> poIntentID p) (lgIntents L),
       lgQueued := add_mset (intent_cleanup reason p) (lgQueued L)\<rparr>"

definition intent_copy :: "time \<Rightarrow> PendingObject \<Rightarrow> ObjectLocation" where
  "intent_copy now p = stored_location now (ObjectFromStoredForm (poObjectKey p) (poBackendName p)
     (poStorageKey p) (poSizeBytes p) (Some (poForm p)) (poIdentity p))"

definition spec_promoted :: "time \<Rightarrow> PendingObject \<Rightarrow> ledger \<Rightarrow> ledger" where
  "spec_promoted now p L =
    (let k = poObjectKey p;
         \<delta> = (\<lambda>b. (if b = poBackendName p then poSizeBytes p else 0) - bytes_on b (copies_of L k)) in
     charged k \<delta> (retagged k (poTags p) (L\<lparr>
       lgCopies := add_mset (intent_copy now p) (filter_mset (\<lambda>l. locObjectKey l \<noteq> k) (lgCopies L)),
       lgIntents := filter_mset (\<lambda>q. poIntentID q \<noteq> poIntentID p) (lgIntents L),
       lgQueued := lgQueued L + image_mset (copy_cleanup CleanupReasonOverwritten) (copies_of L k)\<rparr>)))"

definition spec_promote :: "time \<Rightarrow> PendingObject \<Rightarrow> ledger \<Rightarrow> PendingPromoteResult \<times> ledger" where
  "spec_promote now p L =
    (let k = poObjectKey p in
     if poIntentID p \<noteq> [] \<and> \<not> holds_intent L (poIntentID p) then (PendingPromoteAlreadyResolved, L)
     else if IsCompanion p then
       if \<exists>l \<in># copies_of L k. locBackendName l = poBackendName p \<and> locStorageKey l = poStorageKey p
       then (PendingPromoteCompanionKept, without_intents (\<lambda>q. poIntentID q = poIntentID p) L)
       else (PendingPromoteCompanionDiscarded, spec_drop CleanupReasonCompanionDiscarded p L)
     else if \<exists>l \<in># copies_of L k. locCreatedAt l \<noteq> 0 \<and> locCreatedAt l > poCreatedAt p
       then (PendingPromoteSuperseded, spec_drop CleanupReasonSupersededIntent p L)
     else (PendingPromoteCommitted, spec_promoted now p L))"

definition spec_companion :: "time \<Rightarrow> PendingObject \<Rightarrow> ledger \<Rightarrow> CompanionCommitResult \<times> ledger" where
  "spec_companion now p L =
    (if poIntentID p \<noteq> [] \<and> \<not> holds_intent L (poIntentID p)
     then (CompanionCopyUntrusted,
           queued {#intent_cleanup CleanupReasonCompanionUntrusted p#} L)
     else (CompanionCopyCommitted,
       charged (poObjectKey p) (\<lambda>b. if b = poBackendName p then poSizeBytes p else 0)
         (L\<lparr>lgCopies := add_mset (intent_copy now p) (lgCopies L),
            lgIntents := filter_mset (\<lambda>q. poIntentID q \<noteq> poIntentID p) (lgIntents L)\<rparr>)))"

definition spec_discard :: "string \<Rightarrow> PendingObject \<Rightarrow> ledger \<Rightarrow> ledger" where
  "spec_discard reason p L =
    (if poIntentID p \<noteq> [] \<and> \<not> holds_intent L (poIntentID p) then L else spec_drop reason p L)"

subsection \<open>Deletes\<close>

definition spec_delete :: "string list \<Rightarrow> ledger \<Rightarrow> ledger" where
  "spec_delete ks L =
    (let rows = filter_mset (\<lambda>l. locObjectKey l \<in> set ks) (lgCopies L);
         held = locObjectKey ` set_mset rows in
     if rows = {#} then L
     else L\<lparr>lgCopies := filter_mset (\<lambda>l. locObjectKey l \<notin> set ks) (lgCopies L),
            lgTags := filter_mset (\<lambda>e. fst e \<notin> set ks) (lgTags L),
            lgStripe := (\<lambda>bi. lgStripe L bi -
              bytes_where (\<lambda>l. locBackendName l = fst bi \<and> StripeFor (locObjectKey l) = snd bi)
                locSizeBytes rows),
            lgUsed := (\<lambda>b. lgUsed L b - bytes_on b rows),
            lgIntents := filter_mset (\<lambda>p. poObjectKey p \<notin> held) (lgIntents L),
            lgQueued := lgQueued L + image_mset (copy_cleanup CleanupReasonDeleted) rows
              + image_mset (intent_cleanup CleanupReasonSupersededIntent)
                  (filter_mset (\<lambda>p. poObjectKey p \<in> held) (lgIntents L))\<rparr>)"

text \<open>The one copy a locked read of the key finds at the place \<open>loc\<close> names.\<close>

definition names :: "ObjectLocation \<Rightarrow> ObjectLocation \<Rightarrow> bool" where
  "names loc l \<longleftrightarrow> locObjectKey l = locObjectKey loc \<and> locBackendName l = locBackendName loc"

definition spec_delete_copy :: "ObjectLocation \<Rightarrow> string \<Rightarrow> ledger \<Rightarrow> ledger" where
  "spec_delete_copy l reason L =
    (let rest = filter_mset (\<lambda>l'. \<not> names l l') (lgCopies L);
         L1 = charged (locObjectKey l) (\<lambda>b. if b = locBackendName l then - locSizeBytes l else 0)
           (L\<lparr>lgCopies := rest,
              lgTags := (if copies_of L (locObjectKey l) = {#l#}
                 then filter_mset (\<lambda>e. fst e \<noteq> locObjectKey l) (lgTags L) else lgTags L)\<rparr>) in
     if reason = [] then L1 else queued {#copy_cleanup reason l#} L1)"

subsection \<open>Placements\<close>

text \<open>Why the locked copies of the key refuse a placement, if they do.\<close>

definition spec_refusal :: "Placement \<Rightarrow> ledger \<Rightarrow> error option" where
  "spec_refusal p L =
    (let copies = copies_of L (locObjectKey (plSource p)); target = poBackendName (plIntent p) in
     if \<not> (\<exists>l \<in># copies. locBackendName l = locBackendName (plSource p) \<and>
                          locStorageKey l = locStorageKey (plSource p))
     then Some ErrCopyChanged
     else if target = locBackendName (plSource p)
       then (if plRemoveSource p then None else Some ErrTargetRefused)
     else if \<exists>l \<in># copies. locBackendName l = target then Some ErrTargetRefused else None)"

definition spec_place_commit :: "time \<Rightarrow> Placement \<Rightarrow> ObjectLocation \<Rightarrow> ledger \<Rightarrow> ledger" where
  "spec_place_commit now p src L =
    (let k = locObjectKey src; placed = placedCopy p src; moved = plRemoveSource p;
         \<delta> = (\<lambda>b. (if b = locBackendName placed then locSizeBytes placed else 0)
                - (if moved \<and> b = locBackendName src then locSizeBytes src else 0)) in
     charged k \<delta> (L\<lparr>
       lgCopies := add_mset (stored_location now placed)
         (if moved then filter_mset (\<lambda>l. \<not> names src l) (lgCopies L) else lgCopies L),
       lgIntents := filter_mset (\<lambda>q. poIntentID q \<noteq> poIntentID (plIntent p)) (lgIntents L),
       lgQueued := lgQueued L +
         (if moved then {#copy_cleanup (mrSourceDelete (plReasons p)) src#} else {#})\<rparr>))"

subsection \<open>Imports\<close>

definition import_location :: "time \<Rightarrow> ImportObjectRequest \<Rightarrow> ObjectLocation" where
  "import_location now req =
     (ObjectFromStoredForm (irKey req) (irBackend req) (irKey req) (irSize req) (irForm req) None)
       \<lparr>locUnmanaged := irUnmanaged req \<or> StoredForm_Unreadable (irForm req),
        locCreatedAt := (if irWrittenAt req \<noteq> 0 then irWrittenAt req else now)\<rparr>"

definition spec_import :: "time \<Rightarrow> ImportObjectRequest \<Rightarrow> ledger \<Rightarrow> ImportOutcome \<times> ledger" where
  "spec_import now req L =
    (case path_state L (irBackend req) (irKey req) of
       PathPendingCleanup \<Rightarrow> (ImportSkippedPendingCleanup, L)
     | PathUntracked \<Rightarrow>
         if \<exists>l \<in># lgCopies L. locObjectKey l = irKey req \<and> locBackendName l = irBackend req
         then (ImportSkippedExisting, L)
         else (ImportInserted, charged (irKey req) (\<lambda>b. if b = irBackend req then irSize req else 0)
                (with_copy now (import_location now req) L))
     | _ \<Rightarrow> (ImportSkippedExisting, L))"

subsection \<open>Multipart parts\<close>

definition spec_record_part :: "time \<Rightarrow> RecordPartParams \<Rightarrow> ledger \<Rightarrow> error option \<times> ledger" where
  "spec_record_part now p L =
    (let i = rpIntent p; u = rpUploadID p; path = PartPath u (rpPartNumber p);
         same = (\<lambda>e. fst e = u \<and> mpPartNumber (snd e) = rpPartNumber p) in
     if poIntentID i \<noteq> [] \<and> \<not> holds_intent L (poIntentID i)
     then (Some ErrIntentLost,
           queued {#removedCopy_request (intentBytes i) path CleanupReasonSupersededIntent#} L)
     else (None,
       L\<lparr>lgParts := add_mset (u, stored_part now p) (filter_mset (\<lambda>e. \<not> same e) (lgParts L)),
         lgIntents := filter_mset (\<lambda>q. poIntentID q \<noteq> poIntentID i) (lgIntents L),
         lgQueued := lgQueued L + image_mset
           (\<lambda>e. part_cleanup CleanupReasonPartReplaced (poBackendName i) u (snd e))
           (filter_mset same (lgParts L))\<rparr>))"

definition spec_delete_upload :: "string \<Rightarrow> string \<Rightarrow> ledger \<Rightarrow> ledger" where
  "spec_delete_upload u reason L =
    (case lgUpload L u of
       None \<Rightarrow> L
     | Some (b, h) \<Rightarrow>
         if b = [] then L
         else L\<lparr>lgParts := filter_mset (\<lambda>e. fst e \<noteq> u) (lgParts L),
                lgUpload := (lgUpload L)(u := None),
                lgQueued := lgQueued L + image_mset (\<lambda>e. part_cleanup reason b u (snd e))
                  (filter_mset (\<lambda>e. fst e = u) (lgParts L))\<rparr>)"

subsection \<open>Claims\<close>

text \<open>
  A claim reserves room: the backend admits the intent and holds its row from then on. Claims in
  rank order take the first backends that admit the next unplaced intent.
\<close>

definition with_claim :: "time \<Rightarrow> PendingObject \<Rightarrow> ledger \<Rightarrow> ledger" where
  "with_claim now p L = L\<lparr>lgIntents := add_mset (stored_intent now p) (lgIntents L)\<rparr>"

fun spec_claims ::
  "time \<Rightarrow> CopyClaims \<Rightarrow> PendingObject list \<Rightarrow> string list \<Rightarrow> 64 word \<Rightarrow> ledger \<Rightarrow> CopyClaims \<times> ledger" where
  "spec_claims now out intents [] accepts L = (out, L)"
| "spec_claims now out intents (name # ranked) accepts L =
    (if length (ccClaimed out) = length intents then (out, L)
     else
       let p = (intents ! length (ccClaimed out))\<lparr>poBackendName := name\<rparr> in
       if admits L p accepts
       then spec_claims now (out\<lparr>ccClaimed := ccClaimed out @ [p]\<rparr>) intents ranked accepts (with_claim now p L)
       else spec_claims now (out\<lparr>ccDeclined := ccDeclined out @ [name]\<rparr>) intents ranked accepts L)"

end
