(* ===== verification/Sqlite.thy ===== *)
theory Sqlite
  imports Adapter
begin

text \<open>
  The SQLite engine (\<open>store/sqlite\<close>): one field of \<open>db\<close> per table of
  \<open>schema.sql\<close>, and one function per statement of \<open>adapter.go\<close> and
  \<open>pending.go\<close>. A statement fails where the schema's primary keys, unique index or
  foreign keys refuse the row. The transaction reads one clock value \<open>now\<close>; a JSON list
  parameter selects the rows whose column is in the list. 
  \<open>SqliteEngine\<close> shows that they keep the engine contract.
\<close>

subsection \<open>Tables\<close>

record QueueRow =
  qrID :: nat
  qrRequest :: CleanupRequest
  qrCreatedAt :: time
  qrNextRetry :: time
  qrAttempts :: int
  qrLastError :: string
  qrClaimedAt :: "time option"
  qrClaimedBy :: string

record DlqRow =
  drOriginalID :: nat
  drRequest :: CleanupRequest
  drAttempts :: int
  drFirstEnqueued :: time
  drMovedAt :: time
  drLastError :: string

record UploadRow =
  upUploadID :: string
  upObjectKey :: string
  upBackendName :: string
  upContentType :: string
  upMetadata :: "(string \<times> string) list option"
  upEncryptionKey :: string
  upKeyID :: string
  upTagging :: string
  upCreatedAt :: time
  upHeartbeat :: "time option"

record StateRow =
  stBackendName :: string
  stFlags :: "64 word"
  stObjectsMoved :: int
  stLastError :: string
  stStartedAt :: time
  stFinishedAt :: "time option"

record db =
  dbQuotas :: "(string \<times> int) list"
  dbStripes :: "((string \<times> nat) \<times> int) list"
  dbLocations :: "ObjectLocation list"
  dbPending :: "PendingObject list"
  dbQueue :: "QueueRow list"
  dbQueueSeq :: nat
  dbDlq :: "DlqRow list"
  dbTags :: "(string \<times> Tag) list"
  dbUploads :: "UploadRow list"
  dbParts :: "(string \<times> MultipartPart) list"
  dbStates :: "StateRow list"

definition known :: "db \<Rightarrow> string \<Rightarrow> bool" where
  "known d b \<longleftrightarrow> b \<in> fst ` set (dbQuotas d)"

subsection \<open>Pending intents\<close>

definition sqlite_AcquireKeyLock :: "string list \<Rightarrow> (db, unit) tx" where
  "sqlite_AcquireKeyLock ks = tx_return ()"

definition sqlite_AcquireBackendLock :: "string list \<Rightarrow> (db, unit) tx" where
  "sqlite_AcquireBackendLock bs = tx_return ()"

definition sqlite_ClaimPending :: "string \<Rightarrow> (db, bool) tx" where
  "sqlite_ClaimPending intentID d = Inr (list_ex (\<lambda>p. poIntentID p = intentID) (dbPending d), d)"

definition sqlite_DeletePending :: "string \<Rightarrow> (db, unit) tx" where
  "sqlite_DeletePending intentID d =
     Inr ((), d\<lparr>dbPending := filter (\<lambda>p. poIntentID p \<noteq> intentID) (dbPending d)\<rparr>)"

definition sqlite_ClearPendingForKey :: "string list \<Rightarrow> string list \<Rightarrow> (db, SupersededIntent list) tx" where
  "sqlite_ClearPendingForKey keep objectKeys d =
    (let cleared = (\<lambda>p. poObjectKey p \<in> set objectKeys \<and> poIntentID p \<notin> set keep) in
     Inr (map superseded_of (filter cleared (dbPending d)),
          d\<lparr>dbPending := filter (\<lambda>p. \<not> cleared p) (dbPending d)\<rparr>))"

text \<open>The columns of the view \<open>backend_capacity\<close> for one backend.\<close>

definition capacity_used :: "db \<Rightarrow> string \<Rightarrow> int" where
  "capacity_used d b = max 0 (sum_where (\<lambda>e. fst (fst e) = b) snd (dbStripes d))"

definition capacity_orphan :: "db \<Rightarrow> string \<Rightarrow> int" where
  "capacity_orphan d b =
     sum_where (\<lambda>r. crBackendName r = b) crSizeBytes (map qrRequest (dbQueue d) @ map drRequest (dbDlq d))"

definition capacity_parts :: "db \<Rightarrow> string \<Rightarrow> int" where
  "capacity_parts d b =
     sum_list (map (\<lambda>u. sum_where (\<lambda>e. fst e = upUploadID u) (\<lambda>e. mpSizeBytes (snd e)) (dbParts d))
       (filter (\<lambda>u. upBackendName u = b) (dbUploads d)))"

definition capacity_intents :: "db \<Rightarrow> string \<Rightarrow> int" where
  "capacity_intents d b = sum_where (\<lambda>p. poBackendName p = b) poSizeBytes (dbPending d)"

definition capacity_flags :: "db \<Rightarrow> string \<Rightarrow> 64 word" where
  "capacity_flags d b = (case find (\<lambda>st. stBackendName st = b) (dbStates d) of
     None \<Rightarrow> 0 | Some st \<Rightarrow> stFlags st)"

definition available_bytes :: "db \<Rightarrow> string \<Rightarrow> int \<Rightarrow> int" where
  "available_bytes d b bytes_limit =
     bytes_limit - capacity_used d b - capacity_orphan d b - capacity_parts d b - capacity_intents d b"

definition sqlite_InsertPendingIfFits :: "time \<Rightarrow> PendingObject \<Rightarrow> 64 word \<Rightarrow> (db, bool) tx" where
  "sqlite_InsertPendingIfFits now p accepts d =
    (case map_of (dbQuotas d) (poBackendName p) of
       None \<Rightarrow> Inr (False, d)
     | Some bytes_limit \<Rightarrow>
         if and (capacity_flags d (poBackendName p)) (not accepts) = 0 \<and>
            (bytes_limit = 0 \<or> available_bytes d (poBackendName p) bytes_limit \<ge> poSizeBytes p)
         then if list_ex (\<lambda>q. poIntentID q = poIntentID p) (dbPending d)
              then Inl (Wrapped ''insert pending object'' (ConstraintError ''pending_objects.intent_id''))
              else Inr (True, d\<lparr>dbPending := dbPending d @ [stored_intent now p]\<rparr>)
         else Inr (False, d))"

subsection \<open>Object locations\<close>

definition sqlite_GetExistingCopiesForUpdate :: "string list \<Rightarrow> (db, ExistingCopy list) tx" where
  "sqlite_GetExistingCopiesForUpdate objectKeys d =
    Inr (if objectKeys = [] then []
         else map (\<lambda>l. \<lparr>ecObjectKey = locObjectKey l, ecBackendName = locBackendName l,
                        ecStorageKey = locStorageKey l, ecSizeBytes = locSizeBytes l,
                        ecCreatedAt = locCreatedAt l, ecForm = word_of_int (sql_form (locForm l))\<rparr>)
                (filter (\<lambda>l. locObjectKey l \<in> set objectKeys) (dbLocations d)), d)"

definition sqlite_InsertObjectLocation :: "time \<Rightarrow> ObjectLocation \<Rightarrow> (db, unit) tx" where
  "sqlite_InsertObjectLocation now loc d =
    (if \<not> known d (locBackendName loc)
     then Inl (Wrapped ''insert object location'' (ConstraintError ''backend_name''))
     else if list_ex (\<lambda>l. locObjectKey l = locObjectKey loc \<and> locBackendName l = locBackendName loc)
               (dbLocations d)
     then Inl (Wrapped ''insert object location'' (ConstraintError ''object_key, backend_name''))
     else if list_ex (\<lambda>l. locBackendName l = locBackendName loc \<and> locStorageKey l = locStorageKey loc)
               (dbLocations d)
     then Inl (Wrapped ''insert object location'' (ConstraintError ''backend_name, storage_key''))
     else Inr ((), d\<lparr>dbLocations := dbLocations d @ [stored_location now loc]\<rparr>))"

definition sqlite_DeleteObjectCopies :: "string list \<Rightarrow> (db, unit) tx" where
  "sqlite_DeleteObjectCopies objectKeys d =
     Inr ((), d\<lparr>dbLocations := filter (\<lambda>l. locObjectKey l \<notin> set objectKeys) (dbLocations d)\<rparr>)"

definition objectExistsOnBackend :: "string \<Rightarrow> string \<Rightarrow> (db, bool) tx" where
  "objectExistsOnBackend objectKey backend d =
     Inr (list_ex (\<lambda>l. locObjectKey l = objectKey \<and> locBackendName l = backend) (dbLocations d), d)"

definition sqlite_LockObjectOnBackend :: "string \<Rightarrow> string \<Rightarrow> (db, ObjectLocation option) tx" where
  "sqlite_LockObjectOnBackend objectKey backend d =
     Inr (find (\<lambda>l. locObjectKey l = objectKey \<and> locBackendName l = backend) (dbLocations d), d)"

definition sqlite_DeleteObjectFromBackend :: "string \<Rightarrow> string \<Rightarrow> (db, unit) tx" where
  "sqlite_DeleteObjectFromBackend objectKey backend d =
     Inr ((), d\<lparr>dbLocations := filter
       (\<lambda>l. \<not> (locObjectKey l = objectKey \<and> locBackendName l = backend)) (dbLocations d)\<rparr>)"

definition names_copy :: "ObjectLocation \<Rightarrow> ObjectLocation \<Rightarrow> bool" where
  "names_copy loc l \<longleftrightarrow> locObjectKey l = locObjectKey loc \<and> locBackendName l = locBackendName loc \<and>
     locStorageKey l = locStorageKey loc"

definition sqlite_UpdateCopyMetadata :: "time \<Rightarrow> ObjectLocation \<Rightarrow> CopyPatch \<Rightarrow> (db, unit) tx" where
  "sqlite_UpdateCopyMetadata now loc p d =
    (if list_ex (names_copy loc) (dbLocations d)
     then Inr ((), d\<lparr>dbLocations :=
            map (\<lambda>l. if names_copy loc l then patched now p l else l) (dbLocations d)\<rparr>)
     else Inl ErrCopyChanged)"

definition sqlite_InsertObjectLocationIfNotExists :: "time \<Rightarrow> ObjectLocation \<Rightarrow> (db, bool) tx" where
  "sqlite_InsertObjectLocationIfNotExists now loc =
     tx_bind (objectExistsOnBackend (locObjectKey loc) (locBackendName loc)) (\<lambda>exists.
     if exists then tx_return False
     else tx_bind (sqlite_InsertObjectLocation now loc) (\<lambda>_. tx_return True))"

text \<open>The states rank as their numbers do in the source.\<close>

fun PathState_rank :: "PathState \<Rightarrow> nat" where
  "PathState_rank PathUntracked = 0"
| "PathState_rank PathRecorded = 1"
| "PathState_rank PathInFlight = 2"
| "PathState_rank PathPendingCleanup = 3"

lemma PathState_rank_inj: "PathState_rank x = PathState_rank y \<Longrightarrow> x = y"
  by (cases x; cases y) simp_all

instantiation PathState :: linorder
begin

definition less_eq_PathState :: "PathState \<Rightarrow> PathState \<Rightarrow> bool" where
  "less_eq_PathState x y \<longleftrightarrow> PathState_rank x \<le> PathState_rank y"

definition less_PathState :: "PathState \<Rightarrow> PathState \<Rightarrow> bool" where
  "less_PathState x y \<longleftrightarrow> PathState_rank x < PathState_rank y"

instance
  by standard (auto simp: less_eq_PathState_def less_PathState_def dest: PathState_rank_inj)

end

definition listed_rows :: "db \<Rightarrow> string \<Rightarrow> string list \<Rightarrow> (string \<times> PathState) list" where
  "listed_rows d backend paths =
    (let hit = (\<lambda>(b, k). b = backend \<and> k \<in> set paths) in
     map (\<lambda>r. (crStorageKey r, PathPendingCleanup))
       (filter (\<lambda>r. hit (crBackendName r, crStorageKey r)) (map qrRequest (dbQueue d))) @
     map (\<lambda>r. (crStorageKey r, PathPendingCleanup))
       (filter (\<lambda>r. hit (crBackendName r, crStorageKey r)) (map drRequest (dbDlq d))) @
     map (\<lambda>p. (poStorageKey p, PathInFlight))
       (filter (\<lambda>p. hit (poBackendName p, poStorageKey p)) (dbPending d)) @
     map (\<lambda>l. (locStorageKey l, PathRecorded))
       (filter (\<lambda>l. hit (locBackendName l, locStorageKey l)) (dbLocations d)))"

definition merge_state ::
  "(string \<times> PathState) list \<Rightarrow> string \<times> PathState \<Rightarrow> (string \<times> PathState) list" where
  "merge_state states row =
     AList.update (fst row) (max (alookup PathUntracked states (fst row)) (snd row)) states"

definition sqlite_ListedPathStates :: "string \<Rightarrow> string list \<Rightarrow> (db, (string \<times> PathState) list) tx" where
  "sqlite_ListedPathStates backend paths d =
     Inr (if paths = [] then [] else foldl merge_state [] (listed_rows d backend paths), d)"

subsection \<open>Tags, cleanups, stripes\<close>

definition sqlite_InsertObjectTag :: "string \<Rightarrow> string \<Rightarrow> string \<Rightarrow> (db, unit) tx" where
  "sqlite_InsertObjectTag objectKey tk tv d =
    (if list_ex (\<lambda>e. fst e = objectKey \<and> tagKey (snd e) = tk) (dbTags d)
     then Inl (Wrapped ''insert object tag'' (ConstraintError ''object_key, tag_key''))
     else Inr ((), d\<lparr>dbTags := dbTags d @ [(objectKey, \<lparr>tagKey = tk, tagValue = tv\<rparr>)]\<rparr>))"

definition sqlite_DeleteObjectTags :: "string list \<Rightarrow> (db, unit) tx" where
  "sqlite_DeleteObjectTags objectKeys d =
     Inr ((), d\<lparr>dbTags := filter (\<lambda>e. fst e \<notin> set objectKeys) (dbTags d)\<rparr>)"

fun sqlite_InsertCleanup :: "time \<Rightarrow> string \<Rightarrow> CleanupRequest list \<Rightarrow> (db, CleanupItem list) tx" where
  "sqlite_InsertCleanup now inst [] d = Inr ([], d)"
| "sqlite_InsertCleanup now inst (c # cs) d =
    (if \<not> known d (crBackendName c)
     then Inl (Wrapped ''insert cleanup row'' (ConstraintError ''backend_name''))
     else
       let i = Suc (dbQueueSeq d);
           row = \<lparr>qrID = i, qrRequest = c, qrCreatedAt = now, qrNextRetry = now,
                  qrAttempts = 0, qrLastError = [], qrClaimedAt = Some now, qrClaimedBy = inst\<rparr>;
           item = \<lparr>ciRequest = c, ciID = i, ciAttempts = 0,
                   ciClaim = Some \<lparr>clAt = now, clBy = inst\<rparr>, ciReclaimed = False\<rparr>
       in case sqlite_InsertCleanup now inst cs
                 (d\<lparr>dbQueue := dbQueue d @ [row], dbQueueSeq := i\<rparr>) of
            Inl e \<Rightarrow> Inl e
          | Inr (items, d') \<Rightarrow> Inr (item # items, d'))"

definition adjust_stripe :: "StripeCharge \<Rightarrow> (db, unit) tx" where
  "adjust_stripe c d =
    (if \<not> known d (scBackend c)
     then Inl (Wrapped (''adjust quota stripe for '' @ scBackend c) (ConstraintError ''backend_name''))
     else Inr ((), d\<lparr>dbStripes := AList.update (scBackend c, scStripe c)
            (alookup 0 (dbStripes d) (scBackend c, scStripe c) + scDelta c) (dbStripes d)\<rparr>))"

definition sqlite_AdjustQuotaStripes :: "StripeCharge list \<Rightarrow> (db, unit) tx" where
  "sqlite_AdjustQuotaStripes charges = tx_each adjust_stripe charges"

subsection \<open>Multipart uploads\<close>

definition sqlite_LockMultipartUpload :: "string \<Rightarrow> (db, string \<times> time) tx" where
  "sqlite_LockMultipartUpload uploadID d =
    Inr (case find (\<lambda>u. upUploadID u = uploadID) (dbUploads d) of
           None \<Rightarrow> ([], 0)
         | Some u \<Rightarrow> (upBackendName u, case upHeartbeat u of None \<Rightarrow> 0 | Some t \<Rightarrow> t), d)"

definition sqlite_DeleteMultipartUpload :: "string \<Rightarrow> (db, MultipartPart list) tx" where
  "sqlite_DeleteMultipartUpload uploadID d =
    Inr (map (\<lambda>e. part_location (snd e)) (filter (\<lambda>e. fst e = uploadID) (dbParts d)),
         d\<lparr>dbParts := filter (\<lambda>e. fst e \<noteq> uploadID) (dbParts d),
           dbUploads := filter (\<lambda>u. upUploadID u \<noteq> uploadID) (dbUploads d)\<rparr>)"

definition sqlite_UpsertPart :: "time \<Rightarrow> RecordPartParams \<Rightarrow> (db, MultipartPart option) tx" where
  "sqlite_UpsertPart now p d =
    (let same = (\<lambda>e. fst e = rpUploadID p \<and> mpPartNumber (snd e) = rpPartNumber p);
         prev = map (\<lambda>e. part_location (snd e)) (filter same (dbParts d))
     in if \<not> list_ex (\<lambda>u. upUploadID u = rpUploadID p) (dbUploads d)
        then Inl (Wrapped ''record part'' (ConstraintError ''upload_id''))
        else Inr (case prev of [] \<Rightarrow> None | q # _ \<Rightarrow> Some q,
                  d\<lparr>dbParts := (if prev = []
                     then dbParts d @ [(rpUploadID p, stored_part now p)]
                     else map (\<lambda>e. if same e then (rpUploadID p, stored_part now p) else e) (dbParts d))\<rparr>))"

definition sqlite_adapter :: "time \<Rightarrow> string \<Rightarrow> db TxAdapter" where
  "sqlite_adapter now instanceID =
    \<lparr>txAcquireKeyLock = sqlite_AcquireKeyLock,
     txAcquireBackendLock = sqlite_AcquireBackendLock,
     txInsertPendingIfFits = sqlite_InsertPendingIfFits now,
     txClaimPending = sqlite_ClaimPending,
     txDeletePending = sqlite_DeletePending,
     txClearPendingForKey = sqlite_ClearPendingForKey,
     txGetExistingCopiesForUpdate = sqlite_GetExistingCopiesForUpdate,
     txInsertObjectLocation = sqlite_InsertObjectLocation now,
     txDeleteObjectCopies = sqlite_DeleteObjectCopies,
     txListedPathStates = sqlite_ListedPathStates,
     txLockObjectOnBackend = sqlite_LockObjectOnBackend,
     txDeleteObjectFromBackend = sqlite_DeleteObjectFromBackend,
     txUpdateCopyMetadata = sqlite_UpdateCopyMetadata now,
     txInsertObjectLocationIfNotExists = sqlite_InsertObjectLocationIfNotExists now,
     txInsertCleanup = sqlite_InsertCleanup now instanceID,
     txInsertObjectTag = sqlite_InsertObjectTag,
     txDeleteObjectTags = sqlite_DeleteObjectTags,
     txAdjustQuotaStripes = sqlite_AdjustQuotaStripes,
     txLockMultipartUpload = sqlite_LockMultipartUpload,
     txUpsertPart = sqlite_UpsertPart now,
     txDeleteMultipartUpload = sqlite_DeleteMultipartUpload\<rparr>"

end
