(* ===== verification/SqliteEngine.thy ===== *)
theory SqliteEngine
  imports Sqlite
begin

text \<open>
  The SQLite statements keep the engine contract: the ledger a database presents, the schema's
  constraints as an invariant every statement preserves, the agreement of the
  \<open>backend_capacity\<close> view with the ledger's totals, and the interpretation of
  \<open>tx_engine\<close> and \<open>live_engine\<close> on \<open>sqlite_adapter\<close>.
\<close>

subsection \<open>The ledger a database presents\<close>

definition upload_mark :: "UploadRow \<Rightarrow> string \<times> time" where
  "upload_mark u = (upBackendName u, case upHeartbeat u of None \<Rightarrow> 0 | Some t \<Rightarrow> t)"

definition ledger_of :: "db \<Rightarrow> ledger" where
  "ledger_of d =
    \<lparr>lgLimit = map_of (dbQuotas d),
     lgFlags = capacity_flags d,
     lgStripe = alookup 0 (dbStripes d),
     lgUsed = (\<lambda>b. sum_where (\<lambda>e. fst (fst e) = b) snd (dbStripes d)),
     lgCopies = mset (dbLocations d),
     lgIntents = mset (dbPending d),
     lgQueued = mset (map qrRequest (dbQueue d)),
     lgDead = mset (map drRequest (dbDlq d)),
     lgTags = mset (dbTags d),
     lgUpload = (\<lambda>u. map_option upload_mark (find (\<lambda>r. upUploadID r = u) (dbUploads d))),
     lgParts = mset (dbParts d)\<rparr>"

text \<open>The primary keys, unique indexes and foreign keys of \<open>schema.sql\<close>.\<close>

definition schema_ok :: "db \<Rightarrow> bool" where
  "schema_ok d \<longleftrightarrow>
     distinct (map fst (dbQuotas d)) \<and>
     distinct (map fst (dbStripes d)) \<and>
     distinct (map (\<lambda>l. (locObjectKey l, locBackendName l)) (dbLocations d)) \<and>
     distinct (map (\<lambda>l. (locBackendName l, locStorageKey l)) (dbLocations d)) \<and>
     distinct (map poIntentID (dbPending d)) \<and>
     distinct (map qrID (dbQueue d)) \<and>
     distinct (map (\<lambda>e. (fst e, tagKey (snd e))) (dbTags d)) \<and>
     distinct (map upUploadID (dbUploads d)) \<and>
     distinct (map (\<lambda>e. (fst e, mpPartNumber (snd e))) (dbParts d)) \<and>
     distinct (map stBackendName (dbStates d)) \<and>
     (\<forall>r \<in> set (dbQueue d). qrID r \<le> dbQueueSeq d) \<and>
     (\<forall>e \<in> set (dbStripes d). known d (fst (fst e))) \<and>
     (\<forall>l \<in> set (dbLocations d). known d (locBackendName l)) \<and>
     (\<forall>p \<in> set (dbPending d). known d (poBackendName p)) \<and>
     (\<forall>r \<in> set (dbQueue d). known d (crBackendName (qrRequest r))) \<and>
     (\<forall>r \<in> set (dbDlq d). known d (crBackendName (drRequest r))) \<and>
     (\<forall>u \<in> set (dbUploads d). known d (upBackendName u)) \<and>
     (\<forall>e \<in> set (dbParts d). fst e \<in> upUploadID ` set (dbUploads d))"

lemma ledger_of_sel [simp]:
  "lgLimit (ledger_of d) = map_of (dbQuotas d)"
  "lgFlags (ledger_of d) = capacity_flags d"
  "lgStripe (ledger_of d) = alookup 0 (dbStripes d)"
  "lgUsed (ledger_of d) = (\<lambda>b. sum_where (\<lambda>e. fst (fst e) = b) snd (dbStripes d))"
  "lgCopies (ledger_of d) = mset (dbLocations d)"
  "lgIntents (ledger_of d) = mset (dbPending d)"
  "lgQueued (ledger_of d) = mset (map qrRequest (dbQueue d))"
  "lgDead (ledger_of d) = mset (map drRequest (dbDlq d))"
  "lgTags (ledger_of d) = mset (dbTags d)"
  "lgUpload (ledger_of d) = (\<lambda>u. map_option upload_mark (find (\<lambda>r. upUploadID r = u) (dbUploads d)))"
  "lgParts (ledger_of d) = mset (dbParts d)"
  by (simp_all add: ledger_of_def)

lemma known_iff: "known d b \<longleftrightarrow> map_of (dbQuotas d) b \<noteq> None"
  by (simp add: known_def map_of_eq_None_iff)

lemma sql_form_word: "word_of_int (sql_form f) = StoredForm_Form f"
  by (simp add: sql_form_def StoredForm_Form_def stored_flag_defs)

lemma find_upload_Some:
  "find (\<lambda>r. upUploadID r = u) us = Some r \<Longrightarrow> r \<in> set us \<and> upUploadID r = u"
  by (auto simp: find_Some_iff)

lemma find_upload_None:
  "find (\<lambda>r. upUploadID r = u) us = None \<longleftrightarrow> u \<notin> upUploadID ` set us"
  by (auto simp: find_None_iff)

lemma schema_ok_ledger_ok:
  assumes "schema_ok d"
  shows "ledger_ok (ledger_of d)"
proof -
  have "lgUpload (ledger_of d) u \<noteq> None" if "(u, p) \<in># lgParts (ledger_of d)" for u p
    using assms that
    by (auto simp: schema_ok_def find_upload_None simp del: not_None_eq dest!: bspec)
  moreover have "lgLimit (ledger_of d) b \<noteq> None" if "lgUpload (ledger_of d) u = Some (b, h)" for u b h
    using assms that by (auto simp: schema_ok_def upload_mark_def known_iff dest!: find_upload_Some)
  ultimately show ?thesis
    using assms unfolding ledger_ok_def
    by (simp add: schema_ok_def case_prod_beta' known_def map_of_eq_None_iff)
qed

subsection \<open>The capacity view agrees with the ledger\<close>

lemma capacity_parts_eq:
  assumes "distinct (map upUploadID (dbUploads d))"
  shows "capacity_parts d b = partBytes (ledger_of d) b"
proof -
  let ?on = "\<lambda>us e. \<exists>u \<in> set us. upUploadID u = fst e \<and> upBackendName u = b"
  let ?size = "\<lambda>e :: string \<times> MultipartPart. mpSizeBytes (snd e)"
  have "sum_list (map (\<lambda>u. sum_where (\<lambda>e. fst e = upUploadID u) ?size ps)
      (filter (\<lambda>u. upBackendName u = b) us)) = sum_where (?on us) ?size ps"
    if "distinct (map upUploadID us)" for us ps
    using that
  proof (induction us)
    case Nil
    then show ?case by (simp add: sum_where_none)
  next
    case (Cons u us)
    have "sum_where (\<lambda>e. fst e = upUploadID u) ?size ps + sum_where (?on us) ?size ps =
        sum_where (\<lambda>e. fst e = upUploadID u \<or> ?on us e) ?size ps"
      using Cons.prems by (intro sum_where_disjoint) (auto simp: image_iff)
    with Cons show ?case
      by (auto intro!: sum_where_cong)
  qed
  from this [OF assms, of "dbParts d"]
  have total: "capacity_parts d b = sum_where (?on (dbUploads d)) ?size (dbParts d)"
    by (simp add: capacity_parts_def)
  have on: "?on (dbUploads d) e \<longleftrightarrow> (\<exists>h. lgUpload (ledger_of d) (fst e) = Some (b, h))" for e
  proof (cases "find (\<lambda>r. upUploadID r = fst e) (dbUploads d)")
    case None
    then have "\<not> ?on (dbUploads d) e"
      unfolding find_None_iff by blast
    moreover have "lgUpload (ledger_of d) (fst e) = None"
      by (simp add: None)
    ultimately show ?thesis by (simp only: option.distinct simp_thms)
  next
    case (Some r)
    then have r: "r \<in> set (dbUploads d)" "upUploadID r = fst e"
      by (auto dest: find_upload_Some)
    then have "u = r" if "u \<in> set (dbUploads d)" "upUploadID u = fst e" for u
      using assms that by (auto simp: distinct_map inj_on_def)
    with r have "?on (dbUploads d) e \<longleftrightarrow> upBackendName r = b"
      by metis
    moreover have "lgUpload (ledger_of d) (fst e) = Some (upload_mark r)"
      by (simp add: Some)
    ultimately show ?thesis by (simp only: upload_mark_def) simp
  qed
  show ?thesis
    unfolding partBytes_def case_prod_beta' total on
    by (simp only: ledger_of_sel bytes_where_mset)
qed

lemma available_bytes_eq:
  assumes "distinct (map upUploadID (dbUploads d))"
  shows "available_bytes d b l = l - occupied (ledger_of d) b"
  unfolding available_bytes_def occupied_def capacity_parts_eq [OF assms] capacity_used_def
    capacity_orphan_def capacity_intents_def orphanBytes_def intentInflight_def
  by (simp flip: mset_map)

subsection \<open>Listed paths\<close>

lemma alookup_merge_states:
  "alookup PathUntracked (foldl merge_state m rows) k =
     fold (\<lambda>e x. max x (snd e)) (filter (\<lambda>e. fst e = k) rows) (alookup PathUntracked m k)"
  by (induction rows arbitrary: m) (auto simp: merge_state_def)

lemma fold_max_rank:
  "fold (\<lambda>e x. max x (snd e)) rows (st :: PathState) = s \<longleftrightarrow>
     (s = st \<or> s \<in> snd ` set rows) \<and> st \<le> s \<and> (\<forall>e \<in> set rows. snd e \<le> s)"
proof (induction rows arbitrary: st)
  case (Cons e rows)
  then show ?case by (auto simp: max_def)
qed auto

lemma PathState_le [simp]:
  "PathUntracked \<le> s" "s \<le> PathPendingCleanup"
  "PathRecorded \<le> PathInFlight" "\<not> PathInFlight \<le> PathRecorded"
  "\<not> PathPendingCleanup \<le> PathInFlight" "\<not> PathPendingCleanup \<le> PathRecorded"
  "\<not> PathRecorded \<le> PathUntracked" "\<not> PathInFlight \<le> PathUntracked"
  "\<not> PathPendingCleanup \<le> PathUntracked"
  by (cases s; simp add: less_eq_PathState_def)+

lemma merged_state_iff:
  "alookup PathUntracked (foldl merge_state [] rows) k = s \<longleftrightarrow>
     (s = PathUntracked \<or> (k, s) \<in> set rows) \<and> (\<forall>st. (k, st) \<in> set rows \<longrightarrow> st \<le> s)"
  unfolding alookup_merge_states alookup_Nil fold_max_rank by (auto simp: image_iff)

lemma listed_rows_iff:
  "(k, st) \<in> set (listed_rows d b paths) \<longleftrightarrow> k \<in> set paths \<and>
     (st = PathPendingCleanup \<and>
        (\<exists>r \<in># lgQueued (ledger_of d) + lgDead (ledger_of d). crBackendName r = b \<and> crStorageKey r = k) \<or>
      st = PathInFlight \<and> (\<exists>p \<in> set (dbPending d). poBackendName p = b \<and> poStorageKey p = k) \<or>
      st = PathRecorded \<and> (\<exists>l \<in> set (dbLocations d). locBackendName l = b \<and> locStorageKey l = k))"
  by (auto simp: listed_rows_def)

lemma listed_states_eq:
  assumes "k \<in> set paths"
  shows "alookup PathUntracked (foldl merge_state [] (listed_rows d b paths)) k =
    path_state (ledger_of d) b k"
proof -
  let ?A = "\<exists>r \<in># lgQueued (ledger_of d) + lgDead (ledger_of d). crBackendName r = b \<and> crStorageKey r = k"
  let ?B = "\<exists>p \<in> set (dbPending d). poBackendName p = b \<and> poStorageKey p = k"
  let ?C = "\<exists>l \<in> set (dbLocations d). locBackendName l = b \<and> locStorageKey l = k"
  have rows: "(k, st) \<in> set (listed_rows d b paths) \<longleftrightarrow>
      st = PathPendingCleanup \<and> ?A \<or> st = PathInFlight \<and> ?B \<or> st = PathRecorded \<and> ?C" for st
    using assms by (simp only: listed_rows_iff simp_thms)
  have "path_state (ledger_of d) b k =
      (if ?A then PathPendingCleanup else if ?B then PathInFlight
       else if ?C then PathRecorded else PathUntracked)"
    unfolding path_state_def by (simp only: ledger_of_sel set_mset_mset)
  then show ?thesis
    unfolding merged_state_iff rows by (simp only: split: if_split) simp
qed

subsection \<open>Statements keep the schema and act on the ledger as promised\<close>

lemma schema_ok_locations:
  assumes "schema_ok d"
    and "distinct (map (\<lambda>l. (locObjectKey l, locBackendName l)) ls)"
    and "distinct (map (\<lambda>l. (locBackendName l, locStorageKey l)) ls)"
    and "\<forall>l \<in> set ls. known d (locBackendName l)"
  shows "schema_ok (d\<lparr>dbLocations := ls\<rparr>)"
  using assms by (simp add: schema_ok_def known_def)

lemma schema_ok_pending:
  assumes "schema_ok d" and "distinct (map poIntentID ps)" and "\<forall>p \<in> set ps. known d (poBackendName p)"
  shows "schema_ok (d\<lparr>dbPending := ps\<rparr>)"
  using assms by (simp add: schema_ok_def known_def)

lemma schema_okD:
  assumes "schema_ok d"
  shows "distinct (map (\<lambda>l. (locObjectKey l, locBackendName l)) (dbLocations d))"
    and "distinct (map (\<lambda>l. (locBackendName l, locStorageKey l)) (dbLocations d))"
    and "\<forall>l \<in> set (dbLocations d). known d (locBackendName l)"
    and "distinct (map poIntentID (dbPending d))"
    and "\<forall>p \<in> set (dbPending d). known d (poBackendName p)"
    and "distinct (map upUploadID (dbUploads d))"
    and "distinct (map fst (dbStripes d))"
  using assms by (simp_all add: schema_ok_def)

lemma delete_pending_law:
  "schema_ok d \<Longrightarrow> schema_ok (d\<lparr>dbPending := filter P (dbPending d)\<rparr>) \<and>
    ledger_of (d\<lparr>dbPending := filter P (dbPending d)\<rparr>) =
      (ledger_of d)\<lparr>lgIntents := filter_mset P (lgIntents (ledger_of d))\<rparr>"
  by (auto intro!: schema_ok_pending distinct_map_filter schema_okD(4) dest: schema_okD(5)
      simp: ledger_of_def capacity_flags_def fun_eq_iff)

lemma delete_locations_law:
  "schema_ok d \<Longrightarrow> schema_ok (d\<lparr>dbLocations := filter P (dbLocations d)\<rparr>) \<and>
    ledger_of (d\<lparr>dbLocations := filter P (dbLocations d)\<rparr>) =
      (ledger_of d)\<lparr>lgCopies := filter_mset P (lgCopies (ledger_of d))\<rparr>"
  by (auto intro!: schema_ok_locations distinct_map_filter schema_okD(1,2) dest: schema_okD(3)
      simp: ledger_of_def capacity_flags_def fun_eq_iff)

lemma insert_pending_law:
  assumes "schema_ok d" and "sqlite_InsertPendingIfFits now p accepts d = Inr (b, d')"
  shows "schema_ok d' \<and> b = admits (ledger_of d) p accepts \<and>
    (b \<longrightarrow> \<not> holds_intent (ledger_of d) (poIntentID p)) \<and>
    ledger_of d' =
      (if b then (ledger_of d)\<lparr>lgIntents := add_mset (stored_intent now p) (lgIntents (ledger_of d))\<rparr>
       else ledger_of d)"
proof -
  have stored: "poIntentID (stored_intent now p) = poIntentID p"
    "poBackendName (stored_intent now p) = poBackendName p"
    by (simp_all add: stored_intent_def)
  have ok: "schema_ok (d\<lparr>dbPending := dbPending d @ [stored_intent now p]\<rparr>)"
    if "\<not> list_ex (\<lambda>q. poIntentID q = poIntentID p) (dbPending d)" "map_of (dbQuotas d) (poBackendName p) = Some l"
    for l
    using assms(1) that schema_okD(5) [OF assms(1)]
    by (intro schema_ok_pending) (auto simp: schema_okD(4) stored known_iff list_ex_iff)
  show ?thesis
    using assms ok
    by (auto simp: sqlite_InsertPendingIfFits_def admits_def holds_intent_def list_ex_iff
        available_bytes_eq [OF schema_okD(6)] ledger_of_def capacity_flags_def fun_eq_iff
        split: option.splits if_splits)
qed

lemma existing_copies_law:
  "sqlite_GetExistingCopiesForUpdate ks d = Inr (r, d') \<Longrightarrow> d' = d \<and>
    mset r = image_mset existing_of (filter_mset (\<lambda>l. locObjectKey l \<in> set ks) (lgCopies (ledger_of d)))"
  by (auto simp: sqlite_GetExistingCopiesForUpdate_def sql_form_word existing_of_def [abs_def]
      simp flip: mset_filter split: if_splits)

lemma insert_location_law:
  assumes "schema_ok d" and "sqlite_InsertObjectLocation now loc d = Inr (u, d')"
  shows "schema_ok d' \<and> insertable (ledger_of d) loc \<and> ledger_of d' = with_copy now loc (ledger_of d)"
proof -
  have d': "d' = d\<lparr>dbLocations := dbLocations d @ [stored_location now loc]\<rparr>"
    and can: "insertable (ledger_of d) loc"
    using assms(2)
    by (auto simp: sqlite_InsertObjectLocation_def insertable_def known_iff list_ex_iff split: if_splits)
  have "schema_ok d'"
    using assms(1) can schema_okD(3) [OF assms(1)] unfolding d'
    by (intro schema_ok_locations)
      (auto simp: schema_okD(1,2) stored_location_def insertable_def known_iff)
  moreover have "ledger_of d' = with_copy now loc (ledger_of d)"
    unfolding d' by (simp add: with_copy_def ledger_of_def capacity_flags_def fun_eq_iff)
  ultimately show ?thesis using can by simp
qed

lemma insert_location_live_law:
  "insertable (ledger_of d) loc \<Longrightarrow> \<exists>d'. sqlite_InsertObjectLocation now loc d = Inr ((), d')"
  by (auto simp: sqlite_InsertObjectLocation_def insertable_def known_iff list_ex_iff)

lemma insert_if_absent_law:
  assumes "schema_ok d" and "sqlite_InsertObjectLocationIfNotExists now loc d = Inr (b, d')"
  shows "schema_ok d' \<and>
    b = (\<forall>l \<in># lgCopies (ledger_of d).
          \<not> (locObjectKey l = locObjectKey loc \<and> locBackendName l = locBackendName loc)) \<and>
    (b \<longrightarrow> insertable (ledger_of d) loc) \<and>
    ledger_of d' = (if b then with_copy now loc (ledger_of d) else ledger_of d)"
proof (cases "list_ex (\<lambda>l. locObjectKey l = locObjectKey loc \<and> locBackendName l = locBackendName loc) (dbLocations d)")
  case True
  then have "b = False" "d' = d"
    using assms(2)
    by (auto simp: sqlite_InsertObjectLocationIfNotExists_def objectExistsOnBackend_def tx_bind_Inr)
  with True assms(1) show ?thesis by (auto simp: list_ex_iff)
next
  case False
  then have b: "b = True" and ins: "sqlite_InsertObjectLocation now loc d = Inr ((), d')"
    using assms(2)
    by (auto simp: sqlite_InsertObjectLocationIfNotExists_def objectExistsOnBackend_def tx_bind_Inr)
  from False insert_location_law [OF assms(1) ins] show ?thesis
    by (auto simp: b list_ex_iff)
qed

lemma lock_object_law:
  "sqlite_LockObjectOnBackend k b d = Inr (r, d') \<Longrightarrow> d' = d \<and>
    (case r of
       None \<Rightarrow> \<forall>l \<in># lgCopies (ledger_of d). \<not> (locObjectKey l = k \<and> locBackendName l = b)
     | Some l \<Rightarrow> l \<in># lgCopies (ledger_of d) \<and> locObjectKey l = k \<and> locBackendName l = b)"
  by (auto simp: sqlite_LockObjectOnBackend_def find_None_iff find_Some_iff split: option.splits)

lemma schema_ok_queue:
  assumes "schema_ok d" and "distinct (map qrID q)" and "\<forall>r \<in> set q. qrID r \<le> n"
    and "\<forall>r \<in> set q. known d (crBackendName (qrRequest r))"
  shows "schema_ok (d\<lparr>dbQueue := q, dbQueueSeq := n\<rparr>)"
  using assms by (simp add: schema_ok_def known_def)

lemma schema_ok_queueD:
  assumes "schema_ok d"
  shows "distinct (map qrID (dbQueue d))" and "\<forall>r \<in> set (dbQueue d). qrID r \<le> dbQueueSeq d"
    and "\<forall>r \<in> set (dbQueue d). known d (crBackendName (qrRequest r))"
  using assms by (simp_all add: schema_ok_def)

lemma insert_cleanup_law:
  assumes "schema_ok d" and "sqlite_InsertCleanup now inst rs d = Inr (items, d')"
  shows "schema_ok d' \<and> map ciRequest items = rs \<and>
    (\<forall>it \<in> set items. ciClaim it = Some \<lparr>clAt = now, clBy = inst\<rparr>) \<and>
    ledger_of d' = (ledger_of d)\<lparr>lgQueued := lgQueued (ledger_of d) + mset rs\<rparr>"
  using assms
proof (induction now inst rs d arbitrary: items d' rule: sqlite_InsertCleanup.induct)
  case (2 now inst c cs d)
  let ?i = "Suc (dbQueueSeq d)"
  let ?row = "\<lparr>qrID = ?i, qrRequest = c, qrCreatedAt = now, qrNextRetry = now,
    qrAttempts = 0, qrLastError = [], qrClaimedAt = Some now, qrClaimedBy = inst\<rparr>"
  let ?d = "d\<lparr>dbQueue := dbQueue d @ [?row], dbQueueSeq := ?i\<rparr>"
  from "2.prems"(2) obtain its where known: "known d (crBackendName c)"
    and rest: "sqlite_InsertCleanup now inst cs ?d = Inr (its, d')"
    and items: "items = \<lparr>ciRequest = c, ciID = ?i, ciAttempts = 0,
      ciClaim = Some \<lparr>clAt = now, clBy = inst\<rparr>, ciReclaimed = False\<rparr> # its"
    by (auto simp: Let_def split: if_splits sum.splits)
  have "schema_ok ?d"
    using schema_ok_queueD [OF "2.prems"(1)] known
    by (intro schema_ok_queue [OF "2.prems"(1)]) (auto simp: le_Suc_eq)
  with "2.IH" known rest
  have "schema_ok d' \<and> map ciRequest its = cs \<and>
      (\<forall>it \<in> set its. ciClaim it = Some \<lparr>clAt = now, clBy = inst\<rparr>) \<and>
      ledger_of d' = (ledger_of ?d)\<lparr>lgQueued := lgQueued (ledger_of ?d) + mset cs\<rparr>"
    by blast
  then show ?case
    by (simp add: items ledger_of_def capacity_flags_def fun_eq_iff)
qed simp

lemma insert_cleanup_live_law:
  "\<forall>r \<in> set rs. known d (crBackendName r) \<Longrightarrow>
   \<exists>items d'. sqlite_InsertCleanup now inst rs d = Inr (items, d')"
proof (induction now inst rs d rule: sqlite_InsertCleanup.induct)
  case (2 now inst c cs d)
  then show ?case by (fastforce simp: Let_def known_def split: sum.splits)
qed simp

lemma insert_tag_law:
  assumes "schema_ok d" and "sqlite_InsertObjectTag k tk tv d = Inr (u, d')"
  shows "schema_ok d' \<and> ledger_of d' = (ledger_of d)\<lparr>lgTags :=
    add_mset (k, \<lparr>tagKey = tk, tagValue = tv\<rparr>) (lgTags (ledger_of d))\<rparr>"
proof -
  have d': "d' = d\<lparr>dbTags := dbTags d @ [(k, \<lparr>tagKey = tk, tagValue = tv\<rparr>)]\<rparr>"
    and new: "\<not> list_ex (\<lambda>e. fst e = k \<and> tagKey (snd e) = tk) (dbTags d)"
    using assms(2) by (auto simp: sqlite_InsertObjectTag_def split: if_splits)
  have "(k, tk) \<notin> (\<lambda>e. (fst e, tagKey (snd e))) ` set (dbTags d)"
    using new by (auto simp: list_ex_iff)
  then have "schema_ok d'"
    using assms(1) unfolding d' by (simp add: schema_ok_def known_def)
  then show ?thesis
    unfolding d' by (simp add: ledger_of_def capacity_flags_def fun_eq_iff)
qed

lemma delete_tags_law:
  "schema_ok d \<Longrightarrow> sqlite_DeleteObjectTags ks d = Inr (u, d') \<Longrightarrow>
    schema_ok d' \<and> ledger_of d' =
      (ledger_of d)\<lparr>lgTags := filter_mset (\<lambda>e. fst e \<notin> set ks) (lgTags (ledger_of d))\<rparr>"
  by (clarsimp simp: sqlite_DeleteObjectTags_def)
    (simp add: schema_ok_def known_def ledger_of_def capacity_flags_def fun_eq_iff distinct_map_filter)

lemma adjust_stripe_law:
  assumes "schema_ok d" and "adjust_stripe c d = Inr (u, d')"
  shows "schema_ok d' \<and> ledger_of d' = with_charges [c] (ledger_of d)"
proof -
  have d': "d' = d\<lparr>dbStripes := AList.update (scBackend c, scStripe c)
      (alookup 0 (dbStripes d) (scBackend c, scStripe c) + scDelta c) (dbStripes d)\<rparr>"
    and new: "known d (scBackend c)"
    using assms(2) by (auto simp: adjust_stripe_def split: if_splits)
  have "\<forall>bi \<in> fst ` set (dbStripes d'). known d (fst bi)"
    using new assms(1) unfolding d' by (auto simp: dom_update schema_ok_def)
  then have "\<forall>e \<in> set (dbStripes d'). known d (fst (fst e))"
    by blast
  then have "schema_ok d'"
    using assms(1) unfolding d' by (simp add: schema_ok_def known_def)
  moreover have "ledger_of d' = with_charges [c] (ledger_of d)"
    unfolding d' ledger_of_def with_charges_def charge_sum_def
    using sum_where_update [OF schema_okD(7) [OF assms(1)], where P = "\<lambda>bi. fst bi = b" for b]
    by (simp add: capacity_flags_def fun_eq_iff)
  ultimately show ?thesis ..
qed

lemma with_charges_Cons: "with_charges (c # cs) L = with_charges cs (with_charges [c] L)"
  by (simp add: with_charges_def charge_sum_def add.assoc)

lemma adjust_stripes_law:
  "schema_ok d \<Longrightarrow> sqlite_AdjustQuotaStripes cs d = Inr (u, d') \<Longrightarrow>
    schema_ok d' \<and> ledger_of d' = with_charges cs (ledger_of d)"
proof (induction cs arbitrary: d)
  case Nil
  then show ?case
    by (simp add: sqlite_AdjustQuotaStripes_def with_charges_def charge_sum_def)
next
  case (Cons c cs)
  then obtain d1 where "adjust_stripe c d = Inr ((), d1)" "sqlite_AdjustQuotaStripes cs d1 = Inr (u, d')"
    by (auto simp: sqlite_AdjustQuotaStripes_def tx_bind_Inr)
  with Cons adjust_stripe_law [of d c "()" d1] show ?case
    unfolding with_charges_Cons [of c cs] by metis
qed

lemma adjust_live_law:
  "\<forall>c \<in> set cs. known d (scBackend c) \<Longrightarrow> \<exists>d'. sqlite_AdjustQuotaStripes cs d = Inr ((), d')"
proof (induction cs arbitrary: d)
  case Nil
  then show ?case by (simp add: sqlite_AdjustQuotaStripes_def tx_return_def)
next
  case (Cons c cs)
  then obtain d1 where d1: "adjust_stripe c d = Inr ((), d1)" "\<forall>b. known d1 b = known d b"
    by (auto simp: adjust_stripe_def known_def)
  with Cons show ?case
    by (simp add: sqlite_AdjustQuotaStripes_def tx_bind_def)
qed

lemma upsert_part_law:
  assumes "schema_ok d" and "sqlite_UpsertPart now p d = Inr (r, d')"
  shows "schema_ok d' \<and>
    image_mset (\<lambda>e. part_location (snd e)) (filter_mset
      (\<lambda>e. fst e = rpUploadID p \<and> mpPartNumber (snd e) = rpPartNumber p) (lgParts (ledger_of d)))
      = (case r of None \<Rightarrow> {#} | Some q \<Rightarrow> {#q#}) \<and>
    ledger_of d' = (ledger_of d)\<lparr>lgParts := add_mset (rpUploadID p, stored_part now p) (filter_mset
      (\<lambda>e. \<not> (fst e = rpUploadID p \<and> mpPartNumber (snd e) = rpPartNumber p)) (lgParts (ledger_of d)))\<rparr>"
proof -
  let ?same = "\<lambda>e. fst e = rpUploadID p \<and> mpPartNumber (snd e) = rpPartNumber p"
  let ?new = "(rpUploadID p, stored_part now p)"
  let ?key = "\<lambda>e :: string \<times> MultipartPart. (fst e, mpPartNumber (snd e))"
  have num: "mpPartNumber (stored_part now p) = rpPartNumber p"
    by (simp add: stored_part_def)
  have upl: "rpUploadID p \<in> upUploadID ` set (dbUploads d)"
    using assms(2) by (auto simp: sqlite_UpsertPart_def Let_def list_ex_iff intro: image_eqI [OF sym] split: if_splits)
  have parts: "schema_ok (d\<lparr>dbParts := ps\<rparr>)"
    if "distinct (map ?key ps)" "\<forall>e \<in> set ps. fst e \<in> upUploadID ` set (dbUploads d)" for ps
    using assms(1) that by (simp add: schema_ok_def known_def)
  have dist: "distinct (map ?key (dbParts d))"
    and refs: "\<forall>e \<in> set (dbParts d). fst e \<in> upUploadID ` set (dbUploads d)"
    using assms(1) by (simp_all add: schema_ok_def)
  have led: "ledger_of (d\<lparr>dbParts := ps\<rparr>) = (ledger_of d)\<lparr>lgParts := mset ps\<rparr>" for ps
    by (simp add: ledger_of_def capacity_flags_def fun_eq_iff)
  show ?thesis
  proof (cases "filter ?same (dbParts d)")
    case Nil
    then have none: "\<And>e. e \<in> set (dbParts d) \<Longrightarrow> \<not> ?same e"
      by (auto simp: filter_empty_conv)
    have r: "r = None" "d' = d\<lparr>dbParts := dbParts d @ [?new]\<rparr>"
      using assms(2) Nil by (auto simp: sqlite_UpsertPart_def Let_def split: if_splits)
    have "(rpUploadID p, rpPartNumber p) \<notin> ?key ` set (dbParts d)"
      by (auto dest: none)
    then have "distinct (map ?key (dbParts d @ [?new]))"
      using dist num by simp
    then have "schema_ok d'"
      unfolding r using refs upl by (intro parts) auto
    moreover have "filter_mset ?same (mset (dbParts d)) = {#}"
      "filter_mset (\<lambda>e. \<not> ?same e) (mset (dbParts d)) = mset (dbParts d)"
      using none by (auto simp: filter_mset_none filter_mset_eq_conv)
    ultimately show ?thesis
      by (simp add: r led)
  next
    case (Cons q rest)
    then have q: "q \<in> set (dbParts d)" "?same q"
      by (auto dest: filter_eq_ConsD)
    have uniq: "unique_by ?key (mset (dbParts d))"
      using dist by simp
    have single: "filter_mset ?same (mset (dbParts d)) = {#q#}"
      using unique_by_single [OF uniq, of q] q by (simp add: conj_commute eq_commute)
    have r: "r = Some (part_location (snd q))"
      "d' = d\<lparr>dbParts := map (\<lambda>e. if ?same e then ?new else e) (dbParts d)\<rparr>"
      using assms(2) Cons by (auto simp: sqlite_UpsertPart_def Let_def split: if_splits)
    have keys: "map ?key (map (\<lambda>e. if ?same e then ?new else e) (dbParts d)) = map ?key (dbParts d)"
      using num by auto
    have "schema_ok d'"
      unfolding r
    proof (rule parts)
      show "distinct (map ?key (map (\<lambda>e. if ?same e then ?new else e) (dbParts d)))"
        using dist by (simp only: keys)
    qed (use refs upl in auto)
    moreover have "mset (map (\<lambda>e. if ?same e then ?new else e) xs) =
        image_mset (\<lambda>_. ?new) (filter_mset ?same (mset xs)) + filter_mset (\<lambda>e. \<not> ?same e) (mset xs)" for xs
      by (induction xs) auto
    ultimately show ?thesis
      using single by (simp add: r led)
  qed
qed

lemma delete_upload_law:
  assumes "schema_ok d" and "sqlite_DeleteMultipartUpload i d = Inr (r, d')"
  shows "schema_ok d' \<and>
    mset r = image_mset (\<lambda>e. part_location (snd e))
      (filter_mset (\<lambda>e. fst e = i) (lgParts (ledger_of d))) \<and>
    ledger_of d' = (ledger_of d)\<lparr>lgParts := filter_mset (\<lambda>e. fst e \<noteq> i) (lgParts (ledger_of d)),
      lgUpload := (lgUpload (ledger_of d))(i := None)\<rparr>"
proof -
  have r: "r = map (\<lambda>e. part_location (snd e)) (filter (\<lambda>e. fst e = i) (dbParts d))"
    and d': "d' = d\<lparr>dbParts := filter (\<lambda>e. fst e \<noteq> i) (dbParts d),
      dbUploads := filter (\<lambda>u. upUploadID u \<noteq> i) (dbUploads d)\<rparr>"
    using assms(2) by (auto simp: sqlite_DeleteMultipartUpload_def)
  have "upUploadID ` set (dbUploads d') = upUploadID ` set (dbUploads d) - {i}"
    unfolding d' by auto
  then have "\<forall>e \<in> set (dbParts d'). fst e \<in> upUploadID ` set (dbUploads d')"
    using assms(1) unfolding d' by (auto simp: schema_ok_def)
  moreover have "distinct (map upUploadID (dbUploads d'))"
    "distinct (map (\<lambda>e. (fst e, mpPartNumber (snd e))) (dbParts d'))"
    using assms(1) unfolding d' by (simp_all add: schema_ok_def distinct_map_filter)
  ultimately have "schema_ok d'"
    using assms(1) unfolding d' by (simp add: schema_ok_def known_def)
  moreover have "find (\<lambda>u. upUploadID u = k) (filter (\<lambda>u. upUploadID u \<noteq> i) us) =
      (if k = i then None else find (\<lambda>u. upUploadID u = k) us)" for k and us :: "UploadRow list"
    by (induction us) auto
  then have "ledger_of d' = (ledger_of d)\<lparr>lgParts := filter_mset (\<lambda>e. fst e \<noteq> i) (lgParts (ledger_of d)),
      lgUpload := (lgUpload (ledger_of d))(i := None)\<rparr>"
    unfolding d' by (simp add: ledger_of_def capacity_flags_def fun_eq_iff)
  ultimately show ?thesis
    by (simp add: r)
qed

lemma update_metadata_law:
  assumes "schema_ok d" and "sqlite_UpdateCopyMetadata now loc p d = Inr (u, d')"
  shows "schema_ok d' \<and> ledger_of d' = (ledger_of d)\<lparr>lgCopies := image_mset
    (\<lambda>l. if locObjectKey l = locObjectKey loc \<and> locBackendName l = locBackendName loc \<and>
            locStorageKey l = locStorageKey loc then patched now p l else l) (lgCopies (ledger_of d))\<rparr>"
proof -
  let ?f = "\<lambda>l. if names_copy loc l then patched now p l else l"
  have d': "d' = d\<lparr>dbLocations := map ?f (dbLocations d)\<rparr>"
    using assms(2) by (auto simp: sqlite_UpdateCopyMetadata_def split: if_splits)
  have keep: "locObjectKey (?f l) = locObjectKey l" "locBackendName (?f l) = locBackendName l"
    "locStorageKey (?f l) = locStorageKey l" for l
    by (simp_all add: patched_def Let_def split: option.splits)
  have "schema_ok d'"
    unfolding d'
  proof (rule schema_ok_locations [OF assms(1)])
    show "distinct (map (\<lambda>l. (locObjectKey l, locBackendName l)) (map ?f (dbLocations d)))"
      "distinct (map (\<lambda>l. (locBackendName l, locStorageKey l)) (map ?f (dbLocations d)))"
      using schema_okD(1,2) [OF assms(1)] by (simp_all only: map_map comp_def keep)
    show "\<forall>l \<in> set (map ?f (dbLocations d)). known d (locBackendName l)"
      using schema_okD(3) [OF assms(1)] by (simp only: set_map ball_simps keep)
  qed
  then show ?thesis
    unfolding d' by (simp add: ledger_of_def capacity_flags_def fun_eq_iff names_copy_def)
qed

subsection \<open>The interpretation\<close>

lemma sqlite_adapter_sel [simp]:
  "txAcquireKeyLock (sqlite_adapter now inst) = sqlite_AcquireKeyLock"
  "txAcquireBackendLock (sqlite_adapter now inst) = sqlite_AcquireBackendLock"
  "txInsertPendingIfFits (sqlite_adapter now inst) = sqlite_InsertPendingIfFits now"
  "txClaimPending (sqlite_adapter now inst) = sqlite_ClaimPending"
  "txDeletePending (sqlite_adapter now inst) = sqlite_DeletePending"
  "txClearPendingForKey (sqlite_adapter now inst) = sqlite_ClearPendingForKey"
  "txGetExistingCopiesForUpdate (sqlite_adapter now inst) = sqlite_GetExistingCopiesForUpdate"
  "txInsertObjectLocation (sqlite_adapter now inst) = sqlite_InsertObjectLocation now"
  "txDeleteObjectCopies (sqlite_adapter now inst) = sqlite_DeleteObjectCopies"
  "txListedPathStates (sqlite_adapter now inst) = sqlite_ListedPathStates"
  "txLockObjectOnBackend (sqlite_adapter now inst) = sqlite_LockObjectOnBackend"
  "txDeleteObjectFromBackend (sqlite_adapter now inst) = sqlite_DeleteObjectFromBackend"
  "txUpdateCopyMetadata (sqlite_adapter now inst) = sqlite_UpdateCopyMetadata now"
  "txInsertObjectLocationIfNotExists (sqlite_adapter now inst) = sqlite_InsertObjectLocationIfNotExists now"
  "txInsertCleanup (sqlite_adapter now inst) = sqlite_InsertCleanup now inst"
  "txInsertObjectTag (sqlite_adapter now inst) = sqlite_InsertObjectTag"
  "txDeleteObjectTags (sqlite_adapter now inst) = sqlite_DeleteObjectTags"
  "txAdjustQuotaStripes (sqlite_adapter now inst) = sqlite_AdjustQuotaStripes"
  "txLockMultipartUpload (sqlite_adapter now inst) = sqlite_LockMultipartUpload"
  "txUpsertPart (sqlite_adapter now inst) = sqlite_UpsertPart now"
  "txDeleteMultipartUpload (sqlite_adapter now inst) = sqlite_DeleteMultipartUpload"
  by (simp_all add: sqlite_adapter_def)

lemmas sqlite_read_defs =
  sqlite_AcquireKeyLock_def sqlite_AcquireBackendLock_def sqlite_ClaimPending_def
  sqlite_DeletePending_def sqlite_ClearPendingForKey_def sqlite_DeleteObjectCopies_def
  sqlite_DeleteObjectFromBackend_def sqlite_ListedPathStates_def sqlite_LockMultipartUpload_def

interpretation sq: tx_engine "sqlite_adapter now inst" schema_ok ledger_of now inst for now inst
proof (unfold_locales, unfold sqlite_adapter_sel, goal_cases)
  case 1 then show ?case by (rule schema_ok_ledger_ok)
next
  case 2 then show ?case by (simp add: sqlite_read_defs)
next
  case 3 then show ?case by (simp add: sqlite_read_defs)
next
  case 4 then show ?case by - (rule insert_pending_law)
next
  case 5 then show ?case by (auto simp: sqlite_read_defs holds_intent_def list_ex_iff)
next
  case (6 i s u t) then show ?case using delete_pending_law [of s] by (auto simp: sqlite_read_defs)
next
  case (7 keep ks s cleared t) then show ?case
    using delete_pending_law [of s] by (auto simp: sqlite_read_defs Let_def simp flip: mset_filter)
next
  case 8 then show ?case using existing_copies_law by blast
next
  case 9 then show ?case by - (rule insert_location_law)
next
  case (10 ks s u t) then show ?case using delete_locations_law [of s] by (auto simp: sqlite_read_defs)
next
  case 11 then show ?case by (auto simp: sqlite_read_defs listed_states_eq split: if_splits)
next
  case 12 then show ?case using lock_object_law by blast
next
  case (13 k bk s u t) then show ?case using delete_locations_law [of s] by (auto simp: sqlite_read_defs)
next
  case 14 then show ?case by - (rule insert_if_absent_law)
next
  case (15 rs s items t) then show ?case using insert_cleanup_law [of s] by (metis mset_map)
next
  case 16 then show ?case by - (rule insert_tag_law)
next
  case 17 then show ?case by - (rule delete_tags_law)
next
  case 18 then show ?case by - (rule adjust_stripes_law)
next
  case 19 then show ?case by (auto simp: sqlite_read_defs upload_mark_def split: option.splits)
next
  case 20 then show ?case by - (rule upsert_part_law)
next
  case 21 then show ?case by - (rule delete_upload_law)
next
  case 22 then show ?case by - (rule update_metadata_law)
qed

interpretation sq_live: live_engine "sqlite_adapter now inst" schema_ok ledger_of now inst for now inst
proof (unfold_locales, unfold sqlite_adapter_sel, goal_cases)
  case 8 then show ?case by (blast intro: insert_location_live_law)
next
  case 9 then show ?case by (auto simp: sqlite_InsertObjectTag_def list_ex_iff)
next
  case 10 then show ?case by (intro insert_cleanup_live_law) (simp add: known_iff)
next
  case 11 then show ?case by (intro adjust_live_law) (simp add: known_iff)
qed (auto simp: sqlite_read_defs tx_return_def Let_def sqlite_GetExistingCopiesForUpdate_def
    sqlite_DeleteObjectTags_def)

end
