(* ===== verification/StoreRefinement.thy ===== *)
theory StoreRefinement
  imports StoreSpec SqliteEngine
begin

text \<open>
  The operations of \<open>store/core\<close> implement the ledger functions of \<open>StoreSpec\<close> on
  every engine that keeps the contract \<open>tx_engine\<close>; the properties at the end are the
  refinement on the SQLite engine.
\<close>

subsection \<open>Loops over maps\<close>

lemma quotaDeltas_lookup [simp]:
  "alookup 0 (quotaDeltas_add q b x) b' = alookup 0 q b' + (if b = b' then x else 0)"
  by (simp add: quotaDeltas_add_def)

lemma quotaDeltas_distinct [simp]:
  "distinct (map fst q) \<Longrightarrow> distinct (map fst (quotaDeltas_add q b x))"
  unfolding quotaDeltas_add_def by (rule distinct_update)

lemma stripeDeltas_lookup [simp]:
  "alookup 0 (stripeDeltas_add d key b x) bi =
     alookup 0 d bi + (if bi = (b, StripeFor key) then x else 0)"
  by (auto simp: stripeDeltas_add_def)

lemma stripeDeltas_distinct [simp]:
  "distinct (map fst d) \<Longrightarrow> distinct (map fst (stripeDeltas_add d key b x))"
  unfolding stripeDeltas_add_def by (rule distinct_update)

lemma stripeDeltas_total:
  "distinct (map fst d) \<Longrightarrow>
   sum_where (\<lambda>e. fst (fst e) = b') snd (stripeDeltas_add d key b x) =
     sum_where (\<lambda>e. fst (fst e) = b') snd d + (if b = b' then x else 0)"
  unfolding stripeDeltas_add_def
  using sum_where_update [of d "\<lambda>bi. fst bi = b'"] by simp

lemma foldl_stripes:
  assumes "distinct (map fst d)"
  shows "distinct (map fst (foldl (\<lambda>d r. stripeDeltas_add d (f r) (g r) (h r)) d rows))"
    and "alookup 0 (foldl (\<lambda>d r. stripeDeltas_add d (f r) (g r) (h r)) d rows) bi =
      alookup 0 d bi + sum_where (\<lambda>r. g r = fst bi \<and> StripeFor (f r) = snd bi) h rows"
    and "sum_where (\<lambda>e. fst (fst e) = b) snd (foldl (\<lambda>d r. stripeDeltas_add d (f r) (g r) (h r)) d rows) =
      sum_where (\<lambda>e. fst (fst e) = b) snd d + sum_where (\<lambda>r. g r = b) h rows"
  using assms
  by (induction rows arbitrary: d) (auto simp: stripeDeltas_total)

lemma foldl_quota:
  assumes "distinct (map fst q)"
  shows "distinct (map fst (foldl (\<lambda>q r. quotaDeltas_add q (g r) (h r)) q rows))"
    and "alookup 0 (foldl (\<lambda>q r. quotaDeltas_add q (g r) (h r)) q rows) b =
      alookup 0 q b + sum_where (\<lambda>r. g r = b) h rows"
  using assms by (induction rows arbitrary: q) auto

text \<open>Grouping by key: \<open>m[k] = append(m[k], v)\<close> over a list.\<close>

lemma foldl_group:
  shows "alookup [] (foldl (\<lambda>m r. if skip r then m
      else AList.update (f r) (alookup [] m (f r) @ [g r]) m) m rows) k =
      alookup [] m k @ map g (filter (\<lambda>r. \<not> skip r \<and> f r = k) rows)"
    and "fst ` set (foldl (\<lambda>m r. if skip r then m
      else AList.update (f r) (alookup [] m (f r) @ [g r]) m) m rows) =
      fst ` set m \<union> f ` set (filter (\<lambda>r. \<not> skip r) rows)"
    and "distinct (map fst m) \<Longrightarrow> distinct (map fst (foldl (\<lambda>m r. if skip r then m
      else AList.update (f r) (alookup [] m (f r) @ [g r]) m) m rows))"
  by (induction rows arbitrary: m) (auto simp: dom_update)

lemma concat_groups:
  assumes "distinct ks"
  shows "mset (concat (map (\<lambda>k. map (g k) (filter (\<lambda>r. f r = k) rows)) ks)) =
    image_mset (\<lambda>r. g (f r) r) (filter_mset (\<lambda>r. f r \<in> set ks) (mset rows))"
  using assms
proof (induction ks)
  case Nil
  then show ?case by simp
next
  case (Cons k ks)
  have "filter_mset (\<lambda>r. f r \<in> set (k # ks)) (mset rows) =
      filter_mset (\<lambda>r. f r = k) (mset rows) + filter_mset (\<lambda>r. f r \<in> set ks) (mset rows)"
    using Cons.prems by (induction rows) auto
  moreover have "image_mset (\<lambda>r. g (f r) r) (filter_mset (\<lambda>r. f r = k) (mset rows)) =
      image_mset (g k) (filter_mset (\<lambda>r. f r = k) (mset rows))"
    by (intro image_mset_cong) simp
  ultimately show ?case
    using Cons by simp
qed

subsection \<open>Charges\<close>

lemma charges_of_sum:
  assumes "distinct (map fst d)"
  shows "charge_sum P (charges_of d) = sum_where (\<lambda>e. P \<lparr>scBackend = fst (fst e), scStripe = snd (fst e), scDelta = snd e\<rparr>) snd d"
proof -
  let ?c = "\<lambda>row. \<lparr>scBackend = fst row, scStripe = snd row, scDelta = alookup 0 d row\<rparr>"
  have "charge_sum P (charges_of d) = sum_where (\<lambda>row. P (?c row)) (alookup 0 d)
      (filter (\<lambda>row. alookup 0 d row \<noteq> 0) (sort (map fst d)))"
    unfolding charge_sum_def charges_of_def by (simp add: sum_where_def filter_map comp_def)
  also have "\<dots> = sum_where (\<lambda>row. P (?c row)) (alookup 0 d) (sort (map fst d))"
  proof -
    have "sum_where Q f (filter (\<lambda>x. f x \<noteq> 0) xs) = sum_where Q f xs" for Q f and xs :: "(string \<times> nat) list"
      by (induction xs) auto
    then show ?thesis .
  qed
  also have "\<dots> = sum_where (\<lambda>row. P (?c row)) (alookup 0 d) (map fst d)"
    by (rule sum_where_mset) simp
  also have "\<dots> = sum_where (\<lambda>e. P (?c (fst e))) (\<lambda>e. alookup 0 d (fst e)) d"
    by (simp add: sum_where_def filter_map comp_def)
  also have "\<dots> = sum_where (\<lambda>e. P \<lparr>scBackend = fst (fst e), scStripe = snd (fst e), scDelta = snd e\<rparr>) snd d"
    using assms by (intro sum_where_cong) (auto simp: alookup_def)
  finally show ?thesis .
qed

subsection \<open>The shared steps, on any engine\<close>

text \<open>The rows an operation returns are exactly the rows it queued, claimed by this instance.\<close>

definition reports :: "time \<Rightarrow> string \<Rightarrow> ledger \<Rightarrow> ledger \<Rightarrow> CleanupItem list \<Rightarrow> bool" where
  "reports now inst L L' items \<longleftrightarrow>
     lgQueued L' = lgQueued L + image_mset ciRequest (mset items) \<and>
     (\<forall>it \<in> set items. ciClaim it = Some \<lparr>clAt = now, clBy = inst\<rparr>)"

context tx_engine
begin

lemma queueCleanup_spec:
  "\<lbrakk>queueCleanup a rs s = Inr (items, t); ok s\<rbrakk> \<Longrightarrow>
   ok t \<and> view t = queued (mset rs) (view s) \<and> reports now inst (view s) (view t) items"
  by (auto simp: queueCleanup_def queued_def reports_def split: if_splits dest: insert_cleanup)

lemma enqueueRemoved_spec:
  "\<lbrakk>enqueueRemoved a k reason rs s = Inr (items, t); ok s\<rbrakk> \<Longrightarrow>
   ok t \<and> view t = queued (image_mset (\<lambda>d. removedCopy_request d k reason) (mset rs)) (view s) \<and>
   reports now inst (view s) (view t) items"
  unfolding enqueueRemoved_def using queueCleanup_spec by fastforce

lemma dropIntent_spec:
  "\<lbrakk>dropIntent a p reason s = Inr (items, t); ok s\<rbrakk> \<Longrightarrow>
   ok t \<and> view t = spec_drop reason p (view s) \<and> reports now inst (view s) (view t) items"
  by (auto simp: dropIntent_def tx_bind_Inr spec_drop_def queued_def removedCopy_request_def
      intentBytes_def intent_cleanup_def reports_def dest!: delete_pending enqueueRemoved_spec)

lemma intentsHeld_spec:
  "\<lbrakk>intentsHeld a ids s = Inr (held, t); ok s\<rbrakk> \<Longrightarrow>
   ok t \<and> view t = view s \<and> held = all_held (view s) ids"
proof (induction ids arbitrary: s)
  case (Cons i ids)
  show ?case
  proof (cases "i = []")
    case True
    with Cons show ?thesis by (auto simp: all_held_def)
  next
    case False
    with Cons.prems(1) obtain b u where "txClaimPending a i s = Inr (b, u)"
      "(if \<not> b then tx_return False else intentsHeld a ids) u = Inr (held, t)"
      by (auto simp: tx_bind_Inr)
    with False Cons.IH [of u] Cons.prems(2) claim_pending [of i s b u] show ?thesis
      by (auto simp: all_held_def split: if_splits)
  qed
qed (simp add: all_held_def)

lemma keyIntentsHeld_spec:
  "\<lbrakk>keyIntentsHeld a k ids s = Inr (held, t); ok s\<rbrakk> \<Longrightarrow>
   ok t \<and> view t = view s \<and> held = all_held (view s) ids"
  unfolding keyIntentsHeld_def
  by (auto simp: tx_bind_Inr dest!: key_lock intentsHeld_spec)

lemma charge_spec:
  assumes "charge a d s = Inr (u, t)" "ok s" "distinct (map fst d)"
  shows "ok t \<and> view t = (view s)\<lparr>
    lgStripe := (\<lambda>bi. lgStripe (view s) bi + alookup 0 d bi),
    lgUsed := (\<lambda>b. lgUsed (view s) b + sum_where (\<lambda>e. fst (fst e) = b) snd d)\<rparr>"
proof -
  have "ok t \<and> view t = with_charges (charges_of d) (view s)"
    using assms(1,2)
    by (auto simp: charge_def Let_def with_charges_def charge_sum_def split: if_splits dest: adjust_stripes)
  moreover have "charge_sum (\<lambda>c. (scBackend c, scStripe c) = bi) (charges_of d) = alookup 0 d bi" for bi
    using assms(3) by (simp add: charges_of_sum sum_where_key)
  ultimately show ?thesis
    using assms(3) by (simp add: with_charges_def charges_of_sum)
qed

lemma chargeStripes_spec:
  assumes "chargeStripes a k deltas s = Inr (u, t)" "ok s" "distinct (map fst deltas)"
  shows "ok t \<and> view t = charged k (alookup 0 deltas) (view s)"
proof -
  note rows = foldl_stripes [where d = "[]" and f = "\<lambda>e :: string \<times> int. k" and g = fst
    and h = snd and rows = deltas, simplified]
  have key: "sum_where (\<lambda>e. fst e = b) snd deltas = alookup 0 deltas b" for b
    using assms(3) by (rule sum_where_key)
  have "sum_where (\<lambda>e. fst e = fst bi \<and> StripeFor k = snd bi) snd deltas =
      (if snd bi = StripeFor k then alookup 0 deltas (fst bi) else 0)" for bi
    by (auto simp: key [symmetric] intro!: sum_where_cong sum_where_none)
  then show ?thesis
    using charge_spec [OF assms(1) [unfolded chargeStripes_def] assms(2)] rows key
    by (simp add: stripe_rows_def charged_def)
qed

lemma tags_spec:
  "\<lbrakk>tx_each (\<lambda>t. tx_wrap (m t)
      (txInsertObjectTag a k (tagKey t) (tagValue t))) tags s = Inr (u, t); ok s\<rbrakk> \<Longrightarrow>
   ok t \<and> view t = (view s)\<lparr>lgTags := lgTags (view s) + image_mset (Pair k) (mset tags)\<rparr>"
proof (induction tags arbitrary: s)
  case (Cons tag tags)
  then obtain s1 where "txInsertObjectTag a k (tagKey tag) (tagValue tag) s = Inr ((), s1)"
    and rest: "tx_each (\<lambda>t. tx_wrap (m t)
      (txInsertObjectTag a k (tagKey t) (tagValue t))) tags s1 = Inr (u, t)"
    by (auto simp: tx_bind_Inr)
  with Cons.prems(2) have "ok s1 \<and> view s1 = (view s)\<lparr>lgTags := add_mset (k, tag) (lgTags (view s))\<rparr>"
    using insert_tag by fastforce
  with Cons.IH [OF rest] show ?case by simp
qed simp

lemma replaceObjectTagsTx_spec:
  "\<lbrakk>replaceObjectTagsTx a k tags s = Inr (u, t); ok s\<rbrakk> \<Longrightarrow> ok t \<and> view t = retagged k tags (view s)"
  by (auto simp: replaceObjectTagsTx_def clearTagsForKey_def tx_bind_Inr retagged_def
      dest!: delete_tags tags_spec)

lemma clearExistingCopies_spec:
  assumes "clearExistingCopies a k existing deltas s = Inr ((displaced, deltas'), t)" "ok s"
    and ex: "mset existing = image_mset existing_of (copies_of (view s) k)"
    and "distinct (map fst deltas)"
  shows "ok t \<and> view t = without_copies (\<lambda>l. locObjectKey l = k) (view s) \<and>
    displaced = removedFromExisting existing \<and> distinct (map fst deltas') \<and>
    (\<forall>b. alookup 0 deltas' b = alookup 0 deltas b - bytes_on b (copies_of (view s) k))"
proof -
  have sum: "sum_where (\<lambda>ec. ecBackendName ec = b) (\<lambda>ec. - ecSizeBytes ec) existing =
      - bytes_on b (copies_of (view s) k)" for b
  proof -
    have "sum_where (\<lambda>ec. ecBackendName ec = b) (\<lambda>ec. - ecSizeBytes ec) existing =
        bytes_where (\<lambda>ec. ecBackendName ec = b) (\<lambda>ec. - ecSizeBytes ec) (mset existing)"
      by (rule bytes_where_mset [symmetric])
    also have "\<dots> = - bytes_on b (copies_of (view s) k)"
      unfolding bytes_on_def ex bytes_where_image by (simp add: existing_of_def)
    finally show ?thesis .
  qed
  show ?thesis
  proof (cases "existing = []")
    case True
    then have none: "copies_of (view s) k = {#}"
      using ex by simp
    then have "filter_mset (\<lambda>l. locObjectKey l \<noteq> k) (lgCopies (view s)) = lgCopies (view s)"
      unfolding copies_of_def by (rule filter_mset_rest)
    with True none assms show ?thesis
      by (simp add: clearExistingCopies_def removedFromExisting_def without_copies_def bytes_on_def)
  next
    case False
    with assms(1) obtain u where "txDeleteObjectCopies a [k] s = Inr (u, t)"
      "displaced = removedFromExisting existing"
      "deltas' = foldl (\<lambda>q ec. quotaDeltas_add q (ecBackendName ec) (- ecSizeBytes ec)) deltas existing"
      by (auto simp: clearExistingCopies_def tx_bind_Inr)
    with delete_copies [OF _ assms(2)] foldl_quota [OF assms(4), where g = ecBackendName
        and h = "\<lambda>ec. - ecSizeBytes ec" and rows = existing] sum show ?thesis
      by (simp add: without_copies_def)
  qed
qed

end

subsection \<open>Recording an object\<close>

lemma group_superseded_lookup:
  "alookup [] (group_superseded committing cleared) k =
     map (\<lambda>si. \<lparr>rcBackendName = siBackendName si, rcStorageKey = siStorageKey si,
                rcSizeBytes = siSizeBytes si, rcReason = CleanupReasonSupersededIntent\<rparr>)
       (filter (\<lambda>si. siIntentID si \<notin> set committing \<and> siObjectKey si = k) cleared)"
  unfolding group_superseded_def by (subst foldl_group(1)) simp

text \<open>What clearing a key's intents hands on for cleanup.\<close>

lemma superseded_requests:
  assumes "mset cleared = image_mset superseded_of M"
  shows "image_mset (\<lambda>d. removedCopy_request d k reason)
      (mset (alookup [] (group_superseded committing cleared) k)) =
    image_mset (intent_cleanup CleanupReasonSupersededIntent)
      (filter_mset (\<lambda>p. poObjectKey p = k \<and> poIntentID p \<notin> set committing) M)"
proof -
  have "image_mset (\<lambda>d. removedCopy_request d k reason)
      (mset (alookup [] (group_superseded committing cleared) k)) =
    image_mset (\<lambda>si. removedCopy_request \<lparr>rcBackendName = siBackendName si, rcStorageKey = siStorageKey si,
                rcSizeBytes = siSizeBytes si, rcReason = CleanupReasonSupersededIntent\<rparr> k reason)
      (filter_mset (\<lambda>si. siIntentID si \<notin> set committing \<and> siObjectKey si = k) (mset cleared))"
    by (simp add: group_superseded_lookup multiset.map_comp comp_def)
  also have "\<dots> = image_mset (\<lambda>p. removedCopy_request \<lparr>rcBackendName = poBackendName p,
      rcStorageKey = poStorageKey p, rcSizeBytes = poSizeBytes p,
      rcReason = CleanupReasonSupersededIntent\<rparr> k reason)
      (filter_mset (\<lambda>p. poObjectKey p = k \<and> poIntentID p \<notin> set committing) M)"
    unfolding assms
    by (simp add: filter_mset_image_mset multiset.map_comp comp_def superseded_of_def conj_commute)
  also have "\<dots> = image_mset (intent_cleanup CleanupReasonSupersededIntent)
      (filter_mset (\<lambda>p. poObjectKey p = k \<and> poIntentID p \<notin> set committing) M)"
    by (intro image_mset_cong)
      (auto simp: removedCopy_request_def intent_cleanup_def CleanupReasonSupersededIntent_def)
  finally show ?thesis .
qed

lemma displaced_requests:
  assumes "mset existing = image_mset existing_of (copies_of L k)"
  shows "image_mset (\<lambda>d. removedCopy_request d k reason) (mset (removedFromExisting existing)) =
    image_mset (copy_cleanup reason) (copies_of L k)"
proof -
  have "image_mset (\<lambda>d. removedCopy_request d k reason) (mset (removedFromExisting existing)) =
      image_mset (\<lambda>l. removedCopy_request \<lparr>rcBackendName = locBackendName l,
        rcStorageKey = locStorageKey l, rcSizeBytes = locSizeBytes l, rcReason = []\<rparr> k reason) (copies_of L k)"
    by (simp add: removedFromExisting_def assms multiset.map_comp comp_def existing_of_def)
  also have "\<dots> = image_mset (copy_cleanup reason) (copies_of L k)"
    by (intro image_mset_cong) (auto simp: removedCopy_request_def copy_cleanup_def copies_of_def)
  finally show ?thesis .
qed

context tx_engine
begin

lemma existing_spec:
  "\<lbrakk>txGetExistingCopiesForUpdate a [k] s = Inr (existing, t); ok s\<rbrakk> \<Longrightarrow>
   ok t \<and> view t = view s \<and> mset existing = image_mset existing_of (copies_of (view s) k)"
  by (auto simp: copies_of_def dest!: existing_copies)

lemma clearSupersededIntents_spec:
  "\<lbrakk>clearSupersededIntents a keep committing ks s = Inr (stale, t); ok s\<rbrakk> \<Longrightarrow>
   ok t \<and> view t = without_intents (\<lambda>p. poObjectKey p \<in> set ks \<and> poIntentID p \<notin> set keep) (view s) \<and>
   (\<forall>k reason. image_mset (\<lambda>d. removedCopy_request d k reason) (mset (alookup [] stale k)) =
     image_mset (intent_cleanup CleanupReasonSupersededIntent)
       (filter_mset (\<lambda>p. poObjectKey p = k \<and> poObjectKey p \<in> set ks \<and> poIntentID p \<notin> set keep \<and>
          poIntentID p \<notin> set committing) (lgIntents (view s))))"
  by (auto simp: clearSupersededIntents_def tx_bind_Inr without_intents_def superseded_requests
      filter_filter_mset conj_ac dest!: clear_pending)

lemma insert_copies_spec:
  "\<lbrakk>insert_copies a req cs deltas s = Inr (deltas', t); ok s; distinct (map fst deltas)\<rbrakk> \<Longrightarrow>
   ok t \<and> distinct (map fst deltas') \<and>
   view t = (view s)\<lparr>lgCopies := lgCopies (view s) + image_mset
     (\<lambda>c. stored_location now (ObjectFromStoredForm (rqKey req) (cpBackend c) (cpStorageKey c)
             (rqSize req) (rqForm req) (rqIdentity req))) (mset cs)\<rparr> \<and>
   (\<forall>b. alookup 0 deltas' b = alookup 0 deltas b + sum_where (\<lambda>c. cpBackend c = b) (\<lambda>_. rqSize req) cs)"
proof (induction cs arbitrary: deltas s)
  case (Cons c cs)
  then obtain s1 where "txInsertObjectLocation a (ObjectFromStoredForm (rqKey req) (cpBackend c)
      (cpStorageKey c) (rqSize req) (rqForm req) (rqIdentity req)) s = Inr ((), s1)"
    and rest: "insert_copies a req cs (quotaDeltas_add deltas (cpBackend c) (rqSize req)) s1 = Inr (deltas', t)"
    by (auto simp: tx_bind_Inr)
  with Cons.prems(2) have "ok s1 \<and> view s1 = with_copy now (ObjectFromStoredForm (rqKey req) (cpBackend c)
      (cpStorageKey c) (rqSize req) (rqForm req) (rqIdentity req)) (view s)"
    by (auto dest: insert_location)
  with Cons.IH [OF rest] Cons.prems(3) show ?case
    by (simp add: with_copy_def)
qed simp

lemma overtaken_copies_spec:
  "\<lbrakk>overtaken_copies a sz cs s = Inr (own, t); ok s\<rbrakk> \<Longrightarrow>
   ok t \<and> view t = without_intents (\<lambda>p. poIntentID p \<noteq> [] \<and> poIntentID p \<in> set (intentIDs cs)) (view s) \<and>
   own = map (\<lambda>c. \<lparr>rcBackendName = cpBackend c, rcStorageKey = cpStorageKey c, rcSizeBytes = sz,
                   rcReason = []\<rparr>) cs"
proof (induction cs arbitrary: s own)
  case Nil
  then show ?case by (simp add: without_intents_def intentIDs_def)
next
  case (Cons c cs)
  then obtain s1 own1 where del: "(if cpIntentID c \<noteq> []
      then tx_wrap ''delete overtaken intent'' (txDeletePending a (cpIntentID c)) else tx_return ()) s = Inr ((), s1)"
    and rest: "overtaken_copies a sz cs s1 = Inr (own1, t)"
    and own: "own = \<lparr>rcBackendName = cpBackend c, rcStorageKey = cpStorageKey c, rcSizeBytes = sz,
      rcReason = []\<rparr> # own1"
    by (auto simp: tx_bind_Inr)
  from del Cons.prems(2) have "ok s1 \<and> view s1 =
      without_intents (\<lambda>p. poIntentID p \<noteq> [] \<and> poIntentID p = cpIntentID c) (view s)"
    by (auto simp: without_intents_def split: if_splits dest!: delete_pending
        intro!: arg_cong [where f = "\<lambda>M. view s\<lparr>lgIntents := M\<rparr>"] filter_mset_cong)
  with Cons.IH [OF rest] own show ?case
    by (auto simp: without_intents_def intentIDs_def filter_filter_mset
        intro!: arg_cong [where f = "\<lambda>M. view s\<lparr>lgIntents := M\<rparr>"] filter_mset_cong)
qed

end

lemma sum_new_copies:
  "sum_where (\<lambda>c. cpBackend c = b) (\<lambda>_. rqSize req) (rqCopies req) = bytes_on b (new_copies now req)"
  unfolding bytes_on_def new_copies_def
  by (simp add: stored_location_def ObjectFromStoredForm_def)

lemma reports_from:
  "reports now inst L1 L' items \<Longrightarrow> lgQueued L1 = lgQueued L \<Longrightarrow> reports now inst L L' items"
  by (simp add: reports_def)

lemma upload_requests:
  "image_mset (\<lambda>d. removedCopy_request d (rqKey req) CleanupReasonSupersededIntent)
     (mset (map (\<lambda>c. \<lparr>rcBackendName = cpBackend c, rcStorageKey = cpStorageKey c,
        rcSizeBytes = rqSize req, rcReason = []\<rparr>) cs)) =
   image_mset (upload_cleanup req) (mset cs)"
  by (simp add: multiset.map_comp comp_def removedCopy_request_def upload_cleanup_def [abs_def])

context tx_engine
begin

lemma record_held_spec:
  assumes tx: "recordObjectTx a req s = Inr (items, t)" and "ok s"
    and held: "all_held (view s) (intentIDs (rqCopies req))"
  shows "ok t \<and> view t = spec_record now req (view s) \<and> reports now inst (view s) (view t) items"
proof -
  let ?k = "rqKey req"
  obtain h s1 where h: "keyIntentsHeld a ?k (intentIDs (rqCopies req)) s = Inr (h, s1)"
    using tx by (auto simp: recordObjectTx_def Let_def tx_bind_Inr)
  then have s1: "ok s1" "view s1 = view s" "h"
    using \<open>ok s\<close> held by (auto dest!: keyIntentsHeld_spec)
  with tx h obtain existing s2 displaced deltas s3 s4 deltas' s5 s6 superseded s7 where
    steps: "txGetExistingCopiesForUpdate a [?k] s1 = Inr (existing, s2)"
      "clearExistingCopies a ?k existing [] s2 = Inr ((displaced, deltas), s3)"
      "replaceObjectTagsTx a ?k (rqTags req) s3 = Inr ((), s4)"
      "insert_copies a req (rqCopies req) deltas s4 = Inr (deltas', s5)"
      "chargeStripes a ?k deltas' s5 = Inr ((), s6)"
      "clearSupersededIntents a (intentIDs (rqPlacing req)) (intentIDs (rqCopies req)) [?k] s6 = Inr (superseded, s7)"
      "enqueueRemoved a ?k CleanupReasonOverwritten (displaced @ alookup [] superseded ?k) s7 = Inr (items, t)"
    by (auto simp: recordObjectTx_def Let_def tx_bind_Inr)
  have s2: "ok s2" "view s2 = view s" and ex: "mset existing = image_mset existing_of (copies_of (view s) ?k)"
    using existing_spec [OF steps(1) s1(1)] s1(2) by auto
  have s3: "ok s3" "view s3 = without_copies (\<lambda>l. locObjectKey l = ?k) (view s)"
    "displaced = removedFromExisting existing" "distinct (map fst deltas)"
    "\<And>b. alookup 0 deltas b = - bytes_on b (copies_of (view s) ?k)"
    using clearExistingCopies_spec [OF steps(2) s2(1)] ex s2(2) by auto
  have s4: "ok s4" "view s4 = retagged ?k (rqTags req) (view s3)"
    using replaceObjectTagsTx_spec [OF steps(3) s3(1)] by auto
  have s5: "ok s5" "view s5 = (view s4)\<lparr>lgCopies := lgCopies (view s4) + new_copies now req\<rparr>"
    "distinct (map fst deltas')"
    "alookup 0 deltas' = (\<lambda>b. bytes_on b (new_copies now req) - bytes_on b (copies_of (view s) ?k))"
    using insert_copies_spec [OF steps(4) s4(1) s3(4), folded new_copies_def] s3(5)
    by (auto simp: sum_new_copies [where now = now] fun_eq_iff)
  have s6: "ok s6" "view s6 = charged ?k (alookup 0 deltas') (view s5)"
    using chargeStripes_spec [OF steps(5) s5(1,3)] by auto
  have int6: "lgIntents (view s6) = lgIntents (view s)"
    by (simp add: s6 s5 s4 s3 ledger_ops)
  have s7: "ok s7" "view s7 = without_intents
      (\<lambda>p. poObjectKey p = ?k \<and> poIntentID p \<notin> set (intentIDs (rqPlacing req))) (view s6)"
    and stale: "\<And>reason. image_mset (\<lambda>d. removedCopy_request d ?k reason) (mset (alookup [] superseded ?k)) =
      image_mset (intent_cleanup CleanupReasonSupersededIntent)
        (filter_mset (\<lambda>p. (poObjectKey p = ?k \<and> poIntentID p \<notin> set (intentIDs (rqPlacing req))) \<and>
           poIntentID p \<notin> set (intentIDs (rqCopies req))) (lgIntents (view s)))"
    using clearSupersededIntents_spec [OF steps(6) s6(1)] by (auto simp: int6 conj_assoc)
  have fin: "ok t" "view t = queued (image_mset (copy_cleanup CleanupReasonOverwritten) (copies_of (view s) ?k)
      + image_mset (intent_cleanup CleanupReasonSupersededIntent)
        (filter_mset (\<lambda>p. (poObjectKey p = ?k \<and> poIntentID p \<notin> set (intentIDs (rqPlacing req))) \<and>
           poIntentID p \<notin> set (intentIDs (rqCopies req))) (lgIntents (view s)))) (view s7)"
    and rep: "reports now inst (view s7) (view t) items"
    using enqueueRemoved_spec [OF steps(7) s7(1)] by (auto simp: s3(3) displaced_requests [OF ex] stale)
  have "view t = spec_record now req (view s)"
    using held
    unfolding fin(2) s7(2) s6(2) s5(2,4) s4(2) s3(2) spec_record_def Let_def ledger_ops
    by (simp add: add.assoc)
  moreover have "lgQueued (view s7) = lgQueued (view s)"
    by (simp add: s7(2) s6(2) s5(2) s4(2) s3(2) ledger_ops)
  ultimately show ?thesis
    using fin(1) reports_from [OF rep] by simp
qed

lemma recordObjectTx_spec:
  assumes tx: "recordObjectTx a req s = Inr (items, t)" and "ok s"
  shows "ok t \<and> view t = spec_record now req (view s) \<and> reports now inst (view s) (view t) items"
proof (cases "all_held (view s) (intentIDs (rqCopies req))")
  case True
  with assms show ?thesis by (rule record_held_spec)
next
  case False
  obtain h s1 where h: "keyIntentsHeld a (rqKey req) (intentIDs (rqCopies req)) s = Inr (h, s1)"
    using tx by (auto simp: recordObjectTx_def Let_def tx_bind_Inr)
  then have s1: "ok s1" "view s1 = view s" "\<not> h"
    using \<open>ok s\<close> False by (auto dest!: keyIntentsHeld_spec)
  with tx h obtain own s2 where own: "overtaken_copies a (rqSize req) (rqCopies req) s1 = Inr (own, s2)"
    and enq: "enqueueRemoved a (rqKey req) CleanupReasonSupersededIntent own s2 = Inr (items, t)"
    by (auto simp: recordObjectTx_def discardOvertakenWrite_def Let_def tx_bind_Inr)
  note s2 = overtaken_copies_spec [OF own s1(1)]
  note t = enqueueRemoved_spec [OF enq conjunct1 [OF s2]]
  have "lgQueued (view s2) = lgQueued (view s)"
    using s2 s1(2) by (simp add: without_intents_def)
  then have "reports now inst (view s) (view t) items"
    using t reports_from by blast
  moreover have "view t = spec_record now req (view s)"
    using s2 t s1(2) False
    by (simp add: upload_requests spec_record_def queued_def without_intents_def Let_def del: mset_map)
  ultimately show ?thesis using t by blast
qed

end

subsection \<open>Promotion, companions, discards\<close>

context tx_engine
begin

lemma all_held_single [simp]: "all_held L [i] \<longleftrightarrow> (i \<noteq> [] \<longrightarrow> holds_intent L i)"
  by (simp add: all_held_def)

lemma recordIntent_spec:
  assumes "recordIntent a p deltas s = Inr (u, t)" "ok s" "distinct (map fst deltas)"
  shows "ok t \<and> view t = without_intents (\<lambda>q. poIntentID q = poIntentID p)
    (charged (poObjectKey p) (\<lambda>b. alookup 0 deltas b + (if poBackendName p = b then poSizeBytes p else 0))
      ((view s)\<lparr>lgCopies := add_mset (intent_copy now p) (lgCopies (view s))\<rparr>))"
proof -
  let ?deltas = "quotaDeltas_add deltas (poBackendName p) (poSizeBytes p)"
  obtain s1 s2 where steps:
    "txInsertObjectLocation a (ObjectFromStoredForm (poObjectKey p) (poBackendName p) (poStorageKey p)
       (poSizeBytes p) (Some (poForm p)) (poIdentity p)) s = Inr ((), s1)"
    "chargeStripes a (poObjectKey p) ?deltas s1 = Inr ((), s2)"
    "txDeletePending a (poIntentID p) s2 = Inr (u, t)"
    using assms(1) by (auto simp: recordIntent_def Let_def tx_bind_Inr)
  have s1: "ok s1" "view s1 = (view s)\<lparr>lgCopies := add_mset (intent_copy now p) (lgCopies (view s))\<rparr>"
    using insert_location [OF steps(1) assms(2)] by (auto simp: with_copy_def intent_copy_def)
  have lookup: "alookup 0 ?deltas = (\<lambda>b. alookup 0 deltas b + (if poBackendName p = b then poSizeBytes p else 0))"
    by (simp add: fun_eq_iff)
  have s2: "ok s2" "view s2 = charged (poObjectKey p)
      (\<lambda>b. alookup 0 deltas b + (if poBackendName p = b then poSizeBytes p else 0)) (view s1)"
    using chargeStripes_spec [OF steps(2) s1(1)] assms(3) unfolding lookup by auto
  show ?thesis
    using delete_pending [OF steps(3) s2(1)] by (simp add: s2(2) s1(2) without_intents_def)
qed

lemma commitCompanionTx_spec:
  assumes "commitCompanionTx a p s = Inr ((result, items), t)" "ok s"
  shows "ok t \<and> (result, view t) = spec_companion now p (view s) \<and>
    reports now inst (view s) (view t) items"
proof -
  obtain held s1 where h: "keyIntentsHeld a (poObjectKey p) [poIntentID p] s = Inr (held, s1)"
    and rest: "(if \<not> held then discardUntrustedCopy a p
        else tx_bind (recordIntent a p []) (\<lambda>_. tx_return (CompanionCopyCommitted, []))) s1 = Inr ((result, items), t)"
    using assms(1) by (auto simp: commitCompanionTx_def tx_bind_Inr)
  have s1: "ok s1" "view s1 = view s" and held: "held \<longleftrightarrow> (poIntentID p \<noteq> [] \<longrightarrow> holds_intent (view s) (poIntentID p))"
    using keyIntentsHeld_spec [OF h assms(2)] by auto
  show ?thesis
  proof (cases held)
    case True
    with rest obtain s2 where "recordIntent a p [] s1 = Inr ((), t)" "result = CompanionCopyCommitted" "items = []"
      by (auto simp: tx_bind_Inr)
    with recordIntent_spec [of p "[]" s1 "()" t] s1 held True show ?thesis
      by (auto simp: spec_companion_def ledger_ops reports_def eq_commute [of "poBackendName p"])
  next
    case False
    with rest have e: "enqueueRemoved a (poObjectKey p) CleanupReasonCompanionUntrusted [intentBytes p] s1 = Inr (items, t)"
      and "result = CompanionCopyUntrusted"
      by (auto simp: discardUntrustedCopy_def tx_bind_Inr)
    with enqueueRemoved_spec [OF e s1(1)] s1(2) held False show ?thesis
      by (auto simp: spec_companion_def removedCopy_request_def intentBytes_def intent_cleanup_def)
  qed
qed

lemma resolveCompanion_spec:
  assumes "resolveCompanion a p existing s = Inr ((result, items), t)" "ok s"
    and ex: "mset existing = image_mset existing_of (copies_of (view s) (poObjectKey p))"
    and "IsCompanion p" "poIntentID p \<noteq> [] \<longrightarrow> holds_intent (view s) (poIntentID p)"
  shows "ok t \<and> (result, view t) = spec_promote now p (view s) \<and> reports now inst (view s) (view t) items"
proof -
  have "set existing = existing_of ` set_mset (copies_of (view s) (poObjectKey p))"
    using ex by (metis set_image_mset set_mset_mset)
  then have "list_ex (\<lambda>ec. ecBackendName ec = poBackendName p \<and> ecStorageKey ec = poStorageKey p) existing \<longleftrightarrow>
    (\<exists>l \<in># copies_of (view s) (poObjectKey p). locBackendName l = poBackendName p \<and> locStorageKey l = poStorageKey p)"
    by (auto simp: list_ex_iff existing_of_def)
  with assms show ?thesis
    by (auto simp: resolveCompanion_def tx_bind_Inr spec_promote_def Let_def without_intents_def reports_def
        split: if_splits dest!: delete_pending dropIntent_spec)
qed

lemma commitPromotion_spec:
  assumes "commitPromotion a p existing s = Inr ((result, items), t)" "ok s"
    and ex: "mset existing = image_mset existing_of (copies_of (view s) (poObjectKey p))"
    and prem: "\<not> IsCompanion p" "poIntentID p \<noteq> [] \<longrightarrow> holds_intent (view s) (poIntentID p)"
      "\<not> (\<exists>l \<in># copies_of (view s) (poObjectKey p). locCreatedAt l \<noteq> 0 \<and> locCreatedAt l > poCreatedAt p)"
  shows "ok t \<and> (result, view t) = spec_promote now p (view s) \<and> reports now inst (view s) (view t) items"
proof -
  let ?k = "poObjectKey p"
  obtain displaced deltas s1 s2 s3 where
    steps: "clearExistingCopies a ?k existing [] s = Inr ((displaced, deltas), s1)"
      "recordIntent a p deltas s1 = Inr ((), s2)"
      "replaceObjectTagsTx a ?k (poTags p) s2 = Inr ((), s3)"
      "enqueueRemoved a ?k CleanupReasonOverwritten displaced s3 = Inr (items, t)"
    and result: "result = PendingPromoteCommitted"
    using assms(1) by (auto simp: commitPromotion_def tx_bind_Inr)
  have s1: "ok s1" "view s1 = without_copies (\<lambda>l. locObjectKey l = ?k) (view s)"
    "displaced = removedFromExisting existing" "distinct (map fst deltas)"
    "alookup 0 deltas = (\<lambda>b. - bytes_on b (copies_of (view s) ?k))"
    using clearExistingCopies_spec [OF steps(1) assms(2) ex] by (auto simp: fun_eq_iff)
  have s2: "ok s2" "view s2 = without_intents (\<lambda>q. poIntentID q = poIntentID p)
    (charged ?k (\<lambda>b. alookup 0 deltas b + (if poBackendName p = b then poSizeBytes p else 0))
      ((view s1)\<lparr>lgCopies := add_mset (intent_copy now p) (lgCopies (view s1))\<rparr>))"
    using recordIntent_spec [OF steps(2) s1(1,4)] by auto
  have s3: "ok s3" "view s3 = retagged ?k (poTags p) (view s2)"
    using replaceObjectTagsTx_spec [OF steps(3) s2(1)] by auto
  have fin: "ok t" "view t = queued (image_mset (copy_cleanup CleanupReasonOverwritten) (copies_of (view s) ?k)) (view s3)"
    and rep: "reports now inst (view s3) (view t) items"
    using enqueueRemoved_spec [OF steps(4) s3(1)] by (auto simp: s1(3) displaced_requests [OF ex])
  have \<delta>: "(\<lambda>b. alookup 0 deltas b + (if poBackendName p = b then poSizeBytes p else 0)) =
      (\<lambda>b. (if b = poBackendName p then poSizeBytes p else 0) - bytes_on b (copies_of (view s) ?k))"
    by (auto simp: s1(5) fun_eq_iff)
  have "view t = spec_promoted now p (view s)"
    unfolding fin(2) s3(2) s2(2) \<delta> s1(2) spec_promoted_def Let_def ledger_ops by simp
  moreover have "spec_promote now p (view s) = (result, spec_promoted now p (view s))"
    using prem by (auto simp: spec_promote_def result Let_def)
  moreover have "lgQueued (view s3) = lgQueued (view s)"
    by (simp add: s3(2) s2(2) s1(2) ledger_ops)
  ultimately show ?thesis
    using fin(1) reports_from [OF rep] by simp
qed

lemma promotePendingTx_spec:
  assumes "promotePendingTx a p s = Inr ((result, items), t)" "ok s"
  shows "ok t \<and> (result, view t) = spec_promote now p (view s) \<and> reports now inst (view s) (view t) items"
proof -
  obtain held s1 where h: "keyIntentsHeld a (poObjectKey p) [poIntentID p] s = Inr (held, s1)"
    using assms(1) by (auto simp: promotePendingTx_def tx_bind_Inr)
  have s1: "ok s1" "view s1 = view s" and held: "held \<longleftrightarrow> (poIntentID p \<noteq> [] \<longrightarrow> holds_intent (view s) (poIntentID p))"
    using keyIntentsHeld_spec [OF h assms(2)] by auto
  show ?thesis
  proof (cases held)
    case False
    with assms(1) h held s1 show ?thesis
      by (auto simp: promotePendingTx_def tx_bind_Inr spec_promote_def Let_def reports_def)
  next
    case True
    with assms(1) h obtain existing s2 where e: "txGetExistingCopiesForUpdate a [poObjectKey p] s1 = Inr (existing, s2)"
      and rest: "(if IsCompanion p then resolveCompanion a p existing
        else if intentSuperseded existing (poCreatedAt p)
          then tx_bind (dropIntent a p CleanupReasonSupersededIntent) (\<lambda>cleanup.
               tx_return (PendingPromoteSuperseded, cleanup))
        else commitPromotion a p existing) s2 = Inr ((result, items), t)"
      by (auto simp: promotePendingTx_def tx_bind_Inr)
    have s2: "ok s2" "view s2 = view s" "mset existing = image_mset existing_of (copies_of (view s2) (poObjectKey p))"
      using existing_spec [OF e s1(1)] s1(2) by auto
    have "set existing = existing_of ` set_mset (copies_of (view s) (poObjectKey p))"
      using s2(2,3) by (metis set_image_mset set_mset_mset)
    then have sup: "intentSuperseded existing (poCreatedAt p) \<longleftrightarrow>
        (\<exists>l \<in># copies_of (view s) (poObjectKey p). locCreatedAt l \<noteq> 0 \<and> locCreatedAt l > poCreatedAt p)"
      by (auto simp: intentSuperseded_def list_ex_iff existing_of_def)
    consider "IsCompanion p" | "\<not> IsCompanion p" "intentSuperseded existing (poCreatedAt p)"
      | "\<not> IsCompanion p" "\<not> intentSuperseded existing (poCreatedAt p)" by blast
    then show ?thesis
    proof cases
      case 1
      with rest resolveCompanion_spec [of p existing s2] s2 held True show ?thesis by simp
    next
      case 2
      with rest have d: "dropIntent a p CleanupReasonSupersededIntent s2 = Inr (items, t)"
        and "result = PendingPromoteSuperseded"
        by (auto simp: tx_bind_Inr)
      moreover have "spec_promote now p (view s) =
          (PendingPromoteSuperseded, spec_drop CleanupReasonSupersededIntent p (view s))"
        using held True 2 sup by (auto simp: spec_promote_def Let_def)
      ultimately show ?thesis
        using dropIntent_spec [OF d s2(1)] s2(2) by auto
    next
      case 3
      with rest have c: "commitPromotion a p existing s2 = Inr ((result, items), t)" by simp
      show ?thesis
        using commitPromotion_spec [OF c s2(1,3) 3(1)] 3(2) held True sup s2(2) by simp
    qed
  qed
qed

lemma discard_spec:
  assumes "tx_bind (keyIntentsHeld a (poObjectKey p) [poIntentID p]) (\<lambda>claimed.
     if \<not> claimed then tx_return [] else dropIntent a p reason) s = Inr (items, t)" "ok s"
  shows "ok t \<and> view t = spec_discard reason p (view s) \<and> reports now inst (view s) (view t) items"
  using assms
  by (auto simp: tx_bind_Inr spec_discard_def reports_def split: if_splits
      dest!: keyIntentsHeld_spec dropIntent_spec)

end

subsection \<open>Deletes\<close>

lemma split_removed:
  "alookup [] (fst (splitRemovedCopies rows)) k =
     map (\<lambda>r. \<lparr>rcBackendName = ecBackendName r, rcStorageKey = ecStorageKey r,
               rcSizeBytes = ecSizeBytes r, rcReason = []\<rparr>) (filter (\<lambda>r. ecObjectKey r = k) rows)"
  "fst ` set (fst (splitRemovedCopies rows)) = ecObjectKey ` set rows"
  "distinct (map fst (fst (splitRemovedCopies rows)))"
  unfolding splitRemovedCopies_def fst_conv
  using foldl_group [where skip = "\<lambda>_. False" and f = ecObjectKey and m = "[]" and rows = rows]
  by simp_all

lemma split_debits:
  "distinct (map fst (snd (splitRemovedCopies rows)))"
  "alookup 0 (snd (splitRemovedCopies rows)) bi =
     sum_where (\<lambda>r. ecBackendName r = fst bi \<and> StripeFor (ecObjectKey r) = snd bi) (\<lambda>r. - ecSizeBytes r) rows"
  "sum_where (\<lambda>e. fst (fst e) = b) snd (snd (splitRemovedCopies rows)) =
     sum_where (\<lambda>r. ecBackendName r = b) (\<lambda>r. - ecSizeBytes r) rows"
  unfolding splitRemovedCopies_def snd_conv
  using foldl_stripes [where d = "[]" and f = ecObjectKey and g = ecBackendName
      and h = "\<lambda>r. - ecSizeBytes r" and rows = rows]
  by simp_all

text \<open>A sum over the rows a read returned is the sum over the copies it read.\<close>

lemma sum_existing:
  assumes "mset rows = image_mset existing_of M"
  shows "sum_where P (\<lambda>r. - ecSizeBytes r) rows =
    - bytes_where (\<lambda>l. P (existing_of l)) locSizeBytes M"
proof -
  have "sum_where P (\<lambda>r. - ecSizeBytes r) rows = bytes_where P (\<lambda>r. - ecSizeBytes r) (mset rows)"
    by (rule bytes_where_mset [symmetric])
  also have "\<dots> = - bytes_where (\<lambda>l. P (existing_of l)) locSizeBytes M"
    unfolding assms bytes_where_image by (simp add: existing_of_def)
  finally show ?thesis .
qed

lemma delete_requests_mset:
  assumes rows: "mset rows = image_mset existing_of M"
    and held: "held = sort (map fst (fst (splitRemovedCopies rows)))"
    and stale: "\<And>k reason. image_mset (\<lambda>d. removedCopy_request d k reason) (mset (alookup [] superseded k)) =
      image_mset (intent_cleanup CleanupReasonSupersededIntent) (filter_mset (\<lambda>p. poObjectKey p = k \<and> Q p) I)"
  shows "mset (delete_requests (fst (splitRemovedCopies rows)) superseded held) =
    image_mset (copy_cleanup CleanupReasonDeleted) M +
    image_mset (intent_cleanup CleanupReasonSupersededIntent)
      (filter_mset (\<lambda>p. poObjectKey p \<in> set held \<and> Q p) I)"
proof -
  let ?rc = "\<lambda>k r. removedCopy_request \<lparr>rcBackendName = ecBackendName r, rcStorageKey = ecStorageKey r,
      rcSizeBytes = ecSizeBytes r, rcReason = []\<rparr> k CleanupReasonDeleted"
  have dist: "distinct held" and keys: "set held = ecObjectKey ` set rows"
    using split_removed(2,3) [of rows] by (simp_all add: held)
  have parts: "mset (delete_requests (fst (splitRemovedCopies rows)) superseded ks) =
      mset (concat (map (\<lambda>k. map (?rc k) (filter (\<lambda>r. ecObjectKey r = k) rows)) ks)) +
      image_mset (intent_cleanup CleanupReasonSupersededIntent)
        (filter_mset (\<lambda>p. poObjectKey p \<in> set ks \<and> Q p) I)" if "distinct ks" for ks
    using that
  proof (induction ks)
    case Nil
    then show ?case by (simp add: delete_requests_def)
  next
    case (Cons k ks)
    have "filter_mset (\<lambda>p. poObjectKey p \<in> set (k # ks) \<and> Q p) I =
        filter_mset (\<lambda>p. poObjectKey p = k \<and> Q p) I + filter_mset (\<lambda>p. poObjectKey p \<in> set ks \<and> Q p) I"
      using Cons.prems by (induction I) auto
    with Cons stale [of k CleanupReasonDeleted] show ?case
      by (simp add: delete_requests_def split_removed(1) comp_def)
  qed
  have "mset (concat (map (\<lambda>k. map (?rc k) (filter (\<lambda>r. ecObjectKey r = k) rows)) held)) =
      image_mset (\<lambda>r. ?rc (ecObjectKey r) r) (filter_mset (\<lambda>r. ecObjectKey r \<in> set held) (mset rows))"
    using dist by (rule concat_groups)
  also have "filter_mset (\<lambda>r. ecObjectKey r \<in> set held) (mset rows) = mset rows"
    using keys by (simp add: filter_mset_eq_conv)
  also have "image_mset (\<lambda>r. ?rc (ecObjectKey r) r) (mset rows) = image_mset (copy_cleanup CleanupReasonDeleted) M"
    unfolding rows
    by (simp add: multiset.map_comp comp_def existing_of_def removedCopy_request_def copy_cleanup_def [abs_def])
  finally show ?thesis
    using parts [OF dist] by simp
qed

context tx_engine
begin

lemma deleteObjectsBatchTx_spec:
  assumes tx: "deleteObjectsBatchTx a ks s = Inr (items, t)" and "ok s"
  shows "ok t \<and> view t = spec_delete ks (view s) \<and> reports now inst (view s) (view t) items"
proof -
  let ?M = "filter_mset (\<lambda>l. locObjectKey l \<in> set ks) (lgCopies (view s))"
  obtain s1 rows s2 where lock: "txAcquireKeyLock a ks s = Inr ((), s1)"
    and read: "txGetExistingCopiesForUpdate a ks s1 = Inr (rows, s2)"
    using tx by (auto simp: deleteObjectsBatchTx_def tx_bind_Inr)
  have s2: "ok s2" "view s2 = view s" and rows: "mset rows = image_mset existing_of ?M"
    using key_lock [OF lock \<open>ok s\<close>] existing_copies [OF read] by auto
  show ?thesis
  proof (cases "rows = []")
    case True
    then have "?M = {#}" using rows by simp
    with True tx lock read s2 show ?thesis
      by (auto simp: deleteObjectsBatchTx_def tx_bind_Inr spec_delete_def reports_def)
  next
    case False
    define removed where "removed = fst (splitRemovedCopies rows)"
    define debits where "debits = snd (splitRemovedCopies rows)"
    define held where "held = sort (map fst removed)"
    have split: "splitRemovedCopies rows = (removed, debits)"
      by (simp add: removed_def debits_def)
    obtain s3 s4 superseded s5 s6 where
      steps: "txDeleteObjectCopies a ks s2 = Inr ((), s3)" "txDeleteObjectTags a ks s3 = Inr ((), s4)"
        "clearSupersededIntents a [] [] held s4 = Inr (superseded, s5)"
        "queueCleanup a (delete_requests removed superseded held) s5 = Inr (items, s6)"
        "charge a debits s6 = Inr ((), t)"
      using tx lock read False
      by (auto simp: deleteObjectsBatchTx_def tx_bind_Inr split clearTagsForKey_def Let_def held_def)
    have s3: "ok s3" "view s3 = (view s)\<lparr>lgCopies := filter_mset (\<lambda>l. locObjectKey l \<notin> set ks) (lgCopies (view s))\<rparr>"
      using delete_copies [OF steps(1) s2(1)] s2(2) by auto
    have s4: "ok s4" "view s4 = (view s3)\<lparr>lgTags := filter_mset (\<lambda>e. fst e \<notin> set ks) (lgTags (view s))\<rparr>"
      using delete_tags [OF steps(2) s3(1)] by (auto simp: s3(2))
    have s5: "ok s5" "view s5 = without_intents (\<lambda>p. poObjectKey p \<in> set held) (view s4)"
      and stale: "\<And>k reason. image_mset (\<lambda>d. removedCopy_request d k reason) (mset (alookup [] superseded k)) =
        image_mset (intent_cleanup CleanupReasonSupersededIntent)
          (filter_mset (\<lambda>p. poObjectKey p = k \<and> poObjectKey p \<in> set held) (lgIntents (view s)))"
      using clearSupersededIntents_spec [OF steps(3) s4(1)] by (auto simp: s4(2) s3(2))
    have s6: "ok s6" "view s6 = queued (mset (delete_requests removed superseded held)) (view s5)"
      and rep: "reports now inst (view s5) (view s6) items"
      using queueCleanup_spec [OF steps(4) s5(1)] by auto
    have reqs: "mset (delete_requests removed superseded held) =
        image_mset (copy_cleanup CleanupReasonDeleted) ?M +
        image_mset (intent_cleanup CleanupReasonSupersededIntent)
          (filter_mset (\<lambda>p. poObjectKey p \<in> set held) (lgIntents (view s)))"
      using delete_requests_mset [OF rows, of held superseded, OF _ stale] by (simp add: removed_def held_def)
    have keys: "set held = locObjectKey ` set_mset ?M"
    proof -
      have "set rows = existing_of ` set_mset ?M"
        using rows by (metis set_image_mset set_mset_mset)
      then show ?thesis
        using split_removed(2) [of rows] by (simp add: held_def removed_def existing_of_def image_image)
    qed
    have stripes: "alookup 0 debits bi = - bytes_where
        (\<lambda>l. locBackendName l = fst bi \<and> StripeFor (locObjectKey l) = snd bi) locSizeBytes ?M" for bi
      unfolding debits_def split_debits sum_existing [OF rows] by (simp add: existing_of_def)
    have total: "sum_where (\<lambda>e. fst (fst e) = b) snd debits = - bytes_on b ?M" for b
      unfolding debits_def split_debits sum_existing [OF rows] bytes_on_def by (simp add: existing_of_def)
    have t: "ok t" "view t = (view s6)\<lparr>lgStripe := (\<lambda>bi. lgStripe (view s6) bi + alookup 0 debits bi),
        lgUsed := (\<lambda>b. lgUsed (view s6) b + sum_where (\<lambda>e. fst (fst e) = b) snd debits)\<rparr>"
      using charge_spec [OF steps(5) s6(1)] split_debits(1) [of rows] by (auto simp: debits_def)
    have ne: "?M \<noteq> {#}" using rows False by (metis image_mset_empty mset_zero_iff)
    have "view t = spec_delete ks (view s)"
      unfolding t(2) s6(2) s5(2) s4(2) s3(2) reqs stripes total spec_delete_def Let_def if_not_P [OF ne]
        keys [symmetric] ledger_ops
      by (simp add: add.assoc)
    moreover have "lgQueued (view s5) = lgQueued (view s)" "lgQueued (view t) = lgQueued (view s6)"
      by (simp_all add: t(2) s5(2) s4(2) s3(2) ledger_ops)
    ultimately show ?thesis
      using t(1) rep by (simp add: reports_def)
  qed
qed

end

subsection \<open>Removing one copy\<close>

lemma set_existing:
  assumes "mset existing = image_mset existing_of M"
  shows "set existing = existing_of ` set_mset M" "length existing = size M"
  using assms by (metis set_image_mset set_mset_mset) (metis assms size_image_mset size_mset)

lemma copyOnBackend_None:
  assumes "mset existing = image_mset existing_of M"
  shows "copyOnBackend existing b = None \<longleftrightarrow> (\<forall>l \<in># M. locBackendName l \<noteq> b)"
  unfolding copyOnBackend_def find_None_iff using set_existing(1) [OF assms]
  by (auto simp: existing_of_def)

lemma copyOnBackend_Some:
  assumes "mset existing = image_mset existing_of M" "copyOnBackend existing b = Some ec"
  obtains l where "l \<in># M" "ec = existing_of l" "locBackendName l = b"
proof -
  have "ec \<in> set existing" "ecBackendName ec = b"
    using assms(2) by (auto simp: copyOnBackend_def find_Some_iff)
  then show ?thesis
    using that set_existing(1) [OF assms(1)] by (auto simp: existing_of_def)
qed

definition readable :: "ObjectLocation \<Rightarrow> bool" where
  "readable l \<longleftrightarrow> Has (StoredForm_Form (locForm l)) StoredReadable"

text \<open>
  The copy is the key's only one that can be decrypted, and the key has others.
\<close>

definition last_readable :: "ledger \<Rightarrow> ObjectLocation \<Rightarrow> bool" where
  "last_readable L l \<longleftrightarrow> readable l \<and> filter_mset readable (copies_of L (locObjectKey l)) = {#l#} \<and>
     copies_of L (locObjectKey l) \<noteq> {#l#}"

lemma last_decryptable_iff:
  assumes ex: "mset existing = image_mset existing_of M"
    and uniq: "unique_by locBackendName M" and l: "l \<in># M"
  shows "isLastDecryptableCopy existing (locBackendName l) \<longleftrightarrow>
    readable l \<and> filter_mset readable M = {#l#} \<and> M \<noteq> {#l#}"
proof -
  have len: "length (filter P existing) = size (filter_mset (\<lambda>l. P (existing_of l)) M)" for P
  proof -
    have "length (filter P existing) = size (filter_mset P (mset existing))"
      unfolding mset_filter [symmetric] size_mset ..
    then show ?thesis
      by (simp add: ex filter_mset_image_mset)
  qed
  have on: "filter_mset (\<lambda>l'. readable l' \<and> locBackendName l' = locBackendName l) M =
      (if readable l then {#l#} else {#})"
  proof -
    have "filter_mset (\<lambda>l'. readable l' \<and> locBackendName l' = locBackendName l) M =
        filter_mset readable (filter_mset (\<lambda>l'. locBackendName l' = locBackendName l) M)"
      by (simp add: filter_filter_mset conj_commute)
    then show ?thesis
      by (simp add: unique_by_single [OF uniq l])
  qed
  obtain M' where M: "M = add_mset l M'"
    using l by (meson multi_member_split)
  have sub: "size (filter_mset readable M) = 1 \<longleftrightarrow> filter_mset readable M = {#l#}" if "readable l"
    using that by (simp add: M)
  have one: "M = {#l#} \<longleftrightarrow> size M = 1"
    by (simp add: M)
  have pos: "1 \<le> size M"
    by (simp add: M)
  have sel: "Has (ecForm (existing_of l')) StoredReadable = readable l'"
    "ecBackendName (existing_of l') = locBackendName l'" for l'
    by (simp_all add: readable_def existing_of_def)
  show ?thesis
    unfolding isLastDecryptableCopy_def Let_def len set_existing(2) [OF ex] sel on
    using sub one pos by (cases "readable l") auto
qed

lemma unique_by_fixed:
  "unique_by (\<lambda>x. (f x, g x)) M \<Longrightarrow> unique_by g (filter_mset (\<lambda>x. f x = k) M)"
  by (induction M) (auto simp: image_iff)

lemma copies_of_unique: "ledger_ok L \<Longrightarrow> unique_by locBackendName (copies_of L k)"
  unfolding ledger_ok_def copies_of_def by (blast intro: unique_by_fixed)

lemma copies_of_names:
  assumes "ledger_ok L" "l \<in># copies_of L k"
  shows "filter_mset (names l) (lgCopies L) = {#l#}"
proof -
  have "l \<in># lgCopies L" "locObjectKey l = k"
    using assms(2) by (auto simp: copies_of_def)
  then show ?thesis
    using unique_by_single [of "\<lambda>l. (locObjectKey l, locBackendName l)" "lgCopies L" l] assms(1)
    by (simp add: ledger_ok_def names_def [abs_def])
qed

text \<open>What \<open>removableCopy\<close> decides, read on the ledger.\<close>

lemma removableCopy_Inr:
  assumes "mset existing = image_mset existing_of (copies_of L (locObjectKey loc))" "ledger_ok L"
    and "removableCopy existing loc n = Inr held"
  obtains l where "l \<in># copies_of L (locObjectKey loc)" "held = existing_of l"
    "locBackendName l = locBackendName loc" "locStorageKey l = locStorageKey loc"
    "0 < n \<Longrightarrow> n < int (size (copies_of L (locObjectKey loc))) \<and> \<not> last_readable L l"
proof -
  from assms(3) obtain ec where "copyOnBackend existing (locBackendName loc) = Some ec"
    and ec: "ec = held" "ecStorageKey ec = locStorageKey loc"
      "0 < n \<Longrightarrow> n < int (length existing) \<and> \<not> isLastDecryptableCopy existing (locBackendName loc)"
    by (auto simp: removableCopy_def split: option.splits if_splits)
  then obtain l where l: "l \<in># copies_of L (locObjectKey loc)" "held = existing_of l"
    "locBackendName l = locBackendName loc"
    using copyOnBackend_Some [OF assms(1)] by blast
  have key: "locObjectKey l = locObjectKey loc"
    using l(1) by (simp add: copies_of_def)
  have "isLastDecryptableCopy existing (locBackendName loc) \<longleftrightarrow> last_readable L l"
    using last_decryptable_iff [OF assms(1) copies_of_unique [OF assms(2)] l(1)]
    by (simp add: last_readable_def key l(3))
  then have "0 < n \<Longrightarrow> n < int (size (copies_of L (locObjectKey loc))) \<and> \<not> last_readable L l"
    using ec(3) set_existing(2) [OF assms(1)] by simp
  moreover have "locStorageKey l = locStorageKey loc"
    using ec(1,2) l(2) by (simp add: existing_of_def)
  ultimately show ?thesis
    using that l by blast
qed

lemma charged_single:
  "charged k (alookup 0 [(b, x)]) L = charged k (\<lambda>b'. if b' = b then x else 0) L"
  by (rule arg_cong [where f = "\<lambda>\<delta>. charged k \<delta> L"]) (simp add: alookup_Cons fun_eq_iff)

context tx_engine
begin

lemma removeCopyRow_spec:
  assumes "removeCopyRow a k (existing_of l) last_copy s = Inr (u, t)" "ok s" "locObjectKey l = k"
  shows "ok t \<and> view t = charged k (\<lambda>b. if b = locBackendName l then - locSizeBytes l else 0)
    ((view s)\<lparr>lgCopies := filter_mset (\<lambda>l'. \<not> names l l') (lgCopies (view s)),
       lgTags := (if last_copy then filter_mset (\<lambda>e. fst e \<noteq> k) (lgTags (view s)) else lgTags (view s))\<rparr>)"
proof -
  obtain s1 s2 where steps: "txDeleteObjectFromBackend a k (locBackendName l) s = Inr ((), s1)"
    "(if last_copy then clearTagsForKey a [k] else tx_return ()) s1 = Inr ((), s2)"
    "chargeStripes a k [(locBackendName l, - locSizeBytes l)] s2 = Inr (u, t)"
    using assms(1) by (auto simp: removeCopyRow_def tx_bind_Inr existing_of_def)
  have s1: "ok s1" "view s1 = (view s)\<lparr>lgCopies := filter_mset (\<lambda>l'. \<not> names l l') (lgCopies (view s))\<rparr>"
    using delete_from_backend [OF steps(1) assms(2)] assms(3) by (auto simp: names_def)
  have s2: "ok s2" "view s2 = (view s1)\<lparr>lgTags :=
      (if last_copy then filter_mset (\<lambda>e. fst e \<noteq> k) (lgTags (view s1)) else lgTags (view s1))\<rparr>"
    using steps(2) s1(1) by (auto simp: clearTagsForKey_def split: if_splits dest!: delete_tags)
  show ?thesis
    using chargeStripes_spec [OF steps(3) s2(1)] by (simp add: s2(2) s1(2) charged_single)
qed

lemma deleteObjectLocationTx_spec:
  assumes tx: "deleteObjectLocationTx a loc n reason s = Inr (items, t)" and "ok s"
  obtains l where "l \<in># copies_of (view s) (locObjectKey loc)" "locBackendName l = locBackendName loc"
    "locStorageKey l = locStorageKey loc"
    "0 < n \<Longrightarrow> n < int (size (copies_of (view s) (locObjectKey loc))) \<and> \<not> last_readable (view s) l"
    "ok t" "view t = spec_delete_copy l reason (view s)" "reports now inst (view s) (view t) items"
proof -
  let ?k = "locObjectKey loc"
  obtain s1 existing s2 where steps: "txAcquireKeyLock a [?k] s = Inr ((), s1)"
    "txGetExistingCopiesForUpdate a [?k] s1 = Inr (existing, s2)"
    using tx by (auto simp: deleteObjectLocationTx_def Let_def tx_bind_Inr)
  have s2: "ok s2" "view s2 = view s" and ex: "mset existing = image_mset existing_of (copies_of (view s) ?k)"
    using key_lock [OF steps(1) \<open>ok s\<close>] existing_spec [OF steps(2)] by auto
  obtain held s3 where held: "removableCopy existing loc n = Inr held"
    and rem: "removeCopyRow a ?k held (length existing = 1) s2 = Inr ((), s3)"
    and enq: "(if reason = [] then tx_return [] else enqueueRemoved a ?k reason (removedFromExisting [held])) s3
      = Inr (items, t)"
    using tx steps by (auto simp: deleteObjectLocationTx_def Let_def tx_bind_Inr split: sum.splits)
  obtain l where l: "l \<in># copies_of (view s) ?k" "held = existing_of l"
    "locBackendName l = locBackendName loc" "locStorageKey l = locStorageKey loc"
    "0 < n \<Longrightarrow> n < int (size (copies_of (view s) ?k)) \<and> \<not> last_readable (view s) l"
    using removableCopy_Inr [OF ex ok_view [OF \<open>ok s\<close>] held] by blast
  have key: "locObjectKey l = ?k"
    using l(1) by (simp add: copies_of_def)
  have last_copy: "length existing = 1 \<longleftrightarrow> copies_of (view s) ?k = {#l#}"
    using set_existing(2) [OF ex] multi_member_split [OF l(1)] by auto
  have s3: "ok s3" "view s3 = charged ?k (\<lambda>b. if b = locBackendName l then - locSizeBytes l else 0)
    ((view s)\<lparr>lgCopies := filter_mset (\<lambda>l'. \<not> names l l') (lgCopies (view s)),
       lgTags := (if copies_of (view s) ?k = {#l#} then filter_mset (\<lambda>e. fst e \<noteq> ?k) (lgTags (view s))
                  else lgTags (view s))\<rparr>)"
    using removeCopyRow_spec [OF rem [unfolded l(2)] s2(1) key] unfolding last_copy s2(2) by auto
  have t: "ok t" "view t = (if reason = [] then view s3 else queued {#copy_cleanup reason l#} (view s3))"
    and rep: "reports now inst (view s3) (view t) items"
    using enq s3(1)
    by (auto simp: reports_def removedFromExisting_def l(2) existing_of_def removedCopy_request_def
        copy_cleanup_def key split: if_splits dest!: enqueueRemoved_spec)
  have "lgQueued (view s3) = lgQueued (view s)"
    by (simp add: s3(2) charged_def)
  then have "reports now inst (view s) (view t) items"
    by (rule reports_from [OF rep])
  moreover have "view t = spec_delete_copy l reason (view s)"
    unfolding t(2) s3(2) spec_delete_copy_def Let_def key ..
  ultimately show ?thesis
    using that l(1,3,4,5) t(1) by blast
qed

end

subsection \<open>Placing a copy\<close>

lemma removableCopy_0:
  assumes "mset existing = image_mset existing_of (copies_of L (locObjectKey loc))" "ledger_ok L"
  shows "(case removableCopy existing loc 0 of Inl e \<Rightarrow> e = ErrCopyChanged \<and>
       \<not> (\<exists>l \<in># copies_of L (locObjectKey loc). locBackendName l = locBackendName loc \<and> locStorageKey l = locStorageKey loc)
     | Inr _ \<Rightarrow> \<exists>l \<in># copies_of L (locObjectKey loc). locBackendName l = locBackendName loc \<and> locStorageKey l = locStorageKey loc)"
proof (cases "copyOnBackend existing (locBackendName loc)")
  case None
  then have "\<forall>l \<in># copies_of L (locObjectKey loc). locBackendName l \<noteq> locBackendName loc"
    by (rule iffD1 [OF copyOnBackend_None [OF assms(1)]])
  then have "\<not> (\<exists>l \<in># copies_of L (locObjectKey loc). locBackendName l = locBackendName loc \<and>
      locStorageKey l = locStorageKey loc)"
    by blast
  moreover have "removableCopy existing loc 0 = Inl ErrCopyChanged"
    using None by (simp add: removableCopy_def)
  ultimately show ?thesis by simp
next
  case (Some ec)
  then obtain l where l: "l \<in># copies_of L (locObjectKey loc)" "ec = existing_of l" "locBackendName l = locBackendName loc"
    using copyOnBackend_Some [OF assms(1)] by blast
  have "l' = l" if "l' \<in># copies_of L (locObjectKey loc)" "locBackendName l' = locBackendName loc" for l'
    using unique_by_eq [OF copies_of_unique [OF assms(2)] that(1) l(1)] that(2) l(3) by simp
  then have "(\<exists>l' \<in># copies_of L (locObjectKey loc). locBackendName l' = locBackendName loc \<and>
      locStorageKey l' = locStorageKey loc) \<longleftrightarrow> locStorageKey l = locStorageKey loc"
    using l(1,3) by blast
  moreover have "removableCopy existing loc 0 =
      (if locStorageKey l = locStorageKey loc then Inr ec else Inl ErrCopyChanged)"
    using Some l(2) by (simp add: removableCopy_def existing_of_def)
  ultimately show ?thesis by simp
qed

lemma Placement_refusal_eq:
  assumes "mset existing = image_mset existing_of (copies_of L (locObjectKey (plSource p)))" "ledger_ok L"
  shows "Placement_refusal p existing = spec_refusal p L"
  using removableCopy_0 [OF assms] copyOnBackend_None [OF assms(1), of "poBackendName (plIntent p)"]
  by (auto simp: Placement_refusal_def spec_refusal_def Let_def split: sum.splits option.splits)

context tx_engine
begin

lemma Placement_commit_spec:
  assumes "Placement_commit a p src s = Inr (out, t)" "ok s"
  shows "ok t \<and> view t = charged (locObjectKey src)
      (\<lambda>b. (if b = locBackendName (placedCopy p src) then locSizeBytes (placedCopy p src) else 0)
         - (if plRemoveSource p \<and> b = locBackendName src then locSizeBytes src else 0))
      ((view s)\<lparr>lgCopies := add_mset (stored_location now (placedCopy p src))
         (if plRemoveSource p then filter_mset (\<lambda>l. \<not> names src l) (lgCopies (view s)) else lgCopies (view s)),
       lgQueued := lgQueued (view s) +
         (if plRemoveSource p then {#copy_cleanup (mrSourceDelete (plReasons p)) src#} else {#})\<rparr>) \<and>
    reports now inst (view s) (view t) (poutCleanup out) \<and>
    poutRefusal out = None \<and> poutPlaced out = locSizeBytes (placedCopy p src)"
proof -
  let ?k = "locObjectKey src" and ?placed = "placedCopy p src"
  let ?remove = "if plRemoveSource p then
          tx_bind (txDeleteObjectFromBackend a ?k (locBackendName src)) (\<lambda>_.
          tx_bind (enqueueRemoved a ?k (mrSourceDelete (plReasons p))
            [\<lparr>rcBackendName = locBackendName src, rcStorageKey = locStorageKey src,
              rcSizeBytes = locSizeBytes src, rcReason = []\<rparr>]) (\<lambda>queued.
          tx_return (quotaDeltas_add [] (locBackendName src) (- locSizeBytes src), queued)))
        else tx_return ([], [])"
  obtain deltas cleanup s1 s2 where steps: "?remove s = Inr ((deltas, cleanup), s1)"
    "txInsertObjectLocation a ?placed s1 = Inr ((), s2)"
    "chargeStripes a ?k (quotaDeltas_add deltas (locBackendName ?placed) (locSizeBytes ?placed)) s2 = Inr ((), t)"
    and out: "out = \<lparr>poutPlaced = locSizeBytes ?placed, poutCleanup = cleanup, poutRefusal = None\<rparr>"
    using assms(1) by (auto simp: Placement_commit_def Let_def tx_bind_Inr)
  have s1: "ok s1" "view s1 = (view s)\<lparr>lgCopies :=
        (if plRemoveSource p then filter_mset (\<lambda>l. \<not> names src l) (lgCopies (view s)) else lgCopies (view s)),
      lgQueued := lgQueued (view s) +
         (if plRemoveSource p then {#copy_cleanup (mrSourceDelete (plReasons p)) src#} else {#})\<rparr>"
    "distinct (map fst deltas)"
    "\<And>b. alookup 0 deltas b = - (if plRemoveSource p \<and> b = locBackendName src then locSizeBytes src else 0)"
    and rep: "reports now inst (view s) (view s1) cleanup"
    using steps(1) assms(2)
    by (auto simp: tx_bind_Inr queued_def reports_def names_def removedCopy_request_def copy_cleanup_def
        split: if_splits dest!: delete_from_backend enqueueRemoved_spec)
  have s2: "ok s2" "view s2 = with_copy now ?placed (view s1)"
    using insert_location [OF steps(2) s1(1)] by auto
  have "alookup 0 (quotaDeltas_add deltas (locBackendName ?placed) (locSizeBytes ?placed)) =
      (\<lambda>b. (if b = locBackendName ?placed then locSizeBytes ?placed else 0)
         - (if plRemoveSource p \<and> b = locBackendName src then locSizeBytes src else 0))"
    by (auto simp: s1(4) fun_eq_iff)
  then have t: "ok t" "view t = charged ?k (\<lambda>b. (if b = locBackendName ?placed then locSizeBytes ?placed else 0)
         - (if plRemoveSource p \<and> b = locBackendName src then locSizeBytes src else 0)) (view s2)"
    using chargeStripes_spec [OF steps(3) s2(1)] s1(3) by auto
  have "lgQueued (view t) = lgQueued (view s1)"
    by (simp add: t(2) s2(2) ledger_ops)
  then have "reports now inst (view s) (view t) cleanup"
    using rep by (simp add: reports_def)
  moreover have "view t = charged ?k (\<lambda>b. (if b = locBackendName ?placed then locSizeBytes ?placed else 0)
         - (if plRemoveSource p \<and> b = locBackendName src then locSizeBytes src else 0))
      ((view s)\<lparr>lgCopies := add_mset (stored_location now ?placed)
         (if plRemoveSource p then filter_mset (\<lambda>l. \<not> names src l) (lgCopies (view s)) else lgCopies (view s)),
       lgQueued := lgQueued (view s) +
         (if plRemoveSource p then {#copy_cleanup (mrSourceDelete (plReasons p)) src#} else {#})\<rparr>)"
    unfolding t(2) s2(2) s1(2) ledger_ops by (cases "plRemoveSource p") simp_all
  ultimately show ?thesis
    using t(1) by (simp only: out placeOutcome.simps simp_thms)
qed

lemma placeCopyTx_gone:
  assumes "placeCopyTx a p s = Inr (out, t)" "ok s"
    "\<not> all_held (view s) [poIntentID (plIntent p)]"
  shows "ok t \<and> poutRefusal out = Some ErrCopyChanged \<and>
    view t = queued {#removedCopy_request (intentBytes (plIntent p)) (locObjectKey (plSource p))
      CleanupReasonSupersededIntent#} (view s) \<and> reports now inst (view s) (view t) (poutCleanup out)"
proof -
  obtain held s1 where h: "keyIntentsHeld a (locObjectKey (plSource p)) [poIntentID (plIntent p)] s = Inr (held, s1)"
    using assms(1) by (auto simp: placeCopyTx_def Let_def tx_bind_Inr)
  have s1: "ok s1" "view s1 = view s" "\<not> held"
    using keyIntentsHeld_spec [OF h assms(2)] assms(3) by auto
  with assms(1) h obtain cleanup where
    e: "enqueueRemoved a (locObjectKey (plSource p)) CleanupReasonSupersededIntent [intentBytes (plIntent p)] s1 = Inr (cleanup, t)"
    and out: "out = \<lparr>poutPlaced = 0, poutCleanup = cleanup, poutRefusal = Some ErrCopyChanged\<rparr>"
    by (auto simp: placeCopyTx_def Let_def tx_bind_Inr)
  show ?thesis
    using enqueueRemoved_spec [OF e s1(1)] s1(2) by (auto simp: out)
qed

lemma placeCopyTx_held:
  assumes tx: "placeCopyTx a p s = Inr (out, t)" and "ok s"
    and held: "all_held (view s) [poIntentID (plIntent p)]"
  shows "ok t \<and> reports now inst (view s) (view t) (poutCleanup out) \<and>
    poutRefusal out = spec_refusal p (view s) \<and>
    (case spec_refusal p (view s) of
       Some _ \<Rightarrow> view t = spec_drop (mrOrphan (plReasons p)) (plIntent p) (view s)
     | None \<Rightarrow> \<exists>src \<in># copies_of (view s) (locObjectKey (plSource p)).
         locBackendName src = locBackendName (plSource p) \<and>
         view t = spec_place_commit now p src (view s) \<and>
         poutPlaced out = locSizeBytes (placedCopy p src))"
proof -
  let ?k = "locObjectKey (plSource p)" and ?i = "poIntentID (plIntent p)"
  obtain h s1 where h: "keyIntentsHeld a ?k [?i] s = Inr (h, s1)"
    using tx by (auto simp: placeCopyTx_def Let_def tx_bind_Inr)
  have s1: "ok s1" "view s1 = view s" "h"
    using keyIntentsHeld_spec [OF h \<open>ok s\<close>] held by auto
  with tx h obtain existing s2 where e: "txGetExistingCopiesForUpdate a [?k] s1 = Inr (existing, s2)"
    and rest: "(case Placement_refusal p existing of
         Some refusal \<Rightarrow> Placement_refuse a p refusal
       | None \<Rightarrow> tx_bind (txLockObjectOnBackend a ?k (locBackendName (plSource p))) (\<lambda>found.
           case found of None \<Rightarrow> Placement_refuse a p ErrCopyChanged
           | Some src \<Rightarrow> tx_bind (tx_wrap ''delete placed intent'' (txDeletePending a ?i)) (\<lambda>_.
               Placement_commit a p src))) s2 = Inr (out, t)"
    by (auto simp: placeCopyTx_def Let_def tx_bind_Inr)
  have s2: "ok s2" "view s2 = view s" and ex: "mset existing = image_mset existing_of (copies_of (view s) ?k)"
    using existing_spec [OF e s1(1)] s1(2) by auto
  have ref: "Placement_refusal p existing = spec_refusal p (view s)"
    by (rule Placement_refusal_eq [OF ex ok_view [OF \<open>ok s\<close>]])
  show ?thesis
  proof (cases "spec_refusal p (view s)")
    case (Some err)
    with rest ref obtain cleanup where d: "dropIntent a (plIntent p) (mrOrphan (plReasons p)) s2 = Inr (cleanup, t)"
      and out: "out = \<lparr>poutPlaced = 0, poutCleanup = cleanup, poutRefusal = Some err\<rparr>"
      by (auto simp: Placement_refuse_def tx_bind_Inr)
    show ?thesis
      using dropIntent_spec [OF d s2(1)] s2(2) Some by (auto simp: out)
  next
    case None
    then have src: "\<exists>l \<in># copies_of (view s) ?k. locBackendName l = locBackendName (plSource p)"
      by (auto simp: spec_refusal_def Let_def split: if_splits)
    from rest ref None obtain found s3 where
      lock: "txLockObjectOnBackend a ?k (locBackendName (plSource p)) s2 = Inr (found, s3)"
      and rest': "(case found of None \<Rightarrow> Placement_refuse a p ErrCopyChanged
           | Some src \<Rightarrow> tx_bind (tx_wrap ''delete placed intent'' (txDeletePending a ?i)) (\<lambda>_.
               Placement_commit a p src)) s3 = Inr (out, t)"
      by (auto simp: tx_bind_Inr)
    note s3 = lock_object [OF lock s2(1)]
    have "found \<noteq> None"
    proof
      assume "found = None"
      with s3 have "\<forall>l \<in># lgCopies (view s). \<not> (locObjectKey l = ?k \<and> locBackendName l = locBackendName (plSource p))"
        by (simp add: s2(2))
      with src show False by (auto simp: copies_of_def)
    qed
    then obtain l s4 where found: "found = Some l"
      and del: "txDeletePending a ?i s3 = Inr ((), s4)" and com: "Placement_commit a p l s4 = Inr (out, t)"
      using rest' by (auto simp: tx_bind_Inr)
    have l: "l \<in># copies_of (view s) ?k" "locBackendName l = locBackendName (plSource p)"
      using s3 s2(2) by (auto simp: found copies_of_def)
    have s4: "ok s4" "view s4 = (view s)\<lparr>lgIntents := filter_mset (\<lambda>q. poIntentID q \<noteq> ?i) (lgIntents (view s))\<rparr>"
      using delete_pending [OF del] s3 s2(2) by auto
    note c = Placement_commit_spec [OF com s4(1)]
    have "view t = spec_place_commit now p l (view s)"
      unfolding conjunct1 [OF conjunct2 [OF c]] s4(2) spec_place_commit_def Let_def ledger_ops
      by (cases "plRemoveSource p") simp_all
    moreover have "reports now inst (view s) (view t) (poutCleanup out)"
      by (rule reports_from [OF conjunct1 [OF conjunct2 [OF conjunct2 [OF c]]]]) (simp add: s4(2))
    moreover have "ok t" "poutRefusal out = None" "poutPlaced out = locSizeBytes (placedCopy p l)"
      using c by blast+
    ultimately show ?thesis
      unfolding None option.case using l by blast
  qed
qed

end

subsection \<open>Imports, tags, claims, parts\<close>

lemma part_request:
  "removedCopy_request \<lparr>rcBackendName = b, rcStorageKey = MultipartPart_Path (part_location p) u,
     rcSizeBytes = mpSizeBytes (part_location p), rcReason = []\<rparr>
     (PartPath u (mpPartNumber (part_location p))) reason = part_cleanup reason b u p"
  by (simp add: removedCopy_request_def part_cleanup_def part_location_def MultipartPart_Path_def)

context tx_engine
begin

lemma importObjectTx_spec:
  assumes tx: "importObjectTx a now req s = Inr (outcome, t)" and "ok s"
  shows "ok t \<and> (outcome, view t) = spec_import now req (view s)"
proof -
  obtain states s1 where l: "txListedPathStates a (irBackend req) [irKey req] s = Inr (states, s1)"
    using tx by (auto simp: importObjectTx_def tx_bind_Inr)
  have s1: "ok s1" "view s1 = view s"
    and st: "alookup PathUntracked states (irKey req) = path_state (view s) (irBackend req) (irKey req)"
    using listed_states [OF l \<open>ok s\<close>] by auto
  show ?thesis
  proof (cases "path_state (view s) (irBackend req) (irKey req)")
    case PathUntracked
    let ?loc = "import_location now req"
    have loc: "locObjectKey ?loc = irKey req" "locBackendName ?loc = irBackend req"
      by (simp_all add: import_location_def ObjectFromStoredForm_def)
    from tx l st PathUntracked obtain inserted s2 where
      ins: "txInsertObjectLocationIfNotExists a ?loc s1 = Inr (inserted, s2)"
      and rest: "(if \<not> inserted then tx_return ImportSkippedExisting
          else tx_bind (chargeStripes a (irKey req) [(irBackend req, irSize req)]) (\<lambda>_.
               tx_return ImportInserted)) s2 = Inr (outcome, t)"
      by (auto simp: importObjectTx_def tx_bind_Inr Let_def import_location_def)
    note s2 = insert_if_absent [OF ins s1(1)]
    show ?thesis
    proof (cases inserted)
      case True
      with rest have c: "chargeStripes a (irKey req) [(irBackend req, irSize req)] s2 = Inr ((), t)"
        and o: "outcome = ImportInserted"
        by (auto simp: tx_bind_Inr)
      have "ok t" "view t = charged (irKey req) (\<lambda>b. if b = irBackend req then irSize req else 0)
          (with_copy now ?loc (view s))"
        using chargeStripes_spec [OF c] s2 True s1(2) by (auto simp: charged_single)
      moreover have "\<not> (\<exists>l \<in># lgCopies (view s). locObjectKey l = irKey req \<and> locBackendName l = irBackend req)"
        using s2 True loc s1(2) by simp
      ultimately show ?thesis
        by (simp add: spec_import_def PathUntracked o)
    next
      case False
      with rest s2 s1(2) loc PathUntracked show ?thesis
        by (auto simp: spec_import_def)
    qed
  qed (use tx l st s1 in \<open>auto simp: importObjectTx_def tx_bind_Inr spec_import_def\<close>)
qed

lemma replaceTags_spec:
  assumes "tx_bind (txAcquireKeyLock a [k]) (\<lambda>_. tx_bind (requireObjectExists a k) (\<lambda>_.
      replaceObjectTagsTx a k tags)) s = Inr (u, t)" "ok s"
  shows "ok t \<and> copies_of (view s) k \<noteq> {#} \<and> view t = retagged k tags (view s)"
proof -
  obtain s1 existing s2 where "txAcquireKeyLock a [k] s = Inr ((), s1)"
    and e: "txGetExistingCopiesForUpdate a [k] s1 = Inr (existing, s2)"
    and ne: "existing \<noteq> []" and r: "replaceObjectTagsTx a k tags s2 = Inr (u, t)"
    using assms(1) by (auto simp: requireObjectExists_def tx_bind_Inr split: if_splits)
  then have s2: "ok s2" "view s2 = view s" "mset existing = image_mset existing_of (copies_of (view s) k)"
    using key_lock [OF _ assms(2)] existing_spec [OF e] by auto
  have "copies_of (view s) k \<noteq> {#}"
    using s2(3) ne by (metis image_mset_empty mset_zero_iff)
  then show ?thesis
    using replaceObjectTagsTx_spec [OF r s2(1)] s2(2) by simp
qed

lemma lockUploadIdle_spec:
  "\<lbrakk>lockUploadIdle a u stale s = Inr (b, t); ok s\<rbrakk> \<Longrightarrow>
   ok t \<and> view t = view s \<and>
   (case lgUpload (view s) u of None \<Rightarrow> b = [] | Some (b', h) \<Rightarrow> b = b' \<and> h \<le> stale)"
  by (fastforce simp: lockUploadIdle_def tx_bind_Inr split: if_splits option.splits dest!: lock_upload)

lemma recordPartTx_spec:
  assumes tx: "recordPartTx a p s = Inr ((items, refusal), t)" and "ok s"
  shows "ok t \<and> (refusal, view t) = spec_record_part now p (view s) \<and>
    reports now inst (view s) (view t) items \<and>
    (\<exists>b h. lgUpload (view s) (rpUploadID p) = Some (b, h) \<and> h \<le> rpCompletionStaleBefore p)"
proof -
  let ?path = "PartPath (rpUploadID p) (rpPartNumber p)" and ?i = "rpIntent p" and ?u = "rpUploadID p"
  let ?same = "\<lambda>e. fst e = rpUploadID p \<and> mpPartNumber (snd e) = rpPartNumber p"
  obtain s1 b s2 held s3 where steps: "txAcquireKeyLock a [?path] s = Inr ((), s1)"
    "lockUploadIdle a ?u (rpCompletionStaleBefore p) s1 = Inr (b, s2)" "b \<noteq> []"
    "intentsHeld a [poIntentID ?i] s2 = Inr (held, s3)"
    using tx by (auto simp: recordPartTx_def Let_def tx_bind_Inr simp del: intentsHeld.simps split: if_splits)
  have s1: "ok s1" "view s1 = view s"
    using key_lock [OF steps(1) \<open>ok s\<close>] by auto
  have s2: "ok s2" "view s2 = view s"
    and up: "\<exists>b h. lgUpload (view s) ?u = Some (b, h) \<and> h \<le> rpCompletionStaleBefore p"
    using lockUploadIdle_spec [OF steps(2) s1(1)] s1(2) steps(3) by (auto split: option.splits)
  have s3: "ok s3" "view s3 = view s" and held: "held \<longleftrightarrow> (poIntentID ?i \<noteq> [] \<longrightarrow> holds_intent (view s) (poIntentID ?i))"
    using intentsHeld_spec [OF steps(4) s2(1)] s2(2) by auto
  show ?thesis
  proof (cases held)
    case False
    with tx steps have e: "enqueueRemoved a ?path CleanupReasonSupersededIntent [intentBytes ?i] s3 = Inr (items, t)"
      and "refusal = Some ErrIntentLost"
      by (auto simp: recordPartTx_def Let_def tx_bind_Inr simp del: intentsHeld.simps)
    moreover have "spec_record_part now p (view s) = (Some ErrIntentLost,
        queued {#removedCopy_request (intentBytes ?i) ?path CleanupReasonSupersededIntent#} (view s))"
      using held False by (simp add: spec_record_part_def Let_def)
    ultimately show ?thesis
      using enqueueRemoved_spec [OF e s3(1)] s3(2) up by auto
  next
    case True
    with tx steps obtain replaced s4 s5 where ups: "txUpsertPart a p s3 = Inr (replaced, s4)"
      and del: "txDeletePending a (poIntentID ?i) s4 = Inr ((), s5)"
      and rest: "(case replaced of None \<Rightarrow> tx_return ([], None)
         | Some part \<Rightarrow> tx_bind (enqueueRemoved a ?path CleanupReasonPartReplaced
               [\<lparr>rcBackendName = poBackendName ?i, rcStorageKey = MultipartPart_Path part ?u,
                 rcSizeBytes = mpSizeBytes part, rcReason = []\<rparr>]) (\<lambda>cleanup.
             tx_return (cleanup, None))) s5 = Inr ((items, refusal), t)"
      by (auto simp: recordPartTx_def Let_def tx_bind_Inr simp del: intentsHeld.simps)
    note u = upsert_part [OF ups s3(1), unfolded s3(2)]
    have s5: "ok s5" "view s5 = (view s)\<lparr>lgParts := add_mset (?u, stored_part now p)
        (filter_mset (\<lambda>e. \<not> ?same e) (lgParts (view s))),
        lgIntents := filter_mset (\<lambda>q. poIntentID q \<noteq> poIntentID ?i) (lgIntents (view s))\<rparr>"
      using u delete_pending [OF del] by auto
    have reqs: "image_mset (\<lambda>e. part_cleanup CleanupReasonPartReplaced (poBackendName ?i) ?u (snd e))
        (filter_mset ?same (lgParts (view s))) = (case replaced of None \<Rightarrow> {#} | Some part \<Rightarrow>
          {#removedCopy_request \<lparr>rcBackendName = poBackendName ?i, rcStorageKey = MultipartPart_Path part ?u,
             rcSizeBytes = mpSizeBytes part, rcReason = []\<rparr> ?path CleanupReasonPartReplaced#})"
    proof -
      have "image_mset (\<lambda>e. part_cleanup CleanupReasonPartReplaced (poBackendName ?i) ?u (snd e))
          (filter_mset ?same (lgParts (view s))) =
        image_mset (\<lambda>part. removedCopy_request \<lparr>rcBackendName = poBackendName ?i,
             rcStorageKey = MultipartPart_Path part ?u, rcSizeBytes = mpSizeBytes part, rcReason = []\<rparr>
             ?path CleanupReasonPartReplaced)
          (image_mset (\<lambda>e. part_location (snd e)) (filter_mset ?same (lgParts (view s))))"
        unfolding multiset.map_comp comp_def
        by (intro image_mset_cong) (auto simp: part_request [symmetric] part_location_def)
      then show ?thesis
        using u by (auto split: option.splits)
    qed
    have t: "ok t" "refusal = None" "view t = queued (image_mset
        (\<lambda>e. part_cleanup CleanupReasonPartReplaced (poBackendName ?i) ?u (snd e))
        (filter_mset ?same (lgParts (view s)))) (view s5)"
      and rep: "reports now inst (view s5) (view t) items"
      using rest s5(1) unfolding reqs
      by (auto simp: tx_bind_Inr queued_def reports_def split: option.splits dest!: enqueueRemoved_spec)
    have "spec_record_part now p (view s) = (refusal, view t)"
      using held True unfolding t(2,3) s5(2) by (auto simp: spec_record_part_def Let_def queued_def)
    moreover have "reports now inst (view s) (view t) items"
      by (rule reports_from [OF rep]) (simp add: s5(2))
    ultimately show ?thesis
      using t(1) up by simp
  qed
qed

lemma deleteMultipartUploadTx_spec:
  assumes tx: "deleteMultipartUploadTx a u reason stale s = Inr (items, t)" and "ok s"
  shows "ok t \<and> view t = spec_delete_upload u reason (view s) \<and> reports now inst (view s) (view t) items"
proof -
  obtain b s1 where l: "lockUploadIdle a u stale s = Inr (b, s1)"
    using tx by (auto simp: deleteMultipartUploadTx_def tx_bind_Inr)
  note s1 = lockUploadIdle_spec [OF l \<open>ok s\<close>]
  show ?thesis
  proof (cases "b = []")
    case True
    with tx l s1 show ?thesis
      by (auto simp: deleteMultipartUploadTx_def tx_bind_Inr spec_delete_upload_def reports_def
          split: option.splits)
  next
    case False
    then obtain h where up: "lgUpload (view s) u = Some (b, h)"
      using s1 by (auto split: option.splits)
    from False tx l obtain parts s2 where d: "txDeleteMultipartUpload a u s1 = Inr (parts, s2)"
      and q: "queueCleanup a (map (\<lambda>part. removedCopy_request
         \<lparr>rcBackendName = b, rcStorageKey = MultipartPart_Path part u,
          rcSizeBytes = mpSizeBytes part, rcReason = []\<rparr>
         (PartPath u (mpPartNumber part)) reason) parts) s2 = Inr (items, t)"
      by (auto simp: deleteMultipartUploadTx_def tx_bind_Inr)
    have s2: "ok s2" "view s2 = (view s)\<lparr>lgParts := filter_mset (\<lambda>e. fst e \<noteq> u) (lgParts (view s)),
        lgUpload := (lgUpload (view s))(u := None)\<rparr>"
      and parts: "mset parts = image_mset (\<lambda>e. part_location (snd e)) (filter_mset (\<lambda>e. fst e = u) (lgParts (view s)))"
      using delete_upload [OF d] s1 by auto
    have "mset (map (\<lambda>part. removedCopy_request
         \<lparr>rcBackendName = b, rcStorageKey = MultipartPart_Path part u,
          rcSizeBytes = mpSizeBytes part, rcReason = []\<rparr> (PartPath u (mpPartNumber part)) reason) parts) =
      image_mset (\<lambda>e. part_cleanup reason b u (snd e)) (filter_mset (\<lambda>e. fst e = u) (lgParts (view s)))"
      by (simp add: parts multiset.map_comp comp_def part_request)
    then have t: "ok t" "view t = queued (image_mset (\<lambda>e. part_cleanup reason b u (snd e))
        (filter_mset (\<lambda>e. fst e = u) (lgParts (view s)))) (view s2)"
      and rep: "reports now inst (view s2) (view t) items"
      using queueCleanup_spec [OF q s2(1)] by auto
    have "view t = spec_delete_upload u reason (view s)"
      using False unfolding t(2) s2(2) by (simp add: spec_delete_upload_def up queued_def)
    moreover have "reports now inst (view s) (view t) items"
      by (rule reports_from [OF rep]) (simp add: s2(2))
    ultimately show ?thesis
      using t(1) by simp
  qed
qed

lemma deleteMultipartUploadTx_idle:
  assumes "deleteMultipartUploadTx a u reason stale s = Inr (items, t)" "ok s"
    and "lgUpload (view s) u = Some (b, h)"
  shows "h \<le> stale"
proof -
  obtain b' s1 where "lockUploadIdle a u stale s = Inr (b', s1)"
    using assms(1) by (auto simp: deleteMultipartUploadTx_def tx_bind_Inr)
  from lockUploadIdle_spec [OF this assms(2)] assms(3) show ?thesis by simp
qed

end

subsection \<open>Claims\<close>

context tx_engine
begin

lemma insert_pending_spec:
  "\<lbrakk>txInsertPendingIfFits a p accepts s = Inr (fits, t); ok s\<rbrakk> \<Longrightarrow>
   ok t \<and> fits = admits (view s) p accepts \<and>
   view t = (if fits then with_claim now p (view s) else view s)"
  using insert_pending by (simp add: with_claim_def)

lemma ClaimInRankOrder_from_spec:
  "\<lbrakk>ClaimInRankOrder_from out intents ranked accepts (txInsertPendingIfFits a) s = Inr (r, t); ok s\<rbrakk> \<Longrightarrow>
   ok t \<and> (r, view t) = spec_claims now out intents ranked accepts (view s)"
proof (induction ranked arbitrary: out s)
  case Nil
  then show ?case by simp
next
  case (Cons name ranked)
  show ?case
  proof (cases "length (ccClaimed out) = length intents")
    case True
    with Cons.prems show ?thesis by simp
  next
    case False
    let ?p = "(intents ! length (ccClaimed out))\<lparr>poBackendName := name\<rparr>"
    from False Cons.prems(1) obtain fits s1 where
      c: "txInsertPendingIfFits a ?p accepts s = Inr (fits, s1)"
      and r: "ClaimInRankOrder_from (if fits then out\<lparr>ccClaimed := ccClaimed out @ [?p]\<rparr>
          else out\<lparr>ccDeclined := ccDeclined out @ [name]\<rparr>) intents ranked accepts
          (txInsertPendingIfFits a) s1 = Inr (r, t)"
      by (auto simp: tx_bind_Inr Let_def)
    note s1 = insert_pending_spec [OF c Cons.prems(2)]
    show ?thesis
      using Cons.IH [OF r] s1 False by (cases fits) (simp_all add: Let_def)
  qed
qed

end

end
