(* ===== verification/StoreLive.thy ===== *)
theory StoreLive
  imports StoreRefinement
begin

text \<open>
  A write is never refused without a cause. On an engine whose statements fail only for the
  constraints of the schema (\<open>live_engine\<close>), recording an object returns whenever its copies
  name known backends, one each, at paths no other object occupies.
\<close>

definition runs :: "('s, 'a) tx \<Rightarrow> 's \<Rightarrow> bool" where
  "runs m s \<longleftrightarrow> (\<exists>x t. m s = Inr (x, t))"

lemma runs_bind: "\<lbrakk>m s = Inr (x, t); runs (f x) t\<rbrakk> \<Longrightarrow> runs (tx_bind m f) s"
  by (auto simp: runs_def tx_bind_def)

lemma runs_bind_eq:
  "runs (tx_bind m f) s \<longleftrightarrow> (case m s of Inl _ \<Rightarrow> False | Inr (x, t) \<Rightarrow> runs (f x) t)"
  by (auto simp: runs_def tx_bind_def split: sum.splits)

lemma runs_wrap [simp]: "runs (tx_wrap msg m) s \<longleftrightarrow> runs m s"
  by (auto simp: runs_def)

lemma runs_return [simp]: "runs (tx_return x) s"
  by (simp add: runs_def)

lemma ValidateTags_from_distinct:
  "ValidateTags_from seen tags = None \<Longrightarrow>
   distinct (map tagKey tags) \<and> set (map tagKey tags) \<inter> set seen = {}"
  by (induction seen tags rule: ValidateTags_from.induct) (auto split: if_splits)

lemma ValidateTags_distinct: "ValidateTags tags = None \<Longrightarrow> distinct (map tagKey tags)"
  using ValidateTags_from_distinct by (auto simp: ValidateTags_def split: if_splits)

definition recordable :: "RecordObjectRequest \<Rightarrow> ledger \<Rightarrow> bool" where
  "recordable req L \<longleftrightarrow>
     distinct (map cpBackend (rqCopies req)) \<and>
     (\<forall>c \<in> set (rqCopies req). lgLimit L (cpBackend c) \<noteq> None \<and>
       (\<forall>l \<in># lgCopies L. locObjectKey l \<noteq> rqKey req \<and> locBackendName l = cpBackend c \<longrightarrow>
          locStorageKey l \<noteq> StoragePath (rqKey req) (cpStorageKey c)))"

lemma quotaDeltas_backends: "fst ` set (quotaDeltas_add q b x) = insert b (fst ` set q)"
  by (simp add: quotaDeltas_add_def dom_update)

lemma stripe_rows_backends:
  "row \<in> set (foldl (\<lambda>rows e. stripeDeltas_add rows k (fst e) (snd e)) d deltas) \<Longrightarrow>
   fst (fst row) \<in> fst ` fst ` set d \<union> fst ` set deltas"
proof (induction deltas arbitrary: d)
  case Nil
  then show ?case by simp
next
  case (Cons e deltas)
  have "fst ` fst ` set (stripeDeltas_add d k (fst e) (snd e)) = insert (fst e) (fst ` fst ` set d)"
    by (simp add: stripeDeltas_add_def dom_update)
  with Cons.IH [of "stripeDeltas_add d k (fst e) (snd e)"] Cons.prems show ?case by auto
qed

context live_engine
begin

lemma intentsHeld_live: "ok s \<Longrightarrow> runs (intentsHeld a ids) s"
proof (induction ids arbitrary: s)
  case (Cons i ids)
  obtain b t where c: "txClaimPending a i s = Inr (b, t)"
    using claim_live [OF Cons.prems] by blast
  then have "ok t"
    using claim_pending Cons.prems by blast
  with c Cons show ?case
    by (auto intro!: runs_bind)
qed simp

lemma keyIntentsHeld_live: "ok s \<Longrightarrow> runs (keyIntentsHeld a k ids) s"
  using key_lock_live key_lock intentsHeld_live
  unfolding keyIntentsHeld_def by (meson runs_bind)

lemma overtaken_live: "ok s \<Longrightarrow> runs (overtaken_copies a sz cs) s"
proof (induction cs arbitrary: s)
  case (Cons c cs)
  obtain t where t: "(if cpIntentID c \<noteq> []
      then tx_wrap ''delete overtaken intent'' (txDeletePending a (cpIntentID c)) else tx_return ()) s = Inr ((), t)"
    "ok t"
  proof (cases "cpIntentID c = []")
    case False
    obtain t where "txDeletePending a (cpIntentID c) s = Inr ((), t)"
      using delete_pending_live [OF Cons.prems] by blast
    with False delete_pending Cons.prems that show ?thesis by fastforce
  qed (use that [of s] Cons.prems in simp)
  then obtain own t' where "overtaken_copies a sz cs t = Inr (own, t')"
    using Cons.IH [OF t(2)] by (auto simp: runs_def)
  with t show ?case
    by (auto intro!: runs_bind)
qed simp

lemma enqueueRemoved_live:
  "\<lbrakk>ok s; \<forall>d \<in> set ds. lgLimit (view s) (rcBackendName d) \<noteq> None\<rbrakk> \<Longrightarrow>
   runs (enqueueRemoved a k reason ds) s"
  unfolding enqueueRemoved_def queueCleanup_def
  by (auto simp: removedCopy_request_def runs_def intro!: insert_cleanup_live)

lemma tags_live:
  fixes tags :: "Tag list"
  shows "\<lbrakk>ok s; distinct (map tagKey tags);
    \<forall>e \<in># lgTags (view s). fst e = k \<longrightarrow> tagKey (snd e) \<notin> set (map tagKey tags)\<rbrakk> \<Longrightarrow>
   runs (tx_each (\<lambda>t. tx_wrap (m t) (txInsertObjectTag a k (tagKey t) (tagValue t))) tags) s"
proof (induction tags arbitrary: s)
  case (Cons tag tags)
  obtain t where i: "txInsertObjectTag a k (tagKey tag) (tagValue tag) s = Inr ((), t)"
    using insert_tag_live [OF Cons.prems(1)] Cons.prems(3) by fastforce
  then have t: "ok t" "lgTags (view t) = add_mset (k, tag) (lgTags (view s))"
    using insert_tag [OF i Cons.prems(1)] by auto
  have "runs (tx_each (\<lambda>t. tx_wrap (m t) (txInsertObjectTag a k (tagKey t) (tagValue t))) tags) t"
    using Cons.prems t by (intro Cons.IH) auto
  with i show ?case
    by (auto intro!: runs_bind)
qed simp

lemma replaceObjectTagsTx_live:
  assumes "ok s" "distinct (map tagKey tags)"
  shows "runs (replaceObjectTagsTx a k tags) s"
proof -
  obtain t where d: "txDeleteObjectTags a [k] s = Inr ((), t)"
    using delete_tags_live [OF assms(1)] by blast
  then have "ok t" "\<forall>e \<in># lgTags (view t). fst e \<noteq> k"
    using delete_tags [OF d assms(1)] by auto
  then have "runs (tx_each (\<lambda>t. tx_wrap (''insert tag '' @ tagKey t)
      (txInsertObjectTag a k (tagKey t) (tagValue t))) tags) t"
    using assms(2) by (intro tags_live) auto
  with d show ?thesis
    unfolding replaceObjectTagsTx_def clearTagsForKey_def by (auto intro!: runs_bind)
qed

lemma insert_copies_live:
  "\<lbrakk>ok s; distinct (map cpBackend cs);
    \<forall>c \<in> set cs. insertable (view s) (ObjectFromStoredForm (rqKey req) (cpBackend c) (cpStorageKey c)
       (rqSize req) (rqForm req) (rqIdentity req))\<rbrakk> \<Longrightarrow>
   runs (insert_copies a req cs deltas) s"
proof (induction cs arbitrary: s deltas)
  case (Cons c cs)
  let ?loc = "\<lambda>c. ObjectFromStoredForm (rqKey req) (cpBackend c) (cpStorageKey c)
       (rqSize req) (rqForm req) (rqIdentity req)"
  obtain t where i: "txInsertObjectLocation a (?loc c) s = Inr ((), t)"
    using insert_location_live [OF Cons.prems(1)] Cons.prems(3) by fastforce
  then have t: "ok t" "view t = with_copy now (?loc c) (view s)"
    using insert_location [OF i Cons.prems(1)] by auto
  have "insertable (view t) (?loc c')" if "c' \<in> set cs" for c'
    using Cons.prems(2,3) that t(2)
    by (auto simp: insertable_def with_copy_def stored_location_def ObjectFromStoredForm_def)
  then have "runs (insert_copies a req cs (quotaDeltas_add deltas (cpBackend c) (rqSize req))) t"
    using Cons.prems(2) t(1) by (intro Cons.IH) auto
  with i show ?case
    by (auto intro!: runs_bind)
qed simp

lemma chargeStripes_live:
  "\<lbrakk>ok s; fst ` set deltas \<subseteq> dom (lgLimit (view s))\<rbrakk> \<Longrightarrow> runs (chargeStripes a k deltas) s"
  unfolding chargeStripes_def charge_def Let_def
  by (auto simp: runs_def charges_of_def stripe_rows_def dest!: stripe_rows_backends
      intro!: adjust_live) force

lemma clearExistingCopies_live: "ok s \<Longrightarrow> runs (clearExistingCopies a k existing deltas) s"
  using delete_copies_live [of s "[k]"]
  by (auto simp: clearExistingCopies_def intro!: runs_bind)

lemma clearSupersededIntents_live: "ok s \<Longrightarrow> runs (clearSupersededIntents a keep committing ks) s"
  using clear_live [of s keep ks]
  by (auto simp: clearSupersededIntents_def intro!: runs_bind)

lemma insert_copies_backends:
  "insert_copies a req cs deltas s = Inr (deltas', t) \<Longrightarrow>
   fst ` set deltas' = cpBackend ` set cs \<union> fst ` set deltas"
proof (induction cs arbitrary: deltas s)
  case (Cons c cs)
  then obtain s1 where "insert_copies a req cs (quotaDeltas_add deltas (cpBackend c) (rqSize req)) s1 =
      Inr (deltas', t)"
    by (auto simp: tx_bind_Inr)
  from Cons.IH [OF this] show ?case
    by (simp add: quotaDeltas_backends)
qed simp

lemma clearExistingCopies_backends:
  assumes "clearExistingCopies a k existing [] s = Inr ((displaced, deltas), t)"
  shows "fst ` set deltas = ecBackendName ` set existing" "rcBackendName ` set displaced = ecBackendName ` set existing"
proof -
  have "fst ` set (foldl (\<lambda>q ec. quotaDeltas_add q (ecBackendName ec) (- ecSizeBytes ec)) q existing) =
      ecBackendName ` set existing \<union> fst ` set q" for q
    by (induction existing arbitrary: q) (auto simp: quotaDeltas_backends)
  with assms show "fst ` set deltas = ecBackendName ` set existing"
    by (auto simp: clearExistingCopies_def tx_bind_Inr split: if_splits)
  show "rcBackendName ` set displaced = ecBackendName ` set existing"
    using assms by (auto simp: clearExistingCopies_def tx_bind_Inr removedFromExisting_def image_image split: if_splits)
qed

lemma superseded_backends:
  assumes "clearSupersededIntents a keep committing ks s = Inr (stale, t)" "ok s"
  shows "rcBackendName ` set (alookup [] stale k) \<subseteq> dom (lgLimit (view s))"
proof -
  have "image_mset (\<lambda>d. removedCopy_request d k []) (mset (alookup [] stale k)) =
     image_mset (intent_cleanup CleanupReasonSupersededIntent)
       (filter_mset (\<lambda>p. poObjectKey p = k \<and> poObjectKey p \<in> set ks \<and> poIntentID p \<notin> set keep \<and>
          poIntentID p \<notin> set committing) (lgIntents (view s)))"
    using clearSupersededIntents_spec [OF assms] by blast
  then have "(\<lambda>d. removedCopy_request d k []) ` set (alookup [] stale k) \<subseteq>
      intent_cleanup CleanupReasonSupersededIntent ` set_mset (lgIntents (view s))"
    by (drule_tac arg_cong [where f = set_mset]) auto
  then have "crBackendName ` (\<lambda>d. removedCopy_request d k []) ` set (alookup [] stale k) \<subseteq>
      crBackendName ` intent_cleanup CleanupReasonSupersededIntent ` set_mset (lgIntents (view s))"
    by (rule image_mono)
  then have "rcBackendName ` set (alookup [] stale k) \<subseteq> poBackendName ` set_mset (lgIntents (view s))"
    by (simp add: image_image removedCopy_request_def intent_cleanup_def)
  moreover have "poBackendName ` set_mset (lgIntents (view s)) \<subseteq> dom (lgLimit (view s))"
    using ok_view [OF assms(2)] by (auto simp: ledger_ok_def)
  ultimately show ?thesis by blast
qed

lemma recordObjectTx_overtaken_live:
  assumes "ok s" "recordable req (view s)"
    and h: "keyIntentsHeld a (rqKey req) (intentIDs (rqCopies req)) s = Inr (False, s1)"
  shows "runs (recordObjectTx a req) s"
proof -
  have s1: "ok s1" "view s1 = view s"
    using keyIntentsHeld_spec [OF h assms(1)] by auto
  obtain own s2 where own: "overtaken_copies a (rqSize req) (rqCopies req) s1 = Inr (own, s2)"
    using overtaken_live [OF s1(1)] by (metis runs_def)
  note s2 = overtaken_copies_spec [OF own s1(1)]
  have "runs (enqueueRemoved a (rqKey req) CleanupReasonSupersededIntent own) s2"
    using s2 s1 assms(2) by (intro enqueueRemoved_live) (auto simp: recordable_def without_intents_def)
  then show ?thesis
    unfolding recordObjectTx_def discardOvertakenWrite_def Let_def
    by (simp add: runs_bind_eq h own)
qed

lemma recordObjectTx_held_live:
  assumes "ok s" and rec: "recordable req (view s)" and tags: "distinct (map tagKey (rqTags req))"
    and h: "keyIntentsHeld a (rqKey req) (intentIDs (rqCopies req)) s = Inr (True, s1)"
  shows "runs (recordObjectTx a req) s"
proof -
  let ?k = "rqKey req" and ?known = "dom (lgLimit (view s))"
  have s1: "ok s1" "view s1 = view s"
    using keyIntentsHeld_spec [OF h assms(1)] by auto
  obtain existing s2 where e: "txGetExistingCopiesForUpdate a [?k] s1 = Inr (existing, s2)"
    using existing_live [OF s1(1)] by blast
  have s2: "ok s2" "view s2 = view s" and ex: "mset existing = image_mset existing_of (copies_of (view s) ?k)"
    using existing_spec [OF e s1(1)] s1(2) by auto
  have "ecBackendName ` set existing = locBackendName ` set_mset (copies_of (view s) ?k)"
    using arg_cong [OF ex, of set_mset] by (simp add: image_image existing_of_def)
  then have old: "ecBackendName ` set existing \<subseteq> ?known"
    using ok_view [OF assms(1)] by (auto simp: ledger_ok_def copies_of_def)
  obtain displaced deltas s3 where c: "clearExistingCopies a ?k existing [] s2 = Inr ((displaced, deltas), s3)"
    using clearExistingCopies_live [OF s2(1)] by (metis runs_def surj_pair)
  have s3: "ok s3" "view s3 = without_copies (\<lambda>l. locObjectKey l = ?k) (view s)"
    using clearExistingCopies_spec [OF c s2(1)] ex s2(2) by auto
  obtain s4 where t: "replaceObjectTagsTx a ?k (rqTags req) s3 = Inr ((), s4)"
    using replaceObjectTagsTx_live [OF s3(1) tags] by (auto simp: runs_def)
  have s4: "ok s4" "view s4 = retagged ?k (rqTags req) (view s3)"
    using replaceObjectTagsTx_spec [OF t s3(1)] by auto
  have "runs (insert_copies a req (rqCopies req) deltas) s4"
    using rec by (intro insert_copies_live [OF s4(1)])
      (auto simp: recordable_def s4(2) s3(2) insertable_def ObjectFromStoredForm_def ledger_ops)
  then obtain deltas' s5 where i: "insert_copies a req (rqCopies req) deltas s4 = Inr (deltas', s5)"
    by (auto simp: runs_def)
  have s5: "ok s5" "lgLimit (view s5) = lgLimit (view s)"
    using insert_copies_spec [OF i s4(1)] clearExistingCopies_spec [OF c s2(1)] ex s2(2)
    by (auto simp: s4(2) s3(2) ledger_ops)
  have "fst ` set deltas' \<subseteq> ?known"
    using insert_copies_backends [OF i] clearExistingCopies_backends(1) [OF c] old rec
    by (auto simp: recordable_def)
  then obtain s6 where q: "chargeStripes a ?k deltas' s5 = Inr ((), s6)"
    using chargeStripes_live [OF s5(1), of deltas' ?k] s5(2) by (auto simp: runs_def)
  have s6: "ok s6" "lgLimit (view s6) = lgLimit (view s)"
    using chargeStripes_spec [OF q s5(1)] insert_copies_spec [OF i s4(1)]
      clearExistingCopies_spec [OF c s2(1)] ex s2(2) s5(2) by (auto simp: charged_def)
  obtain superseded s7 where z: "clearSupersededIntents a (intentIDs (rqPlacing req))
      (intentIDs (rqCopies req)) [?k] s6 = Inr (superseded, s7)"
    using clearSupersededIntents_live [OF s6(1)] by (metis runs_def)
  have s7: "ok s7" "lgLimit (view s7) = lgLimit (view s)"
    using clearSupersededIntents_spec [OF z s6(1)] s6(2) by (auto simp: without_intents_def)
  have "rcBackendName ` set (displaced @ alookup [] superseded ?k) \<subseteq> ?known"
    using clearExistingCopies_backends(2) [OF c] old superseded_backends [OF z s6(1), of ?k] s6(2)
    by (simp add: image_Un)
  then have "runs (enqueueRemoved a ?k CleanupReasonOverwritten (displaced @ alookup [] superseded ?k)) s7"
    using s7 by (intro enqueueRemoved_live) auto
  then show ?thesis
    unfolding recordObjectTx_def Let_def
    by (simp add: runs_bind_eq h e c t i q z)
qed

lemma recordObjectTx_live:
  assumes "ok s" "recordable req (view s)" "ValidateTags (rqTags req) = None"
  shows "runs (recordObjectTx a req) s"
proof -
  obtain h s1 where "keyIntentsHeld a (rqKey req) (intentIDs (rqCopies req)) s = Inr (h, s1)"
    using keyIntentsHeld_live [OF assms(1)] by (metis runs_def)
  then show ?thesis
    using assms recordObjectTx_overtaken_live recordObjectTx_held_live ValidateTags_distinct
    by (cases h) simp_all
qed

end

end
