(* ===== verification/StoreInvariants.thy ===== *)
theory StoreInvariants
  imports StoreSpec
begin

text \<open>
  What the store's operations keep, proved once on the ledger functions of \<open>StoreSpec\<close>: the
  byte counters follow the recorded copies, every stored byte stays tracked, and occupancy never
  outgrows what was claimed.
\<close>

subsection \<open>The counters follow the copies\<close>

definition stripe_bytes :: "string \<times> nat \<Rightarrow> ObjectLocation multiset \<Rightarrow> int" where
  "stripe_bytes bi M = bytes_where
     (\<lambda>l. locBackendName l = fst bi \<and> StripeFor (locObjectKey l) = snd bi) locSizeBytes M"

text \<open>How far the counter of a backend, and of one of its stripes, is from the recorded copies.\<close>

definition drift :: "ledger \<Rightarrow> string \<Rightarrow> int" where
  "drift L b = lgUsed L b - bytes_on b (lgCopies L)"

definition stripe_drift :: "ledger \<Rightarrow> string \<times> nat \<Rightarrow> int" where
  "stripe_drift L bi = lgStripe L bi - stripe_bytes bi (lgCopies L)"

definition same_drift :: "ledger \<Rightarrow> ledger \<Rightarrow> bool" where
  "same_drift L L' \<longleftrightarrow> drift L' = drift L \<and> stripe_drift L' = stripe_drift L"

lemma same_drift_refl [simp]: "same_drift L L"
  by (simp add: same_drift_def)

lemma same_drift_trans: "\<lbrakk>same_drift L M; same_drift M N\<rbrakk> \<Longrightarrow> same_drift L N"
  by (simp add: same_drift_def)

lemma same_driftI:
  "\<lbrakk>lgCopies L' = lgCopies L; lgUsed L' = lgUsed L; lgStripe L' = lgStripe L\<rbrakk> \<Longrightarrow> same_drift L L'"
  by (simp add: same_drift_def drift_def stripe_drift_def fun_eq_iff)

text \<open>A change of the copies and of the counters by the same amount.\<close>

lemma same_drift_moved:
  assumes "\<And>b. lgUsed L' b = lgUsed L b + bytes_on b (lgCopies L') - bytes_on b (lgCopies L)"
    and "\<And>bi. lgStripe L' bi = lgStripe L bi + stripe_bytes bi (lgCopies L') - stripe_bytes bi (lgCopies L)"
  shows "same_drift L L'"
  using assms by (simp add: same_drift_def drift_def stripe_drift_def fun_eq_iff)

lemma bytes_on_add [simp]:
  "bytes_on b (add_mset l M) = (if locBackendName l = b then locSizeBytes l else 0) + bytes_on b M"
  "bytes_on b (M + N) = bytes_on b M + bytes_on b N" "bytes_on b {#} = 0"
  by (simp_all add: bytes_on_def)

lemma stripe_bytes_add [simp]:
  "stripe_bytes bi (add_mset l M) =
     (if locBackendName l = fst bi \<and> StripeFor (locObjectKey l) = snd bi then locSizeBytes l else 0)
     + stripe_bytes bi M"
  "stripe_bytes bi (M + N) = stripe_bytes bi M + stripe_bytes bi N" "stripe_bytes bi {#} = 0"
  by (simp_all add: stripe_bytes_def)

lemma bytes_on_split: "bytes_on b (filter_mset (\<lambda>l. \<not> P l) M) = bytes_on b M - bytes_on b (filter_mset P M)"
  using bytes_where_split [of "\<lambda>l. locBackendName l = b" locSizeBytes M P] by (simp add: bytes_on_def)

lemma stripe_bytes_split:
  "stripe_bytes bi (filter_mset (\<lambda>l. \<not> P l) M) = stripe_bytes bi M - stripe_bytes bi (filter_mset P M)"
  using bytes_where_split [where M = M and Q = P] by (simp add: stripe_bytes_def)

text \<open>Copies of one key lie on one stripe.\<close>

lemma stripe_bytes_key:
  "(\<And>l. l \<in># M \<Longrightarrow> locObjectKey l = k) \<Longrightarrow>
   stripe_bytes bi M = (if snd bi = StripeFor k then bytes_on (fst bi) M else 0)"
  by (auto simp: stripe_bytes_def bytes_on_def intro!: bytes_where_cong bytes_where_none)

lemma stripe_bytes_copies_of:
  "stripe_bytes bi (copies_of L k) = (if snd bi = StripeFor k then bytes_on (fst bi) (copies_of L k) else 0)"
  by (rule stripe_bytes_key) (simp add: copies_of_def)

lemma stripe_bytes_new:
  "stripe_bytes bi (new_copies now req) =
     (if snd bi = StripeFor (rqKey req) then bytes_on (fst bi) (new_copies now req) else 0)"
  by (rule stripe_bytes_key) (auto simp: new_copies_def stored_location_def ObjectFromStoredForm_def)

lemma bytes_without_key:
  "bytes_on b (filter_mset (\<lambda>l. locObjectKey l \<noteq> k) (lgCopies L)) = bytes_on b (lgCopies L) - bytes_on b (copies_of L k)"
  "stripe_bytes bi (filter_mset (\<lambda>l. locObjectKey l \<noteq> k) (lgCopies L)) =
     stripe_bytes bi (lgCopies L) - (if snd bi = StripeFor k then bytes_on (fst bi) (copies_of L k) else 0)"
  using bytes_on_split [of b "\<lambda>l. locObjectKey l = k" "lgCopies L"]
    stripe_bytes_split [of bi "\<lambda>l. locObjectKey l = k" "lgCopies L"] stripe_bytes_copies_of [of bi L k]
  by (simp_all add: copies_of_def)

lemma intent_copy_fields [simp]:
  "locObjectKey (intent_copy now p) = poObjectKey p" "locBackendName (intent_copy now p) = poBackendName p"
  "locSizeBytes (intent_copy now p) = poSizeBytes p"
  "locStorageKey (intent_copy now p) = StoragePath (poObjectKey p) (poStorageKey p)"
  by (simp_all add: intent_copy_def stored_location_def ObjectFromStoredForm_def)

lemma stored_location_fields [simp]:
  "locObjectKey (stored_location now l) = locObjectKey l"
  "locBackendName (stored_location now l) = locBackendName l"
  "locSizeBytes (stored_location now l) = locSizeBytes l"
  "locStorageKey (stored_location now l) = locStorageKey l"
  by (simp_all add: stored_location_def)

lemma spec_record_drift: "same_drift L (spec_record now req L)"
proof (cases "all_held L (intentIDs (rqCopies req))")
  case True
  then show ?thesis
    by (intro same_drift_moved)
      (simp_all add: spec_record_def Let_def bytes_without_key stripe_bytes_new)
qed (auto simp: spec_record_def Let_def intro: same_driftI)

lemma spec_promote_drift: "same_drift L (snd (spec_promote now p L))"
proof -
  have "same_drift L (spec_promoted now p L)"
    by (rule same_drift_moved)
      (auto simp: spec_promoted_def Let_def ledger_ops bytes_without_key)
  then show ?thesis
    by (auto simp: spec_promote_def Let_def spec_drop_def without_intents_def intro: same_driftI)
qed

lemma spec_companion_drift: "same_drift L (snd (spec_companion now p L))"
  by (auto simp: spec_companion_def queued_def charged_def intro: same_driftI same_drift_moved)

lemma spec_discard_drift: "same_drift L (spec_discard reason p L)"
  by (auto simp: spec_discard_def spec_drop_def intro: same_driftI)

lemma spec_delete_drift: "same_drift L (spec_delete ks L)"
proof (cases "filter_mset (\<lambda>l. locObjectKey l \<in> set ks) (lgCopies L) = {#}")
  case False
  then show ?thesis
    using bytes_on_split [of _ "\<lambda>l. locObjectKey l \<in> set ks" "lgCopies L"]
      stripe_bytes_split [of _ "\<lambda>l. locObjectKey l \<in> set ks" "lgCopies L"]
    by (intro same_drift_moved) (simp_all add: spec_delete_def Let_def stripe_bytes_def)
qed (simp add: spec_delete_def)

lemma bytes_without_copy:
  assumes "filter_mset (names l) (lgCopies L) = {#l#}"
  shows "bytes_on b (filter_mset (\<lambda>l'. \<not> names l l') (lgCopies L)) =
      bytes_on b (lgCopies L) - (if locBackendName l = b then locSizeBytes l else 0)"
    "stripe_bytes bi (filter_mset (\<lambda>l'. \<not> names l l') (lgCopies L)) = stripe_bytes bi (lgCopies L) -
      (if locBackendName l = fst bi \<and> StripeFor (locObjectKey l) = snd bi then locSizeBytes l else 0)"
  using assms by (simp_all add: bytes_on_split stripe_bytes_split)

lemma spec_delete_copy_drift:
  assumes "filter_mset (names l) (lgCopies L) = {#l#}"
  shows "same_drift L (spec_delete_copy l reason L)"
  using assms by (intro same_drift_moved)
    (auto simp: spec_delete_copy_def Let_def ledger_ops bytes_without_copy)

lemma spec_place_drift:
  assumes "filter_mset (names src) (lgCopies L) = {#src#}" "locObjectKey (placedCopy p src) = locObjectKey src"
  shows "same_drift L (spec_place_commit now p src L)"
  using assms by (intro same_drift_moved)
    (auto simp: spec_place_commit_def Let_def charged_def bytes_without_copy)

lemma spec_import_drift: "same_drift L (snd (spec_import now req L))"
proof -
  have "same_drift L (charged (irKey req) (\<lambda>b. if b = irBackend req then irSize req else 0)
      (with_copy now (import_location now req) L))"
    by (rule same_drift_moved)
      (auto simp: ledger_ops import_location_def ObjectFromStoredForm_def)
  then show ?thesis
    by (auto simp: spec_import_def split: PathState.splits)
qed

lemma spec_record_part_drift: "same_drift L (snd (spec_record_part now p L))"
  by (auto simp: spec_record_part_def Let_def queued_def intro: same_driftI)

lemma spec_delete_upload_drift: "same_drift L (spec_delete_upload u reason L)"
  by (auto simp: spec_delete_upload_def split: option.splits intro: same_driftI)

lemma spec_claims_drift: "same_drift L (snd (spec_claims now out intents ranked accepts L))"
proof (induction now out intents ranked accepts L rule: spec_claims.induct)
  case (2 now out intents name ranked accepts L)
  have "same_drift L (with_claim now p L)" for p
    by (rule same_driftI) (simp_all add: with_claim_def)
  with 2 show ?case
    by (auto simp: Let_def intro: same_drift_trans)
qed simp

end
