(* ===== verification/StoreMachine.thy ===== *)
theory StoreMachine
  imports StoreLive StoreInvariants
begin

text \<open>
  The store on SQLite as a state machine: one label per exported operation of
  \<open>store/core\<close>, run through a runner that may fail to open, to commit or to find a claim
  slot. Each step is simulated by the ledger functions of \<open>StoreSpec\<close>, so what those keep
  holds in every database the store can reach, whatever the interleaving of its operations.
\<close>

subsection \<open>Operations as labels\<close>

datatype store_op =
    OpRecord RecordObjectRequest
  | OpPromote PendingObject
  | OpCompanion PendingObject
  | OpDiscard PendingObject string
  | OpDelete "string list"
  | OpDeleteCopy ObjectLocation int string
  | OpPlace Placement
  | OpImport ImportObjectRequest
  | OpRetag string "Tag list"
  | OpClaim PendingObject "64 word"
  | OpClaims "PendingObject list" "string list" "64 word"
  | OpPart RecordPartParams
  | OpDropUpload string string time

definition sqlite_ops :: "time \<Rightarrow> string \<Rightarrow> error option \<Rightarrow> error option \<Rightarrow> error option \<Rightarrow> db TxOps" where
  "sqlite_ops now inst opening committing slot =
    \<lparr>opsAdapter = sqlite_adapter now inst, opsBegin = opening, opsCommit = committing,
     opsClaimSlot = slot\<rparr>"

fun perform :: "time \<Rightarrow> 's TxOps \<Rightarrow> store_op \<Rightarrow> 's \<Rightarrow> 's" where
  "perform now r (OpRecord req) s = snd (RecordObject r req s)"
| "perform now r (OpPromote p) s = snd (PromotePending r p s)"
| "perform now r (OpCompanion p) s = snd (CommitCompanionCopy r p s)"
| "perform now r (OpDiscard p reason) s = snd (DiscardPending r p reason s)"
| "perform now r (OpDelete ks) s = snd (DeleteObjectsBatch r ks s)"
| "perform now r (OpDeleteCopy loc n reason) s = snd (DeleteObjectLocation r loc n reason s)"
| "perform now r (OpPlace p) s = snd (PlaceCopy r p s)"
| "perform now r (OpImport req) s = snd (ImportObject r now req s)"
| "perform now r (OpRetag k tags) s = snd (ReplaceObjectTags r k tags s)"
| "perform now r (OpClaim p accepts) s = snd (InsertPendingIfFits r p accepts s)"
| "perform now r (OpClaims ps ranked accepts) s = snd (ClaimPendingCopies r ps ranked accepts s)"
| "perform now r (OpPart p) s = snd (RecordPart r p s)"
| "perform now r (OpDropUpload u reason stale) s = snd (DeleteMultipartUpload r u reason stale s)"

text \<open>What each label may do to the ledger, when it does anything.\<close>

inductive spec_step :: "time \<Rightarrow> store_op \<Rightarrow> ledger \<Rightarrow> ledger \<Rightarrow> bool" for now where
  recorded: "spec_step now (OpRecord req) L (spec_record now req L)"
| promote: "spec_step now (OpPromote p) L (snd (spec_promote now p L))"
| companion: "spec_step now (OpCompanion p) L (snd (spec_companion now p L))"
| discard: "spec_step now (OpDiscard p reason) L (spec_discard reason p L)"
| delete: "spec_step now (OpDelete ks) L (spec_delete ks L)"
| delete_copy: "\<lbrakk>l \<in># copies_of L (locObjectKey loc); locBackendName l = locBackendName loc;
    locStorageKey l = locStorageKey loc;
    0 < n \<longrightarrow> n < int (size (copies_of L (locObjectKey loc))) \<and> \<not> last_readable L l\<rbrakk> \<Longrightarrow>
    spec_step now (OpDeleteCopy loc n reason) L (spec_delete_copy l reason L)"
| place_lost: "\<not> all_held L [poIntentID (plIntent p)] \<Longrightarrow>
    spec_step now (OpPlace p) L (queued {#removedCopy_request (intentBytes (plIntent p))
      (locObjectKey (plSource p)) CleanupReasonSupersededIntent#} L)"
| place_refused: "\<lbrakk>all_held L [poIntentID (plIntent p)]; spec_refusal p L = Some e\<rbrakk> \<Longrightarrow>
    spec_step now (OpPlace p) L (spec_drop (mrOrphan (plReasons p)) (plIntent p) L)"
| place: "\<lbrakk>all_held L [poIntentID (plIntent p)]; spec_refusal p L = None;
    src \<in># copies_of L (locObjectKey (plSource p)); locBackendName src = locBackendName (plSource p)\<rbrakk> \<Longrightarrow>
    spec_step now (OpPlace p) L (spec_place_commit now p src L)"
| imported: "spec_step now (OpImport req) L (snd (spec_import now req L))"
| retag: "\<lbrakk>ValidateTags tags = None; copies_of L k \<noteq> {#}\<rbrakk> \<Longrightarrow>
    spec_step now (OpRetag k tags) L (retagged k tags L)"
| claim: "admits L p accepts \<Longrightarrow> spec_step now (OpClaim p accepts) L (with_claim now p L)"
| claims: "spec_step now (OpClaims ps ranked accepts) L
    (snd (spec_claims now \<lparr>ccClaimed = [], ccDeclined = []\<rparr> ps ranked accepts L))"
| part: "\<lbrakk>ValidPartNumber (rpPartNumber p); lgUpload L (rpUploadID p) = Some (b, h);
    h \<le> rpCompletionStaleBefore p\<rbrakk> \<Longrightarrow>
    spec_step now (OpPart p) L (snd (spec_record_part now p L))"
| drop_upload: "(\<And>b h. lgUpload L u = Some (b, h) \<Longrightarrow> h \<le> stale) \<Longrightarrow>
    spec_step now (OpDropUpload u reason stale) L (spec_delete_upload u reason L)"

inductive_cases spec_recordE: "spec_step now (OpRecord req) L L'"
inductive_cases spec_placeE: "spec_step now (OpPlace p) L L'"
inductive_cases spec_partE: "spec_step now (OpPart p) L L'"
inductive_cases spec_drop_uploadE: "spec_step now (OpDropUpload u reason stale) L L'"
inductive_cases spec_delete_copyE: "spec_step now (OpDeleteCopy loc n reason) L L'"

subsection \<open>Simulation\<close>

definition simulated ::
  "time \<Rightarrow> ('s \<Rightarrow> bool) \<Rightarrow> ('s \<Rightarrow> ledger) \<Rightarrow> store_op \<Rightarrow> 's \<Rightarrow> 's \<Rightarrow> bool" where
  "simulated now ok view op s t \<longleftrightarrow> ok t \<and> (view t = view s \<or> spec_step now op (view s) (view t))"

text \<open>The state after an operation is the state after its transaction.\<close>

lemma op_states:
  "snd (PromotePending r p s) = snd (WithTxVal r (\<lambda>a. promotePendingTx a p) s)"
  "snd (CommitCompanionCopy r p s) = snd (WithTxVal r (\<lambda>a. commitCompanionTx a p) s)"
  "snd (PlaceCopy r pl s) = snd (WithTxVal r (\<lambda>a. placeCopyTx a pl) s)"
  "snd (RecordObject r req s) = (if rqCopies req = [] \<or> ValidateTags (rqTags req) \<noteq> None then s
     else snd (WithTxVal r (\<lambda>a. recordObjectTx a req) s))"
  "snd (DeleteObjectsBatch r ks s) = (if ks = [] then s else snd (WithTxVal r (\<lambda>a. deleteObjectsBatchTx a ks) s))"
  "snd (ReplaceObjectTags r k tags s) = (if ValidateTags tags \<noteq> None then s
     else snd (WithTxVal r (\<lambda>a. tx_bind (txAcquireKeyLock a [k]) (\<lambda>_.
       tx_bind (requireObjectExists a k) (\<lambda>_. replaceObjectTagsTx a k tags))) s))"
  "snd (claimTx r bs f s) = (if opsClaimSlot r \<noteq> None then s
     else snd (WithTxVal r (\<lambda>a. tx_bind (txAcquireBackendLock a bs) (\<lambda>_. f a)) s))"
  "snd (RecordPart r pp s) = (if \<not> ValidPartNumber (rpPartNumber pp) then s
     else snd (WithTxVal r (\<lambda>a. recordPartTx a pp) s))"
  by (auto simp: PromotePending_def CommitCompanionCopy_def PlaceCopy_def RecordObject_def
      DeleteObjectsBatch_def ReplaceObjectTags_def claimTx_def RecordPart_def
      split: prod.splits sum.splits option.splits)

context tx_engine
begin

lemma sim_same [intro]: "ok s \<Longrightarrow> simulated now ok view op s s"
  by (simp add: simulated_def)

lemma sim_step: "\<lbrakk>ok t; spec_step now op (view s) L'; view t = L'\<rbrakk> \<Longrightarrow> simulated now ok view op s t"
  by (simp add: simulated_def)

lemma sim_tx:
  assumes "ok s" "opsAdapter r = a" "\<And>v t. fn a s = Inr (v, t) \<Longrightarrow> simulated now ok view op s t"
  shows "simulated now ok view op s (snd (WithTxVal r fn s))"
  using assms by (auto simp: WithTxVal_def split: option.splits sum.splits)

lemma record_sim: "recordObjectTx a req s = Inr (v, t) \<Longrightarrow> ok s \<Longrightarrow> simulated now ok view (OpRecord req) s t"
  by (auto dest!: recordObjectTx_spec intro: sim_step recorded)

lemma promote_sim: "promotePendingTx a p s = Inr (v, t) \<Longrightarrow> ok s \<Longrightarrow> simulated now ok view (OpPromote p) s t"
  using promotePendingTx_spec [of p s "fst v" "snd v" t]
  by (auto intro!: sim_step [OF _ promote] dest: arg_cong [where f = snd])

lemma companion_sim: "commitCompanionTx a p s = Inr (v, t) \<Longrightarrow> ok s \<Longrightarrow> simulated now ok view (OpCompanion p) s t"
  using commitCompanionTx_spec [of p s "fst v" "snd v" t]
  by (auto intro!: sim_step [OF _ companion] dest: arg_cong [where f = snd])

lemma delete_sim: "deleteObjectsBatchTx a ks s = Inr (v, t) \<Longrightarrow> ok s \<Longrightarrow> simulated now ok view (OpDelete ks) s t"
  by (auto dest!: deleteObjectsBatchTx_spec intro: sim_step delete)

lemma delete_copy_sim:
  assumes "deleteObjectLocationTx a loc n reason s = Inr (v, t)" "ok s"
  shows "simulated now ok view (OpDeleteCopy loc n reason) s t"
  using assms by (rule deleteObjectLocationTx_spec) (auto intro: sim_step delete_copy)

lemma place_sim:
  assumes "placeCopyTx a p s = Inr (v, t)" "ok s"
  shows "simulated now ok view (OpPlace p) s t"
proof (cases "all_held (view s) [poIntentID (plIntent p)]")
  case True
  note h = placeCopyTx_held [OF assms True]
  show ?thesis
  proof (cases "spec_refusal p (view s)")
    case None
    with h obtain src where "src \<in># copies_of (view s) (locObjectKey (plSource p))"
      "locBackendName src = locBackendName (plSource p)" "view t = spec_place_commit now p src (view s)" "ok t"
      by auto
    with True None show ?thesis by (blast intro: sim_step place)
  next
    case (Some e)
    with h True show ?thesis by (auto intro!: sim_step [OF _ place_refused])
  qed
next
  case False
  with placeCopyTx_gone [OF assms] show ?thesis
    by (blast intro: sim_step place_lost)
qed

lemma import_sim: "importObjectTx a now req s = Inr (v, t) \<Longrightarrow> ok s \<Longrightarrow> simulated now ok view (OpImport req) s t"
  using importObjectTx_spec [of req s v t]
  by (auto intro!: sim_step [OF _ imported] dest: arg_cong [where f = snd])

lemma claim_sim:
  assumes "tx_bind (txAcquireBackendLock a bs) (\<lambda>_. txInsertPendingIfFits a p accepts) s = Inr (v, t)" "ok s"
  shows "simulated now ok view (OpClaim p accepts) s t"
proof -
  obtain s1 where b: "txAcquireBackendLock a bs s = Inr ((), s1)" and i: "txInsertPendingIfFits a p accepts s1 = Inr (v, t)"
    using assms(1) by (auto simp: tx_bind_Inr)
  have s1: "ok s1" "view s1 = view s"
    using backend_lock [OF b assms(2)] by auto
  show ?thesis
    using insert_pending_spec [OF i s1(1)] s1(2) by (auto simp: simulated_def intro: claim)
qed

lemma claims_sim:
  assumes "tx_bind (txAcquireBackendLock a bs) (\<lambda>_. ClaimInRankOrder ps ranked accepts (txInsertPendingIfFits a)) s
    = Inr (v, t)" "ok s"
  shows "simulated now ok view (OpClaims ps ranked accepts) s t"
proof -
  obtain s1 where b: "txAcquireBackendLock a bs s = Inr ((), s1)"
    and i: "ClaimInRankOrder_from \<lparr>ccClaimed = [], ccDeclined = []\<rparr> ps ranked accepts
      (txInsertPendingIfFits a) s1 = Inr (v, t)"
    using assms(1) by (auto simp: tx_bind_Inr ClaimInRankOrder_def)
  have s1: "ok s1" "view s1 = view s"
    using backend_lock [OF b assms(2)] by auto
  have "ok t" "view t = snd (spec_claims now \<lparr>ccClaimed = [], ccDeclined = []\<rparr> ps ranked accepts (view s))"
    using ClaimInRankOrder_from_spec [OF i s1(1)] s1(2) by (auto dest: arg_cong [where f = snd])
  then show ?thesis by (blast intro: sim_step claims)
qed

lemma retag_sim:
  assumes "tx_bind (txAcquireKeyLock a [k]) (\<lambda>_. tx_bind (requireObjectExists a k) (\<lambda>_.
      replaceObjectTagsTx a k tags)) s = Inr (v, t)" "ok s" "ValidateTags tags = None"
  shows "simulated now ok view (OpRetag k tags) s t"
  using replaceTags_spec [OF assms(1,2)] assms(3) by (blast intro: sim_step retag)

lemma part_sim:
  assumes "recordPartTx a p s = Inr (v, t)" "ok s" "ValidPartNumber (rpPartNumber p)"
  shows "simulated now ok view (OpPart p) s t"
proof -
  obtain items refusal where v: "v = (items, refusal)" by (cases v)
  have "ok t" "view t = snd (spec_record_part now p (view s))"
    "\<exists>b h. lgUpload (view s) (rpUploadID p) = Some (b, h) \<and> h \<le> rpCompletionStaleBefore p"
    using recordPartTx_spec [OF assms(1) [unfolded v] assms(2)] by (auto dest: arg_cong [where f = snd])
  with assms(3) show ?thesis by (blast intro: sim_step part)
qed

lemma drop_upload_sim:
  "deleteMultipartUploadTx a u reason stale s = Inr (v, t) \<Longrightarrow> ok s \<Longrightarrow>
   simulated now ok view (OpDropUpload u reason stale) s t"
  using deleteMultipartUploadTx_idle [of u reason stale s v t]
  by (auto dest!: deleteMultipartUploadTx_spec intro: sim_step drop_upload)

lemma discard_sim:
  "tx_bind (keyIntentsHeld a (poObjectKey p) [poIntentID p]) (\<lambda>claimed.
     if \<not> claimed then tx_return [] else dropIntent a p reason) s = Inr (v, t) \<Longrightarrow> ok s \<Longrightarrow>
   simulated now ok view (OpDiscard p reason) s t"
  by (auto dest!: discard_spec intro: sim_step discard)

lemma perform_simulated:
  assumes "ok s" "opsAdapter r = a"
  shows "simulated now ok view op s (perform now r op s)"
  by (cases op)
    (use assms in \<open>auto simp: op_states DiscardPending_def DeleteObjectLocation_def ImportObject_def
       InsertPendingIfFits_def ClaimPendingCopies_def DeleteMultipartUpload_def
     intro!: sim_tx [OF assms] intro: record_sim promote_sim companion_sim discard_sim delete_sim
       delete_copy_sim place_sim import_sim retag_sim claim_sim claims_sim part_sim drop_upload_sim\<close>)

end

subsection \<open>Interleavings\<close>

text \<open>
  What the store's operations make of a SQLite database when they run one after another, each at
  its own time, from any instance and with any failure of the runner. \<open>P\<close> restricts which
  operations take part.
\<close>

inductive store_runs :: "(store_op \<Rightarrow> bool) \<Rightarrow> db \<Rightarrow> db \<Rightarrow> bool" for P where
  start: "store_runs P d d"
| run: "\<lbrakk>store_runs P d d1; P op; opsAdapter r = sqlite_adapter now inst\<rbrakk> \<Longrightarrow>
    store_runs P d (perform now r op d1)"

lemma store_runs_invariant:
  assumes "store_runs P d d'" "schema_ok d" "I (ledger_of d)"
    and "\<And>now op L L'. \<lbrakk>P op; spec_step now op L L'; ledger_ok L; I L\<rbrakk> \<Longrightarrow> I L'"
  shows "schema_ok d' \<and> I (ledger_of d')"
  using assms(1-3)
proof (induction rule: store_runs.induct)
  case (run d d1 op r now inst)
  then have d1: "schema_ok d1" "I (ledger_of d1)" by auto
  have "ledger_ok (ledger_of d1)"
    using d1(1) by (rule schema_ok_ledger_ok)
  moreover have "simulated now schema_ok ledger_of op d1 (perform now r op d1)"
    by (rule sq.perform_simulated [OF d1(1) run.hyps(3)])
  ultimately show ?case
    using assms(4) [OF run.hyps(2)] d1 by (auto simp: simulated_def)
qed simp

end
