(* ===== verification/StoreTracking.thy ===== *)
theory StoreTracking
  imports StoreMachine
begin

text \<open>
  Where the bytes are. Every upload starts with an intent, becomes a recorded copy or part when it
  commits, and is queued for deletion when it is displaced; a place on a backend that one of these
  rows names is tracked. No operation of the store lets go of a tracked place, so no byte it wrote
  can be stranded.
\<close>

subsection \<open>Tracked places\<close>

definition copy_place :: "ObjectLocation \<Rightarrow> string \<times> string" where
  "copy_place l = (locBackendName l, StoragePath (locObjectKey l) (locStorageKey l))"

definition intent_place :: "PendingObject \<Rightarrow> string \<times> string" where
  "intent_place p = (poBackendName p, StoragePath (poObjectKey p) (poStorageKey p))"

definition request_place :: "CleanupRequest \<Rightarrow> string \<times> string" where
  "request_place r = (crBackendName r, crStorageKey r)"

definition upload_place :: "RecordObjectRequest \<Rightarrow> ObjectCopy \<Rightarrow> string \<times> string" where
  "upload_place req c = (cpBackend c, StoragePath (rqKey req) (cpStorageKey c))"

definition part_places :: "ledger \<Rightarrow> (string \<times> string) set" where
  "part_places L = (\<Union>(u, p) \<in> set_mset (lgParts L).
     case lgUpload L u of None \<Rightarrow> {} | Some (b, h) \<Rightarrow> {(b, MultipartPart_Path p u)})"

definition tracked :: "ledger \<Rightarrow> (string \<times> string) set" where
  "tracked L = copy_place ` set_mset (lgCopies L) \<union> intent_place ` set_mset (lgIntents L) \<union>
     request_place ` set_mset (lgQueued L + lgDead L) \<union> part_places L"

text \<open>
  What a caller gets right: the intents an operation settles are the ones it names. A copy that is
  deleted with no cleanup reason is one whose bytes the caller has already deleted.
\<close>

definition intent_at :: "ledger \<Rightarrow> string \<Rightarrow> string \<times> string \<Rightarrow> bool" where
  "intent_at L i pl \<longleftrightarrow> (\<forall>q \<in># lgIntents L. poIntentID q = i \<longrightarrow> intent_place q = pl)"

fun op_matches :: "store_op \<Rightarrow> ledger \<Rightarrow> bool" where
  "op_matches (OpRecord req) L \<longleftrightarrow>
     (\<forall>c \<in> set (rqCopies req). intent_at L (cpIntentID c) (upload_place req c))"
| "op_matches (OpPromote p) L \<longleftrightarrow> intent_at L (poIntentID p) (intent_place p)"
| "op_matches (OpCompanion p) L \<longleftrightarrow> intent_at L (poIntentID p) (intent_place p)"
| "op_matches (OpDiscard p reason) L \<longleftrightarrow> intent_at L (poIntentID p) (intent_place p)"
| "op_matches (OpPlace p) L \<longleftrightarrow>
     intent_at L (poIntentID (plIntent p)) (intent_place (plIntent p)) \<and>
     poObjectKey (plIntent p) = locObjectKey (plSource p)"
| "op_matches (OpDeleteCopy loc n reason) L \<longleftrightarrow> reason \<noteq> []"
| "op_matches (OpPart p) L \<longleftrightarrow>
     intent_at L (poIntentID (rpIntent p)) (intent_place (rpIntent p)) \<and>
     poObjectKey (rpIntent p) = PartPath (rpUploadID p) (rpPartNumber p) \<and>
     (case lgUpload L (rpUploadID p) of None \<Rightarrow> True | Some (b, h) \<Rightarrow> b = poBackendName (rpIntent p))"
| "op_matches op L \<longleftrightarrow> True"

lemmas place_defs = copy_place_def intent_place_def request_place_def upload_place_def

lemma request_places [simp]:
  "request_place (copy_cleanup reason l) = copy_place l"
  "request_place (intent_cleanup reason p) = intent_place p"
  "request_place (upload_cleanup req c) = upload_place req c"
  "request_place (part_cleanup reason b u part) = (b, MultipartPart_Path part u)"
  by (simp_all add: place_defs copy_cleanup_def intent_cleanup_def upload_cleanup_def part_cleanup_def
      MultipartPart_Path_def StoragePath_def)

lemma intent_copy_place [simp]: "copy_place (intent_copy now p) = intent_place p"
  by (simp add: place_defs StoragePath_def)

lemma copy_place_stored [simp]: "copy_place (stored_location now l) = copy_place l"
  by (simp add: place_defs)

lemma new_copies_places:
  "copy_place ` set_mset (new_copies now req) = upload_place req ` set (rqCopies req)"
  by (auto simp: new_copies_def image_image place_defs ObjectFromStoredForm_def StoragePath_def)

text \<open>How a change of the rows keeps the tracked places.\<close>

lemma tracked_keptI:
  assumes "\<And>l. l \<in># lgCopies L \<Longrightarrow> copy_place l \<in> tracked L'"
    and "\<And>p. p \<in># lgIntents L \<Longrightarrow> intent_place p \<in> tracked L'"
    and "lgQueued L \<subseteq># lgQueued L'" "lgDead L' = lgDead L"
    and "part_places L \<subseteq> tracked L'"
  shows "tracked L \<subseteq> tracked L'"
proof -
  have "set_mset (lgQueued L + lgDead L) \<subseteq> set_mset (lgQueued L' + lgDead L')"
    using assms(3,4) set_mset_mono by fastforce
  then have "request_place ` set_mset (lgQueued L + lgDead L) \<subseteq> tracked L'"
    by (auto simp: tracked_def)
  with assms(1,2,5) show ?thesis by (auto simp: tracked_def [of L])
qed

lemma tracked_copy: "l \<in># lgCopies L \<Longrightarrow> copy_place l \<in> tracked L"
  by (simp add: tracked_def)

lemma tracked_intent: "p \<in># lgIntents L \<Longrightarrow> intent_place p \<in> tracked L"
  by (simp add: tracked_def)

lemma tracked_request: "r \<in># lgQueued L \<Longrightarrow> request_place r \<in> tracked L"
  by (simp add: tracked_def)

lemma tracked_parts: "\<lbrakk>lgParts L' = lgParts L; lgUpload L' = lgUpload L\<rbrakk> \<Longrightarrow> part_places L \<subseteq> tracked L'"
  by (auto simp: tracked_def part_places_def)

subsection \<open>The operations keep every tracked place\<close>

lemma spec_record_tracked:
  assumes "\<forall>c \<in> set (rqCopies req). intent_at L (cpIntentID c) (upload_place req c)"
  shows "tracked L \<subseteq> tracked (spec_record now req L)" (is "_ \<subseteq> tracked ?L'")
proof (cases "all_held L (intentIDs (rqCopies req))")
  case True
  note r = spec_record_def [of now req L, unfolded Let_def if_P [OF True]]
  show ?thesis
  proof (rule tracked_keptI)
    fix l assume l: "l \<in># lgCopies L"
    have "l \<in># lgCopies ?L' \<or> copy_cleanup CleanupReasonOverwritten l \<in># lgQueued ?L'"
      using l by (auto simp: r copies_of_def)
    then show "copy_place l \<in> tracked ?L'"
      using tracked_copy tracked_request by fastforce
  next
    fix p assume p: "p \<in># lgIntents L"
    consider "p \<in># lgIntents ?L'" | "intent_cleanup CleanupReasonSupersededIntent p \<in># lgQueued ?L'"
      | "poIntentID p \<in> cpIntentID ` set (rqCopies req)"
      using p by (auto simp: r intentIDs_def)
    then show "intent_place p \<in> tracked ?L'"
    proof cases
      case 3
      then have "intent_place p \<in> upload_place req ` set (rqCopies req)"
        using assms p by (auto simp: intent_at_def)
      then have "intent_place p \<in> copy_place ` set_mset (new_copies now req)"
        by (simp add: new_copies_places)
      then show ?thesis by (auto simp: r tracked_def)
    qed (use tracked_intent tracked_request in fastforce)+
  qed (simp_all add: r tracked_parts)
next
  case False
  note r = spec_record_def [of now req L, unfolded Let_def if_not_P [OF False]]
  show ?thesis
  proof (rule tracked_keptI)
    fix p assume p: "p \<in># lgIntents L"
    consider "p \<in># lgIntents ?L'" | c where "c \<in> set (rqCopies req)" "poIntentID p = cpIntentID c"
      using p by (auto simp: r intentIDs_def)
    then show "intent_place p \<in> tracked ?L'"
    proof cases
      case (2 c)
      then have "intent_place p = request_place (upload_cleanup req c)"
        using assms p by (simp add: intent_at_def)
      with 2(1) show ?thesis by (simp add: r tracked_request del: request_places)
    qed (rule tracked_intent)
  qed (simp_all add: r tracked_parts tracked_copy)
qed

lemma spec_drop_tracked:
  assumes "intent_at L (poIntentID p) (intent_place p)"
  shows "tracked L \<subseteq> tracked (spec_drop reason p L)" (is "_ \<subseteq> tracked ?L'")
proof (rule tracked_keptI)
  fix q assume "q \<in># lgIntents L"
  with assms have "q \<in># lgIntents ?L' \<or> intent_place q = intent_place p"
    by (auto simp: spec_drop_def intent_at_def)
  moreover have "intent_place p \<in> tracked ?L'"
    using tracked_request [of "intent_cleanup reason p" ?L'] by (simp add: spec_drop_def)
  ultimately show "intent_place q \<in> tracked ?L'"
    using tracked_intent by metis
qed (auto simp: spec_drop_def tracked_parts intro: tracked_copy)

lemma spec_promote_tracked:
  assumes "intent_at L (poIntentID p) (intent_place p)"
  shows "tracked L \<subseteq> tracked (snd (spec_promote now p L))"
proof -
  have "tracked L \<subseteq> tracked (spec_promoted now p L)" (is "_ \<subseteq> tracked ?L'")
  proof (rule tracked_keptI)
    fix l assume l: "l \<in># lgCopies L"
    have "l \<in># lgCopies ?L' \<or> copy_cleanup CleanupReasonOverwritten l \<in># lgQueued ?L'"
      using l by (auto simp: spec_promoted_def Let_def ledger_ops copies_of_def)
    then show "copy_place l \<in> tracked ?L'"
      using tracked_copy tracked_request by fastforce
  next
    fix q assume "q \<in># lgIntents L"
    with assms have "q \<in># lgIntents ?L' \<or> intent_place q = copy_place (intent_copy now p)"
      by (auto simp: spec_promoted_def Let_def ledger_ops intent_at_def)
    moreover have "intent_copy now p \<in># lgCopies ?L'"
      by (simp add: spec_promoted_def Let_def ledger_ops)
    ultimately show "intent_place q \<in> tracked ?L'"
      using tracked_intent tracked_copy by metis
  qed (simp_all add: spec_promoted_def Let_def ledger_ops tracked_parts)
  moreover have "tracked L \<subseteq> tracked (without_intents (\<lambda>q. poIntentID q = poIntentID p) L)"
    if "l \<in># copies_of L (poObjectKey p)" "locBackendName l = poBackendName p" "locStorageKey l = poStorageKey p" for l
  proof (rule tracked_keptI)
    let ?L' = "without_intents (\<lambda>q. poIntentID q = poIntentID p) L"
    fix q assume "q \<in># lgIntents L"
    with assms that have "q \<in># lgIntents ?L' \<or> intent_place q = copy_place l" "l \<in># lgCopies ?L'"
      by (auto simp: without_intents_def intent_at_def copies_of_def place_defs)
    then show "intent_place q \<in> tracked ?L'"
      using tracked_intent tracked_copy by metis
  qed (auto simp: without_intents_def tracked_parts intro: tracked_copy)
  ultimately show ?thesis
    using spec_drop_tracked [OF assms] by (simp add: spec_promote_def Let_def) metis
qed

lemma tracked_queued: "tracked L \<subseteq> tracked (queued M L)"
  by (rule tracked_keptI) (auto simp: queued_def tracked_parts intro: tracked_copy tracked_intent)

lemma spec_companion_tracked:
  assumes "intent_at L (poIntentID p) (intent_place p)"
  shows "tracked L \<subseteq> tracked (snd (spec_companion now p L))" (is "_ \<subseteq> tracked ?L'")
proof (cases "poIntentID p \<noteq> [] \<and> \<not> holds_intent L (poIntentID p)")
  case True
  then show ?thesis by (simp add: spec_companion_def tracked_queued)
next
  case False
  note c = spec_companion_def [of now p L, unfolded if_not_P [OF False]]
  show ?thesis
  proof (rule tracked_keptI)
    fix q assume "q \<in># lgIntents L"
    with assms have "q \<in># lgIntents ?L' \<or> intent_place q = copy_place (intent_copy now p)"
      by (auto simp: c charged_def intent_at_def)
    moreover have "intent_copy now p \<in># lgCopies ?L'"
      by (simp add: c charged_def)
    ultimately show "intent_place q \<in> tracked ?L'"
      using tracked_intent tracked_copy by metis
  qed (auto simp: c charged_def tracked_parts intro!: tracked_copy)
qed

lemma spec_delete_tracked: "tracked L \<subseteq> tracked (spec_delete ks L)" (is "_ \<subseteq> tracked ?L'")
proof (cases "filter_mset (\<lambda>l. locObjectKey l \<in> set ks) (lgCopies L) = {#}")
  case False
  note d = spec_delete_def [of ks L, unfolded Let_def if_not_P [OF False]]
  show ?thesis
  proof (rule tracked_keptI)
    fix l assume l: "l \<in># lgCopies L"
    have "l \<in># lgCopies ?L' \<or> copy_cleanup CleanupReasonDeleted l \<in># lgQueued ?L'"
      using l by (auto simp: d)
    then show "copy_place l \<in> tracked ?L'"
      using tracked_copy tracked_request by fastforce
  next
    fix p assume p: "p \<in># lgIntents L"
    have "p \<in># lgIntents ?L' \<or> intent_cleanup CleanupReasonSupersededIntent p \<in># lgQueued ?L'"
      using p by (auto simp: d)
    then show "intent_place p \<in> tracked ?L'"
      using tracked_intent tracked_request by fastforce
  qed (simp_all add: d tracked_parts)
qed (simp add: spec_delete_def)

text \<open>A copy that leaves the ledger with its cleanup queued stays tracked.\<close>

lemma removed_copy_tracked:
  assumes "filter_mset (names l) (lgCopies L) = {#l#}" "l' \<in># lgCopies L"
    and "filter_mset (\<lambda>l'. \<not> names l l') (lgCopies L) \<subseteq># lgCopies L'" "copy_cleanup reason l \<in># lgQueued L'"
  shows "copy_place l' \<in> tracked L'"
proof (cases "names l l'")
  case True
  then have "l' \<in># filter_mset (names l) (lgCopies L)"
    using assms(2) by simp
  then have "l' = l" by (simp add: assms(1))
  with assms(4) show ?thesis
    using tracked_request by fastforce
next
  case False
  with assms(2,3) have "l' \<in># lgCopies L'" by (auto dest: mset_subset_eqD)
  then show ?thesis by (rule tracked_copy)
qed

lemma spec_delete_copy_tracked:
  assumes "filter_mset (names l) (lgCopies L) = {#l#}" "reason \<noteq> []"
  shows "tracked L \<subseteq> tracked (spec_delete_copy l reason L)"
  using assms(2)
  by (intro tracked_keptI removed_copy_tracked [OF assms(1)] tracked_intent)
    (auto simp: spec_delete_copy_def Let_def ledger_ops tracked_parts)

lemma placedCopy_place:
  "copy_place (placedCopy p src) = (poBackendName (plIntent p), StoragePath (locObjectKey src) (poStorageKey (plIntent p)))"
  by (simp add: place_defs placedCopy_def CopyAt_def Let_def StoragePath_def)

lemma spec_place_tracked:
  assumes "filter_mset (names src) (lgCopies L) = {#src#}"
    and "intent_at L (poIntentID (plIntent p)) (intent_place (plIntent p))" "poObjectKey (plIntent p) = locObjectKey src"
  shows "tracked L \<subseteq> tracked (spec_place_commit now p src L)" (is "_ \<subseteq> tracked ?L'")
proof (rule tracked_keptI)
  fix l assume l: "l \<in># lgCopies L"
  show "copy_place l \<in> tracked ?L'"
  proof (cases "plRemoveSource p")
    case True
    then show ?thesis
      by (intro removed_copy_tracked [OF assms(1) l, where reason = "mrSourceDelete (plReasons p)"])
        (simp_all add: spec_place_commit_def Let_def charged_def)
  next
    case False
    with l show ?thesis
      by (intro tracked_copy) (simp add: spec_place_commit_def Let_def charged_def)
  qed
next
  fix q assume "q \<in># lgIntents L"
  with assms have "q \<in># lgIntents ?L' \<or> intent_place q = copy_place (placedCopy p src)"
    by (auto simp: spec_place_commit_def Let_def charged_def intent_at_def placedCopy_place intent_place_def)
  moreover have "stored_location now (placedCopy p src) \<in># lgCopies ?L'"
    by (simp add: spec_place_commit_def Let_def charged_def)
  ultimately show "intent_place q \<in> tracked ?L'"
    using tracked_intent tracked_copy copy_place_stored by metis
qed (simp_all add: spec_place_commit_def Let_def charged_def tracked_parts)

lemma spec_import_tracked: "tracked L \<subseteq> tracked (snd (spec_import now req L))"
proof -
  have "tracked L \<subseteq> tracked (charged k \<delta> (with_copy now l L))" for k \<delta> l
    by (rule tracked_keptI) (auto simp: ledger_ops tracked_parts intro!: tracked_copy tracked_intent)
  then show ?thesis
    by (auto simp: spec_import_def split: PathState.splits)
qed

lemma with_claim_tracked: "tracked L \<subseteq> tracked (with_claim now p L)"
  by (rule tracked_keptI) (auto simp: with_claim_def tracked_parts intro!: tracked_copy tracked_intent)

lemma spec_claims_tracked: "tracked L \<subseteq> tracked (snd (spec_claims now out intents ranked accepts L))"
proof (induction now out intents ranked accepts L rule: spec_claims.induct)
  case (2 now out intents name ranked accepts L)
  then show ?case
    using with_claim_tracked [of L now] by (simp add: Let_def) blast
qed simp

lemma spec_record_part_tracked:
  assumes "intent_at L (poIntentID (rpIntent p)) (intent_place (rpIntent p))"
    and "poObjectKey (rpIntent p) = PartPath (rpUploadID p) (rpPartNumber p)"
    and up: "lgUpload L (rpUploadID p) = Some (poBackendName (rpIntent p), h)"
  shows "tracked L \<subseteq> tracked (snd (spec_record_part now p L))" (is "_ \<subseteq> tracked ?L'")
proof (cases "poIntentID (rpIntent p) \<noteq> [] \<and> \<not> holds_intent L (poIntentID (rpIntent p))")
  case True
  then show ?thesis by (simp add: spec_record_part_def Let_def tracked_queued)
next
  case False
  note r = spec_record_part_def [of now p L, unfolded Let_def if_not_P [OF False]]
  let ?u = "rpUploadID p"
  show ?thesis
  proof (rule tracked_keptI)
    fix q assume "q \<in># lgIntents L"
    with assms(1) have "q \<in># lgIntents ?L' \<or> intent_place q = intent_place (rpIntent p)"
      by (auto simp: r intent_at_def)
    moreover have "intent_place (rpIntent p) \<in> part_places ?L'"
      by (auto simp: r part_places_def up assms(2) intent_place_def MultipartPart_Path_def stored_part_def StoragePath_def)
    ultimately show "intent_place q \<in> tracked ?L'"
      using tracked_intent by (fastforce simp: tracked_def)
  next
    show "part_places L \<subseteq> tracked ?L'"
    proof (clarsimp simp: part_places_def [of L] split: option.splits)
      fix u part b h' assume e: "(u, part) \<in># lgParts L" "lgUpload L u = Some (b, h')"
      consider "(u, part) \<in># lgParts ?L'" | "u = ?u" "part_cleanup CleanupReasonPartReplaced b u part \<in># lgQueued ?L'"
        using e up by (force simp: r)
      then show "(b, MultipartPart_Path part u) \<in> tracked ?L'"
      proof cases
        case 1
        with e(2) have "(b, MultipartPart_Path part u) \<in> part_places ?L'"
          by (force simp: part_places_def r)
        then show ?thesis by (simp add: tracked_def)
      qed (use tracked_request in fastforce)
    qed
  qed (auto simp: r intro: tracked_copy)
qed

lemma spec_delete_upload_tracked: "tracked L \<subseteq> tracked (spec_delete_upload u reason L)" (is "_ \<subseteq> tracked ?L'")
proof (cases "lgUpload L u")
  case (Some bh)
  obtain b h where bh: "bh = (b, h)" by (cases bh)
  show ?thesis
  proof (cases "b = []")
    case False
    note d = spec_delete_upload_def [of u reason L, unfolded Some bh option.case prod.case if_not_P [OF False]]
    show ?thesis
    proof (rule tracked_keptI)
      show "part_places L \<subseteq> tracked ?L'"
      proof (clarsimp simp: part_places_def [of L] split: option.splits)
        fix v part b' h' assume e: "(v, part) \<in># lgParts L" "lgUpload L v = Some (b', h')"
        show "(b', MultipartPart_Path part v) \<in> tracked ?L'"
        proof (cases "v = u")
          case True
          with e Some bh have "part_cleanup reason b' v part \<in># lgQueued ?L'" by (force simp: d)
          then show ?thesis using tracked_request by fastforce
        next
          case False
          with e have "(b', MultipartPart_Path part v) \<in> part_places ?L'"
            by (force simp: part_places_def d)
          then show ?thesis by (simp add: tracked_def)
        qed
      qed
    qed (auto simp: d intro: tracked_copy tracked_intent)
  qed (simp add: spec_delete_upload_def Some bh)
qed (simp add: spec_delete_upload_def)

lemma spec_step_tracked:
  assumes "spec_step now op L L'" "ledger_ok L" "op_matches op L"
  shows "tracked L \<subseteq> tracked L'"
  using assms
proof (induction rule: spec_step.induct)
  case (recorded req L)
  then show ?case by (simp add: spec_record_tracked)
next
  case (promote p L)
  then show ?case by (simp add: spec_promote_tracked)
next
  case (companion p L)
  then show ?case by (simp add: spec_companion_tracked)
next
  case (discard p reason L)
  then show ?case by (simp add: spec_discard_def spec_drop_tracked)
next
  case (delete_copy l L loc n reason)
  then show ?case
    by (intro spec_delete_copy_tracked copies_of_names) auto
next
  case (place_refused L p e)
  then show ?case by (simp add: spec_drop_tracked)
next
  case (place L p src)
  then have "locObjectKey src = locObjectKey (plSource p)" by (simp add: copies_of_def)
  with place show ?case
    by (intro spec_place_tracked copies_of_names) auto
next
  case (retag tags L k)
  show ?case
    by (rule tracked_keptI) (auto simp: retagged_def tracked_parts intro: tracked_copy tracked_intent)
next
  case (part p L b h)
  then show ?case by (intro spec_record_part_tracked) auto
qed (simp_all add: spec_delete_tracked tracked_queued spec_import_tracked with_claim_tracked
    spec_claims_tracked spec_delete_upload_tracked)

end
