(* ===== verification/StoreCapacity.thy ===== *)
theory StoreCapacity
  imports StoreMachine
begin

text \<open>
  What occupies a backend: recorded bytes, bytes queued for deletion, parts of open uploads and the
  intents of writes still uploading. A claim reserves room before a byte is sent, and the commit
  that follows turns the reservation into recorded bytes, so a ceiling checked at the claim still
  holds at the commit.
\<close>

definition within_limit :: "ledger \<Rightarrow> string \<Rightarrow> bool" where
  "within_limit L b \<longleftrightarrow> (case lgLimit L b of None \<Rightarrow> True | Some l \<Rightarrow> l = 0 \<or> occupied L b \<le> l)"

lemma with_claim_occupied:
  "occupied (with_claim now p L) b = occupied L b + (if poBackendName p = b then poSizeBytes p else 0)"
  by (simp add: occupied_def orphanBytes_def partBytes_def intentInflight_def with_claim_def stored_intent_def)

lemma with_claim_limit [simp]: "lgLimit (with_claim now p L) = lgLimit L"
  by (simp add: with_claim_def)

lemma claim_within:
  assumes "admits L p accepts"
  shows "occupied (with_claim now p L) b = occupied L b \<or> within_limit (with_claim now p L) b"
  using assms by (auto simp: admits_def within_limit_def with_claim_occupied split: option.splits)

lemma spec_claims_limit [simp]: "lgLimit (snd (spec_claims now out intents ranked accepts L)) = lgLimit L"
  by (induction now out intents ranked accepts L rule: spec_claims.induct) (auto simp: Let_def)

lemma spec_claims_within:
  "occupied (snd (spec_claims now out intents ranked accepts L)) b = occupied L b \<or>
   within_limit (snd (spec_claims now out intents ranked accepts L)) b"
proof (induction now out intents ranked accepts L rule: spec_claims.induct)
  case (2 now out intents name ranked accepts L)
  let ?p = "(intents ! length (ccClaimed out))\<lparr>poBackendName := name\<rparr>"
  show ?case
  proof (cases "length (ccClaimed out) = length intents \<or> \<not> admits L ?p accepts")
    case True
    with 2 show ?thesis by (auto simp: Let_def)
  next
    case False
    let ?L = "with_claim now ?p L"
      and ?L' = "snd (spec_claims now (out\<lparr>ccClaimed := ccClaimed out @ [?p]\<rparr>) intents ranked accepts (with_claim now ?p L))"
    have "occupied ?L' b = occupied ?L b \<or> within_limit ?L' b"
      using 2 False by simp
    moreover have "occupied ?L b = occupied L b \<or> within_limit ?L b"
      using claim_within False by blast
    ultimately have "occupied ?L' b = occupied L b \<or> within_limit ?L' b"
      by (auto simp: within_limit_def split: option.splits)
    with False show ?thesis by (simp add: Let_def)
  qed
qed simp

inductive_cases spec_claimE: "spec_step now (OpClaim p accepts) L L'"
inductive_cases spec_claimsE: "spec_step now (OpClaims ps ranked accepts) L L'"

lemma spec_step_claim_within:
  "spec_step now (OpClaim p accepts) L L' \<Longrightarrow> occupied L' b = occupied L b \<or> within_limit L' b"
  by (erule spec_claimE, hypsubst, rule claim_within)

lemma spec_step_claims_within:
  "spec_step now (OpClaims ps ranked accepts) L L' \<Longrightarrow> occupied L' b = occupied L b \<or> within_limit L' b"
  by (erule spec_claimsE, hypsubst, rule spec_claims_within)

subsection \<open>A commit keeps the occupancy\<close>

lemma filter_insert_unique:
  assumes "unique_by f M" "p \<in># M" "f p \<notin> S"
  shows "filter_mset (\<lambda>q. f q \<in> insert (f p) S) M = add_mset p (filter_mset (\<lambda>q. f q \<in> S) M)"
proof -
  obtain N where M: "M = add_mset p N" using assms(2) by (metis mset_add)
  then have "f p \<notin> f ` set_mset N" using assms(1) by simp
  then have "filter_mset (\<lambda>q. f q \<in> insert (f p) S) N = filter_mset (\<lambda>q. f q \<in> S) N"
    by (intro filter_mset_cong) (auto simp: image_iff)
  with assms(3) show ?thesis by (simp add: M)
qed

text \<open>The intents of a write's copies reserve exactly the bytes the copies take.\<close>

definition reserved :: "ledger \<Rightarrow> RecordObjectRequest \<Rightarrow> bool" where
  "reserved L req \<longleftrightarrow> distinct (intentIDs (rqCopies req)) \<and>
     (\<forall>c \<in> set (rqCopies req). \<exists>p \<in># lgIntents L. poIntentID p = cpIntentID c \<and> poObjectKey p = rqKey req \<and>
        poBackendName p = cpBackend c \<and> poSizeBytes p = rqSize req \<and>
        poIntentID p \<notin> set (intentIDs (rqPlacing req)))"

lemma reserved_bytes:
  assumes "unique_by poIntentID I" "distinct (map cpIntentID cs)"
    and "\<forall>c \<in> set cs. \<exists>p \<in># I. poIntentID p = cpIntentID c \<and> poBackendName p = cpBackend c \<and> poSizeBytes p = sz"
  shows "bytes_where (\<lambda>p. poBackendName p = b) poSizeBytes (filter_mset (\<lambda>p. poIntentID p \<in> cpIntentID ` set cs) I) =
    sum_where (\<lambda>c. cpBackend c = b) (\<lambda>_. sz) cs"
  using assms(2,3)
proof (induction cs)
  case (Cons c cs)
  then obtain p where p: "p \<in># I" "poIntentID p = cpIntentID c" "poBackendName p = cpBackend c" "poSizeBytes p = sz"
    by auto
  have "filter_mset (\<lambda>q. poIntentID q \<in> insert (poIntentID p) (cpIntentID ` set cs)) I =
      add_mset p (filter_mset (\<lambda>q. poIntentID q \<in> cpIntentID ` set cs) I)"
    using Cons.prems p(2) by (intro filter_insert_unique [OF assms(1) p(1)]) auto
  with Cons p show ?case by simp
qed simp

lemma new_copies_bytes: "bytes_on b (new_copies now req) = sum_where (\<lambda>c. cpBackend c = b) (\<lambda>_. rqSize req) (rqCopies req)"
  by (simp add: bytes_on_def new_copies_def ObjectFromStoredForm_def flip: bytes_where_mset)

lemma bytes_on_nonneg: "\<forall>l \<in># M. 0 \<le> locSizeBytes l \<Longrightarrow> 0 \<le> bytes_on b M"
  by (simp add: bytes_on_def bytes_where_nonneg)

lemma spec_record_occupied:
  assumes "ledger_ok L" "reserved L req" "drift L b = 0" "\<forall>l \<in># lgCopies L. 0 \<le> locSizeBytes l" "0 \<le> rqSize req"
  shows "occupied (spec_record now req L) b = occupied L b"
proof -
  let ?k = "rqKey req" and ?ids = "cpIntentID ` set (rqCopies req)" and ?L' = "spec_record now req L"
  let ?stale = "\<lambda>p. poObjectKey p = ?k \<and> poIntentID p \<notin> set (intentIDs (rqPlacing req))"
  let ?on = "\<lambda>p. poBackendName p = b"
  have held: "all_held L (intentIDs (rqCopies req))"
    using assms(2) by (auto simp: reserved_def all_held_def holds_intent_def intentIDs_def)
  note r = spec_record_def [of now req L, unfolded Let_def if_P [OF held]]
  have uniq: "unique_by poIntentID (lgIntents L)"
    using assms(1) by (simp add: ledger_ok_def)
  have named: "?stale p" if p: "p \<in># lgIntents L" "poIntentID p \<in> ?ids" for p
  proof -
    obtain q where q: "q \<in># lgIntents L" "poIntentID q = poIntentID p" "?stale q"
      using assms(2) p(2) by (fastforce simp: reserved_def)
    with uniq p(1) have "q = p"
      by (metis mset_add insert_noteq_member unique_by_add image_eqI)
    with q show ?thesis by simp
  qed
  have "filter_mset ?stale (lgIntents L) = filter_mset (\<lambda>p. poIntentID p \<in> ?ids) (lgIntents L) +
      filter_mset (\<lambda>p. ?stale p \<and> poIntentID p \<notin> set (intentIDs (rqCopies req))) (lgIntents L)"
    using named by (subst multiset_partition [of _ "\<lambda>p. poIntentID p \<in> ?ids"])
      (auto simp: filter_filter_mset intentIDs_def intro!: arg_cong2 [where f = "(+)"] filter_mset_cong)
  then have stale: "bytes_where ?on poSizeBytes (filter_mset ?stale (lgIntents L)) =
      bytes_on b (new_copies now req) + bytes_where ?on poSizeBytes
        (filter_mset (\<lambda>p. ?stale p \<and> poIntentID p \<notin> set (intentIDs (rqCopies req))) (lgIntents L))"
    using reserved_bytes [OF uniq, of "rqCopies req" "rqSize req" b] assms(2)
    by (auto simp: reserved_def new_copies_bytes intentIDs_def)
  have used: "0 \<le> lgUsed L b"
    using assms(3,4) bytes_on_nonneg by (simp add: drift_def)
  have "\<forall>l \<in># lgCopies ?L'. 0 \<le> locSizeBytes l"
    using assms(4,5) by (auto simp: r new_copies_def ObjectFromStoredForm_def)
  moreover have "drift ?L' b = 0"
    using spec_record_drift [of L now req] assms(3) by (simp add: same_drift_def)
  ultimately have used': "0 \<le> lgUsed ?L' b"
    using bytes_on_nonneg [of "lgCopies ?L'" b] by (simp add: drift_def)
  have "intentInflight ?L' b = intentInflight L b - bytes_where ?on poSizeBytes (filter_mset ?stale (lgIntents L))"
    using bytes_where_split [of ?on poSizeBytes "lgIntents L" ?stale] by (simp add: r intentInflight_def)
  moreover have "orphanBytes ?L' b = orphanBytes L b + bytes_on b (copies_of L ?k) + bytes_where ?on poSizeBytes
      (filter_mset (\<lambda>p. ?stale p \<and> poIntentID p \<notin> set (intentIDs (rqCopies req))) (lgIntents L))"
    by (simp add: r orphanBytes_def copy_cleanup_def intent_cleanup_def bytes_on_def)
  moreover have "lgUsed ?L' b = lgUsed L b + bytes_on b (new_copies now req) - bytes_on b (copies_of L ?k)"
    "partBytes ?L' b = partBytes L b"
    by (simp_all add: r partBytes_def)
  ultimately show ?thesis
    using used used' stale by (simp add: occupied_def)
qed

end
