(* ===== verification/Samples.thy ===== *)
theory Samples
  imports SqliteEngine
begin

text \<open>
  Concrete databases for the witnesses of the development: the empty database a fresh schema
  gives, and small ones with a backend, a recorded object, an intent and queued cleanups.
\<close>

definition empty_db :: db where
  "empty_db = \<lparr>dbQuotas = [], dbStripes = [], dbLocations = [], dbPending = [], dbQueue = [],
     dbQueueSeq = 0, dbDlq = [], dbTags = [], dbUploads = [], dbParts = [], dbStates = []\<rparr>"

lemma empty_db_ok: "schema_ok empty_db"
  by (simp add: empty_db_def schema_ok_def)

definition sample_request :: "string \<Rightarrow> string \<Rightarrow> CleanupRequest" where
  "sample_request b k = \<lparr>crBackendName = b, crObjectKey = k, crStorageKey = k, crReason = ''deleted'', crSizeBytes = 10\<rparr>"

definition sample_queue_row :: "nat \<Rightarrow> QueueRow" where
  "sample_queue_row i = \<lparr>qrID = i, qrRequest = sample_request ''b1'' ''k'', qrCreatedAt = int i, qrNextRetry = int i,
     qrAttempts = 0, qrLastError = [], qrClaimedAt = None, qrClaimedBy = []\<rparr>"

definition sample_queue_db :: db where
  "sample_queue_db = empty_db\<lparr>dbQuotas := [(''b1'', 1000)], dbQueue := [sample_queue_row 1, sample_queue_row 2],
     dbQueueSeq := 2, dbDlq := [\<lparr>drOriginalID = 0, drRequest = sample_request ''b1'' ''old'', drAttempts = 9,
       drFirstEnqueued = 1, drMovedAt = 2, drLastError = ''timeout''\<rparr>]\<rparr>"

definition sample_copy :: "string \<Rightarrow> string \<Rightarrow> string \<Rightarrow> ObjectLocation" where
  "sample_copy k b path = stored_location 5 (ObjectFromStoredForm k b path 10 None None)"

lemma StripeFor_k: "StripeFor ''k'' = 10"
  by (simp add: StripeFor_def fnv32a_def QuotaStripeCount_def of_char_def)

text \<open>One tagged object on one backend, charged to its stripe, and a second backend.\<close>

definition sample_db :: db where
  "sample_db = empty_db\<lparr>dbQuotas := [(''b1'', 1000), (''b2'', 0)],
     dbStripes := [((''b1'', 10), 10)],
     dbLocations := [sample_copy ''k'' ''b1'' ''k!1''],
     dbTags := [(''k'', \<lparr>tagKey = ''team'', tagValue = ''a''\<rparr>)]\<rparr>"

definition sample_intent :: "string \<Rightarrow> string \<Rightarrow> string \<Rightarrow> string \<Rightarrow> PendingObject" where
  "sample_intent i k b path =
    \<lparr>poForm = zeroForm, poIntentID = i, poObjectKey = k, poStorageKey = path, poBackendName = b,
     poSizeBytes = 10, poIdentity = None, poTags = [], poCreatedAt = 0, poRole = PendingRolePrimary\<rparr>"

text \<open>Two writes of the object that race, each with its intent recorded.\<close>

definition sample_write :: "string \<Rightarrow> string \<Rightarrow> string \<Rightarrow> RecordObjectRequest" where
  "sample_write i b path =
    \<lparr>rqKey = ''k'', rqSize = 10, rqForm = None, rqIdentity = None, rqTags = [],
     rqCopies = [\<lparr>cpBackend = b, cpIntentID = i, cpStorageKey = path\<rparr>], rqPlacing = []\<rparr>"

definition sample_race_db :: db where
  "sample_race_db = sample_db\<lparr>dbPending := [sample_intent ''i'' ''k'' ''b2'' ''k!2'', sample_intent ''j'' ''k'' ''b1'' ''k!3'']\<rparr>"

lemma sample_race_ok: "schema_ok sample_race_db"
  by code_simp

end
