(* ===== verification/StoreProps.thy ===== *)
theory StoreProps
  imports StoreTracking StoreCapacity Samples
begin

text \<open>
  What the store guarantees its callers on SQLite: its operations refine the ledger functions,
  lose track of no stored byte, resolve racing writes, respect the ceilings and the rules for
  removing and importing copies.
\<close>

subsection \<open>The counters follow the copies\<close>

lemma placedCopy_key [simp]: "locObjectKey (placedCopy p src) = locObjectKey src"
  by (simp add: placedCopy_def CopyAt_def Let_def)

lemma spec_step_drift:
  assumes "spec_step now op L L'" "ledger_ok L"
  shows "same_drift L L'"
  using assms
proof (induction rule: spec_step.induct)
  case (delete_copy l L loc n reason)
  then show ?case
    by (intro spec_delete_copy_drift copies_of_names) (auto simp: copies_of_def)
next
  case (place L p src)
  then show ?case
    by (intro spec_place_drift copies_of_names) (auto simp: copies_of_def)
qed (auto intro: spec_record_drift spec_promote_drift spec_companion_drift spec_discard_drift
    spec_delete_drift spec_import_drift spec_record_part_drift spec_delete_upload_drift
    spec_claims_drift same_driftI simp: queued_def spec_drop_def retagged_def with_claim_def)

subsection \<open>Refinement\<close>

text \<open>
  C3. Every operation of the store, whatever becomes of its transaction, leaves the SQLite database
  with its constraints intact, and changes what the database holds either not at all or exactly as
  the ledger function of the operation does.
\<close>

theorem store_refines_ledger:
  assumes "schema_ok d" "opsAdapter r = sqlite_adapter now inst"
  shows "schema_ok (perform now r op d) \<and>
    (ledger_of (perform now r op d) = ledger_of d \<or> spec_step now op (ledger_of d) (ledger_of (perform now r op d)))"
  using sq.perform_simulated [OF assms, of op] by (simp add: simulated_def)

theorem store_refines_ledger_witness:
  "schema_ok (perform 9 (sqlite_ops 9 ''i'' None None None) (OpDelete [''k'']) sample_db) \<and>
   (ledger_of (perform 9 (sqlite_ops 9 ''i'' None None None) (OpDelete [''k'']) sample_db) = ledger_of sample_db \<or>
    spec_step 9 (OpDelete [''k'']) (ledger_of sample_db)
      (ledger_of (perform 9 (sqlite_ops 9 ''i'' None None None) (OpDelete [''k'']) sample_db)))"
proof -
  have ok: "schema_ok sample_db" by code_simp
  show ?thesis
    by (rule store_refines_ledger [OF ok, where inst = "''i''"]) (simp add: sqlite_ops_def)
qed

subsection \<open>No stored byte is lost\<close>

text \<open>Interleavings in which every operation names the intents it settles correctly.\<close>

inductive matched_runs :: "db \<Rightarrow> db \<Rightarrow> bool" where
  start: "matched_runs d d"
| run: "\<lbrakk>matched_runs d d1; op_matches op (ledger_of d1); opsAdapter r = sqlite_adapter now inst\<rbrakk> \<Longrightarrow>
    matched_runs d (perform now r op d1)"



subsection \<open>Writes\<close>

lemma new_copies_key: "l \<in># new_copies now req \<Longrightarrow> locObjectKey l = rqKey req"
  by (auto simp: new_copies_def ObjectFromStoredForm_def)

lemma filter_new_copies:
  "filter_mset (\<lambda>l. locObjectKey l = rqKey req) (new_copies now req) = new_copies now req"
  "filter_mset (\<lambda>l. locObjectKey l \<noteq> rqKey req) (new_copies now req) = {#}"
  using new_copies_key by (auto simp: filter_mset_eq_conv)

lemma RecordObject_ledger:
  assumes "schema_ok d" "opsAdapter r = sqlite_adapter now inst" "RecordObject r req d = (Inr items, d')"
  shows "schema_ok d' \<and> ledger_of d' = spec_record now req (ledger_of d) \<and>
    reports now inst (ledger_of d) (ledger_of d') items"
proof -
  have "recordObjectTx (sqlite_adapter now inst) req d = Inr (items, d')"
    using assms(2,3) by (auto simp: RecordObject_def WithTxVal_Inr split: if_splits option.splits)
  then show ?thesis using assms(1) by (rule sq.recordObjectTx_spec)
qed

lemma RecordObject_live:
  assumes "schema_ok d" "opsAdapter r = sqlite_adapter now inst" "opsBegin r = None" "opsCommit r = None"
    and "rqCopies req \<noteq> []" "ValidateTags (rqTags req) = None" "recordable req (ledger_of d)"
  shows "\<exists>items d'. RecordObject r req d = (Inr items, d')"
proof -
  have "runs (recordObjectTx (sqlite_adapter now inst) req) d"
    using assms(1,7,6) by (rule sq_live.recordObjectTx_live)
  with assms show ?thesis
    by (auto simp: runs_def RecordObject_def WithTxVal_def)
qed

text \<open>The sample writes commit on any database that knows their backends and holds no other object.\<close>

lemma sample_write_live:
  assumes "schema_ok d" "lgLimit (ledger_of d) b \<noteq> None" "\<forall>l \<in># lgCopies (ledger_of d). locObjectKey l = ''k''"
  shows "\<exists>items d'. RecordObject (sqlite_ops now inst None None None) (sample_write i b path) d = (Inr items, d')"
proof (rule RecordObject_live [OF assms(1)])
  show "recordable (sample_write i b path) (ledger_of d)"
    unfolding recordable_def sample_write_def RecordObjectRequest.simps using assms(2,3) by simp
qed (simp_all add: sqlite_ops_def sample_write_def ValidateTags_def)

lemma sample_race_ledger:
  "\<forall>l \<in># lgCopies (ledger_of sample_race_db). locObjectKey l = ''k''"
  "lgLimit (ledger_of sample_race_db) ''b1'' \<noteq> None" "lgLimit (ledger_of sample_race_db) ''b2'' \<noteq> None"
  "all_held (ledger_of sample_race_db) (intentIDs (rqCopies (sample_write ''i'' ''b2'' ''k!2'')))"
  by (simp_all add: sample_race_db_def sample_db_def sample_copy_def ObjectFromStoredForm_def intentIDs_def
      sample_write_def holds_intent_def sample_intent_def)

text \<open>
  C4. A write that returns, having held its intents, has replaced the object: the key's copies and
  tags are exactly the write's, no other key's copies or tags changed, no intent of the key is left
  but the uploads the write is still placing, and the cleanup rows it returns are exactly the
  displaced copies and the uploads it superseded.
\<close>

theorem RecordObject_replaces_object:
  assumes "schema_ok d" "opsAdapter r = sqlite_adapter now inst" "RecordObject r req d = (Inr items, d')"
    and "all_held (ledger_of d) (intentIDs (rqCopies req))"
  defines "L \<equiv> ledger_of d" and "L' \<equiv> ledger_of d'" and "k \<equiv> rqKey req"
  shows "copies_of L' k = new_copies now req \<and>
    filter_mset (\<lambda>e. fst e = k) (lgTags L') = image_mset (Pair k) (mset (rqTags req)) \<and>
    filter_mset (\<lambda>l. locObjectKey l \<noteq> k) (lgCopies L') = filter_mset (\<lambda>l. locObjectKey l \<noteq> k) (lgCopies L) \<and>
    filter_mset (\<lambda>e. fst e \<noteq> k) (lgTags L') = filter_mset (\<lambda>e. fst e \<noteq> k) (lgTags L) \<and>
    (\<forall>p \<in># lgIntents L'. poObjectKey p = k \<longrightarrow> poIntentID p \<in> set (intentIDs (rqPlacing req))) \<and>
    image_mset ciRequest (mset items) = image_mset (copy_cleanup CleanupReasonOverwritten) (copies_of L k) +
      image_mset (intent_cleanup CleanupReasonSupersededIntent) (filter_mset (\<lambda>p. poObjectKey p = k \<and>
        poIntentID p \<notin> set (intentIDs (rqPlacing req)) \<and> poIntentID p \<notin> set (intentIDs (rqCopies req))) (lgIntents L))"
proof -
  have l: "L' = spec_record now req L" "reports now inst L L' items"
    using RecordObject_ledger [OF assms(1-3)] by (auto simp: L_def L'_def)
  note r = spec_record_def [of now req L, unfolded Let_def if_P [OF assms(4) [folded L_def]], folded l(1) k_def]
  have "copies_of L' k = new_copies now req"
    by (simp add: r copies_of_def k_def filter_new_copies filter_filter_mset)
  moreover have "filter_mset (\<lambda>l. locObjectKey l \<noteq> k) (lgCopies L') = filter_mset (\<lambda>l. locObjectKey l \<noteq> k) (lgCopies L)"
    by (simp add: r k_def filter_new_copies filter_filter_mset)
  moreover have "filter_mset (\<lambda>e. fst e = k) (lgTags L') = image_mset (Pair k) (mset (rqTags req))"
    "filter_mset (\<lambda>e. fst e \<noteq> k) (lgTags L') = filter_mset (\<lambda>e. fst e \<noteq> k) (lgTags L)"
    by (simp_all add: r filter_mset_image_mset filter_filter_mset)
  moreover have "\<forall>p \<in># lgIntents L'. poObjectKey p = k \<longrightarrow> poIntentID p \<in> set (intentIDs (rqPlacing req))"
    by (simp add: r)
  moreover have "lgQueued L + image_mset ciRequest (mset items) = lgQueued L'"
    using l(2) by (simp add: reports_def)
  then have "image_mset ciRequest (mset items) = image_mset (copy_cleanup CleanupReasonOverwritten) (copies_of L k) +
      image_mset (intent_cleanup CleanupReasonSupersededIntent) (filter_mset (\<lambda>p. poObjectKey p = k \<and>
        poIntentID p \<notin> set (intentIDs (rqPlacing req)) \<and> poIntentID p \<notin> set (intentIDs (rqCopies req))) (lgIntents L))"
    by (simp add: r conj_assoc add.assoc)
  ultimately show ?thesis by blast
qed

theorem RecordObject_replaces_object_witness:
  "\<exists>items d'. RecordObject (sqlite_ops 9 ''x'' None None None) (sample_write ''i'' ''b2'' ''k!2'') sample_race_db
      = (Inr items, d') \<and> copies_of (ledger_of d') ''k'' = new_copies 9 (sample_write ''i'' ''b2'' ''k!2'') \<and>
    image_mset ciRequest (mset items) = {#copy_cleanup CleanupReasonOverwritten (sample_copy ''k'' ''b1'' ''k!1''),
      intent_cleanup CleanupReasonSupersededIntent (sample_intent ''j'' ''k'' ''b1'' ''k!3'')#}"
proof -
  let ?r = "sqlite_ops 9 ''x'' None None None" and ?w = "sample_write ''i'' ''b2'' ''k!2''"
  obtain items d' where w: "RecordObject ?r ?w sample_race_db = (Inr items, d')"
    using sample_write_live [OF sample_race_ok sample_race_ledger(3,1)] by blast
  have a: "opsAdapter ?r = sqlite_adapter 9 ''x''" by (simp add: sqlite_ops_def)
  have k: "rqKey ?w = ''k''" "intentIDs (rqPlacing ?w) = []" "intentIDs (rqCopies ?w) = [''i'']"
    by (simp_all add: sample_write_def intentIDs_def)
  have "copies_of (ledger_of sample_race_db) ''k'' = {#sample_copy ''k'' ''b1'' ''k!1''#}"
    "lgIntents (ledger_of sample_race_db) = {#sample_intent ''i'' ''k'' ''b2'' ''k!2'', sample_intent ''j'' ''k'' ''b1'' ''k!3''#}"
    by (simp_all add: sample_race_db_def sample_db_def copies_of_def sample_copy_def ObjectFromStoredForm_def)
  with RecordObject_replaces_object [OF sample_race_ok a w sample_race_ledger(4)] w show ?thesis
    unfolding k by (intro exI [of _ items] exI [of _ d']) (simp add: sample_intent_def)
qed

text \<open>
  C5. Of two writes that race for a key the one that commits first wins. The other, whose intent the
  first superseded, changes neither the copies nor the tags of any key, and the rows it returns are
  exactly its own uploads, queued for deletion.
\<close>

theorem overtaken_write_records_nothing:
  assumes "schema_ok d" "opsAdapter r1 = sqlite_adapter now1 inst1" "opsAdapter r2 = sqlite_adapter now2 inst2"
    and "RecordObject r1 first d = (Inr items1, d1)" "all_held (ledger_of d) (intentIDs (rqCopies first))"
    and "RecordObject r2 second d1 = (Inr items2, d2)"
    and "p \<in> set (dbPending d)" "poObjectKey p = rqKey first" "poIntentID p \<noteq> []"
    and "poIntentID p \<in> set (intentIDs (rqCopies second))" "poIntentID p \<notin> set (intentIDs (rqPlacing first))"
  shows "mset (dbLocations d2) = mset (dbLocations d1) \<and> mset (dbTags d2) = mset (dbTags d1) \<and>
    image_mset ciRequest (mset items2) = image_mset (upload_cleanup second) (mset (rqCopies second))"
proof -
  note l1 = RecordObject_ledger [OF assms(1,2,4)]
  then have ok1: "schema_ok d1" by simp
  note l2 = RecordObject_ledger [OF ok1 assms(3,6)]
  have "inj_on poIntentID (set (dbPending d))"
    using assms(1) by (simp add: schema_ok_def distinct_map)
  then have "\<forall>q \<in># lgIntents (ledger_of d). poIntentID q = poIntentID p \<longrightarrow> q = p"
    using assms(7) by (auto dest: inj_onD)
  then have "\<not> holds_intent (ledger_of d1) (poIntentID p)"
    using assms(5,8,11) l1 by (auto simp: holds_intent_def spec_record_def Let_def)
  then have lost: "\<not> all_held (ledger_of d1) (intentIDs (rqCopies second))"
    using assms(9,10) by (auto simp: all_held_def)
  note r = spec_record_def [of now2 second "ledger_of d1", unfolded Let_def if_not_P [OF lost]]
  have c: "lgCopies (ledger_of d2) = lgCopies (ledger_of d1)" "lgTags (ledger_of d2) = lgTags (ledger_of d1)"
    using l2 by (simp_all add: r)
  have "lgQueued (spec_record now2 second (ledger_of d1)) =
      lgQueued (ledger_of d1) + image_mset (upload_cleanup second) (mset (rqCopies second))"
    by (simp add: r)
  then have "image_mset ciRequest (mset items2) = image_mset (upload_cleanup second) (mset (rqCopies second))"
    using l2 unfolding reports_def by (metis add_left_cancel)
  with c show ?thesis by simp
qed

theorem overtaken_write_records_nothing_witness:
  "\<exists>items1 d1 items2 d2.
     RecordObject (sqlite_ops 9 ''x'' None None None) (sample_write ''i'' ''b2'' ''k!2'') sample_race_db = (Inr items1, d1) \<and>
     RecordObject (sqlite_ops 10 ''y'' None None None) (sample_write ''j'' ''b1'' ''k!3'') d1 = (Inr items2, d2) \<and>
     mset (dbLocations d2) = mset (dbLocations d1) \<and>
     image_mset ciRequest (mset items2) = {#upload_cleanup (sample_write ''j'' ''b1'' ''k!3'')
       \<lparr>cpBackend = ''b1'', cpIntentID = ''j'', cpStorageKey = ''k!3''\<rparr>#}"
proof -
  let ?r1 = "sqlite_ops 9 ''x'' None None None" and ?w1 = "sample_write ''i'' ''b2'' ''k!2''"
  let ?r2 = "sqlite_ops 10 ''y'' None None None" and ?w2 = "sample_write ''j'' ''b1'' ''k!3''"
  have a: "opsAdapter ?r1 = sqlite_adapter 9 ''x''" "opsAdapter ?r2 = sqlite_adapter 10 ''y''"
    by (simp_all add: sqlite_ops_def)
  obtain items1 d1 where w1: "RecordObject ?r1 ?w1 sample_race_db = (Inr items1, d1)"
    using sample_write_live [OF sample_race_ok sample_race_ledger(3,1)] by blast
  have d1: "schema_ok d1" "ledger_of d1 = spec_record 9 ?w1 (ledger_of sample_race_db)"
    using RecordObject_ledger [OF sample_race_ok a(1) w1] by auto
  have k: "rqKey ?w1 = ''k''" by (simp add: sample_write_def)
  have c: "\<forall>l \<in># lgCopies (ledger_of d1). locObjectKey l = ''k''" "lgLimit (ledger_of d1) ''b1'' \<noteq> None"
    unfolding d1(2) using sample_race_ledger(2,4) new_copies_key [of _ 9 ?w1] sample_race_ledger(1)
    by (auto simp: spec_record_def Let_def k)
  obtain items2 d2 where w2: "RecordObject ?r2 ?w2 d1 = (Inr items2, d2)"
    using sample_write_live [OF d1(1) c(2,1)] by blast
  show ?thesis
    using overtaken_write_records_nothing [OF sample_race_ok a w1 sample_race_ledger(4) w2,
        of "sample_intent ''j'' ''k'' ''b1'' ''k!3''"] w1 w2
    by (auto simp: sample_race_db_def sample_intent_def sample_write_def intentIDs_def)
qed

text \<open>
  C6. A write is never refused without a cause: with a copy to record, valid tags, a working
  transaction, known backends one per copy and paths no other object occupies, \<open>RecordObject\<close>
  returns, whatever races it lost in between.
\<close>

theorem RecordObject_returns:
  assumes "schema_ok d" "opsAdapter r = sqlite_adapter now inst" "opsBegin r = None" "opsCommit r = None"
    and "rqCopies req \<noteq> []" "ValidateTags (rqTags req) = None" "recordable req (ledger_of d)"
  shows "\<exists>items d'. RecordObject r req d = (Inr items, d')"
  using assms by (rule RecordObject_live)

theorem RecordObject_returns_witness:
  "\<exists>items d'. RecordObject (sqlite_ops 9 ''x'' None None None) (sample_write ''i'' ''b2'' ''k!2'') sample_race_db
    = (Inr items, d')"
proof (rule RecordObject_returns [OF sample_race_ok, where now = 9 and inst = "''x''"])
  show "recordable (sample_write ''i'' ''b2'' ''k!2'') (ledger_of sample_race_db)"
    unfolding recordable_def sample_write_def RecordObjectRequest.simps using sample_race_ledger by simp
qed (simp_all add: sqlite_ops_def sample_write_def ValidateTags_def)

subsection \<open>Ceilings\<close>

lemma claims_ledger:
  assumes "schema_ok d" "opsAdapter r = sqlite_adapter now inst" "op = OpClaim p accepts \<or> op = OpClaims ps ranked accepts"
  shows "occupied (ledger_of (perform now r op d)) b = occupied (ledger_of d) b \<or>
    within_limit (ledger_of (perform now r op d)) b"
proof -
  have "ledger_of (perform now r op d) = ledger_of d \<or> spec_step now op (ledger_of d) (ledger_of (perform now r op d))"
    using sq.perform_simulated [OF assms(1,2), of op] by (simp add: simulated_def)
  then show ?thesis
  proof
    assume "spec_step now op (ledger_of d) (ledger_of (perform now r op d))"
    with assms(3) show ?thesis
      by (elim disjE) (simp only:, erule spec_step_claim_within spec_step_claims_within)+
  qed simp
qed

text \<open>
  C7. Claiming room never overruns a ceiling: after a claim, single or in rank order, every backend
  either holds what it held before or stays within its byte limit, with everything counted that
  occupies it.
\<close>

theorem claims_respect_limits:
  assumes "schema_ok d" "opsAdapter r = sqlite_adapter now inst"
    and "d' = snd (InsertPendingIfFits r p accepts d) \<or> d' = snd (ClaimPendingCopies r ps ranked accepts d)"
  shows "occupied (ledger_of d') b = occupied (ledger_of d) b \<or> within_limit (ledger_of d') b"
  using claims_ledger [OF assms(1,2), of "OpClaim p accepts" p accepts]
    claims_ledger [OF assms(1,2), of "OpClaims ps ranked accepts" _ accepts ps ranked] assms(3)
  by auto

theorem claims_respect_limits_witness:
  "occupied (ledger_of (snd (InsertPendingIfFits (sqlite_ops 9 ''x'' None None None)
      (sample_intent ''n'' ''m'' ''b1'' ''m!1'') AcceptForWrite sample_db))) ''b1'' = occupied (ledger_of sample_db) ''b1'' \<or>
   within_limit (ledger_of (snd (InsertPendingIfFits (sqlite_ops 9 ''x'' None None None)
      (sample_intent ''n'' ''m'' ''b1'' ''m!1'') AcceptForWrite sample_db))) ''b1''"
proof -
  have ok: "schema_ok sample_db" by code_simp
  show ?thesis
    by (rule claims_respect_limits [OF ok, where inst = "''x''" and now = 9 and r = "sqlite_ops 9 ''x'' None None None"
          and p = "sample_intent ''n'' ''m'' ''b1'' ''m!1''" and accepts = AcceptForWrite])
      (simp_all add: sqlite_ops_def)
qed

text \<open>
  C8. A commit takes no more than its claims reserved. While the counters are exact, a write whose
  copies each hold an intent of the write's size leaves what occupies every backend as it was, so
  a ceiling that held at the claim holds at the commit.
\<close>

theorem RecordObject_keeps_occupancy:
  assumes "schema_ok d" "opsAdapter r = sqlite_adapter now inst" "RecordObject r req d = (Inr items, d')"
    and "reserved (ledger_of d) req" "drift (ledger_of d) b = 0"
    and "\<forall>l \<in> set (dbLocations d). 0 \<le> locSizeBytes l" "0 \<le> rqSize req"
  shows "occupied (ledger_of d') b = occupied (ledger_of d) b"
proof -
  have "ledger_of d' = spec_record now req (ledger_of d)"
    using RecordObject_ledger [OF assms(1-3)] by simp
  moreover have "occupied (spec_record now req (ledger_of d)) b = occupied (ledger_of d) b"
    using assms(4-7) schema_ok_ledger_ok [OF assms(1)] by (intro spec_record_occupied) simp_all
  ultimately show ?thesis by simp
qed

theorem RecordObject_keeps_occupancy_witness:
  "\<exists>items d'. RecordObject (sqlite_ops 9 ''x'' None None None) (sample_write ''i'' ''b2'' ''k!2'') sample_race_db
      = (Inr items, d') \<and> occupied (ledger_of d') ''b1'' = occupied (ledger_of sample_race_db) ''b1''"
proof -
  let ?r = "sqlite_ops 9 ''x'' None None None" and ?w = "sample_write ''i'' ''b2'' ''k!2''"
  obtain items d' where w: "RecordObject ?r ?w sample_race_db = (Inr items, d')"
    using sample_write_live [OF sample_race_ok sample_race_ledger(3,1)] by blast
  have a: "opsAdapter ?r = sqlite_adapter 9 ''x''" by (simp add: sqlite_ops_def)
  have "reserved (ledger_of sample_race_db) ?w" "drift (ledger_of sample_race_db) ''b1'' = 0"
    by (simp_all add: reserved_def drift_def bytes_on_def sample_race_db_def sample_db_def sample_write_def
        intentIDs_def sample_intent_def sample_copy_def ObjectFromStoredForm_def)
  from RecordObject_keeps_occupancy [OF sample_race_ok a w this] w show ?thesis
    by (auto simp: sample_race_db_def sample_db_def sample_write_def sample_copy_def ObjectFromStoredForm_def)
qed

subsection \<open>Removing and importing copies\<close>

text \<open>
  C9. Removing an excess copy never costs the object: with a floor of \<open>n\<close> copies, a removal that
  returns leaves at least \<open>n\<close> copies of the key, and if the key had a copy whose encryption key is
  recorded it still has one.
\<close>

theorem DeleteObjectLocation_keeps_object:
  assumes "schema_ok d" "opsAdapter r = sqlite_adapter now inst"
    and "DeleteObjectLocation r loc n reason d = (Inr items, d')" "0 < n"
  shows "n \<le> int (size (copies_of (ledger_of d') (locObjectKey loc))) \<and>
    ((\<exists>l \<in># copies_of (ledger_of d) (locObjectKey loc). readable l) \<longrightarrow>
     (\<exists>l \<in># copies_of (ledger_of d') (locObjectKey loc). readable l))"
proof -
  let ?k = "locObjectKey loc" and ?L = "ledger_of d"
  have "deleteObjectLocationTx (sqlite_adapter now inst) loc n reason d = Inr (items, d')"
    using assms(2,3) by (simp add: DeleteObjectLocation_def WithTxVal_Inr)
  from sq.deleteObjectLocationTx_spec [OF this assms(1)] obtain l where
    l: "l \<in># copies_of ?L ?k" "n < int (size (copies_of ?L ?k))" "\<not> last_readable ?L l"
    and d': "ledger_of d' = spec_delete_copy l reason ?L"
    using assms(4) by metis
  have key: "locObjectKey l = ?k" using l(1) by (simp add: copies_of_def)
  obtain N where N: "copies_of ?L ?k = add_mset l N"
    using l(1) by (metis mset_add)
  have "filter_mset (\<lambda>l'. \<not> names l l') (copies_of ?L ?k) = N"
  proof -
    have "filter_mset (names l) (copies_of ?L ?k) = filter_mset (names l) (lgCopies ?L)"
      by (auto simp: copies_of_def filter_filter_mset names_def key intro!: filter_mset_cong)
    also have "\<dots> = {#l#}"
      by (rule copies_of_names [OF schema_ok_ledger_ok [OF assms(1)] l(1)])
    finally show ?thesis
      using multiset_partition [of "copies_of ?L ?k" "names l"] N by simp
  qed
  then have after: "copies_of (ledger_of d') ?k = N"
    by (simp add: d' spec_delete_copy_def Let_def ledger_ops copies_of_def filter_filter_mset conj_commute)
  have "\<exists>l' \<in># N. readable l'" if "readable l"
    using that l(2,3) assms(4) N by (auto simp: last_readable_def key filter_mset_eq_conv)
  with N l(2) show ?thesis unfolding after by auto
qed

theorem DeleteObjectLocation_keeps_object_witness:
  "\<exists>items d'. DeleteObjectLocation (sqlite_ops 9 ''x'' None None None) (sample_copy ''k'' ''b1'' ''k!1'') 1 ''excess''
      (sample_db\<lparr>dbLocations := [sample_copy ''k'' ''b1'' ''k!1'', sample_copy ''k'' ''b2'' ''k!4'']\<rparr>) = (Inr items, d') \<and>
    1 \<le> int (size (copies_of (ledger_of d') ''k''))"
proof -
  let ?r = "sqlite_ops 9 ''x'' None None None" and ?l = "sample_copy ''k'' ''b1'' ''k!1''"
  let ?d = "sample_db\<lparr>dbLocations := [?l, sample_copy ''k'' ''b2'' ''k!4'']\<rparr>"
  have ok: "schema_ok ?d" by code_simp
  have k: "locObjectKey ?l = ''k''" by (simp add: sample_copy_def ObjectFromStoredForm_def)
  have "\<not> isl (fst (DeleteObjectLocation ?r ?l 1 ''excess'' ?d))"
    by code_simp
  then obtain items d' where w: "DeleteObjectLocation ?r ?l 1 ''excess'' ?d = (Inr items, d')"
    by (metis prod.collapse sum.collapse(2))
  from DeleteObjectLocation_keeps_object [OF ok _ w, of 9 "''x''"] w show ?thesis
    by (auto simp: sqlite_ops_def k)
qed

text \<open>
  C10. An import records only what nothing else accounts for. It inserts a copy exactly when no
  queued or dead-lettered cleanup, no intent and no copy names the path on the backend and the
  backend holds no copy of the key, and in every other case it leaves the database's contents as
  they are; a path that waits for its cleanup is reported as such, never revived.
\<close>

theorem ImportObject_only_untracked:
  assumes "schema_ok d" "opsAdapter r = sqlite_adapter now inst" "ImportObject r now req d = (Inr outcome, d')"
  defines "b \<equiv> irBackend req" and "k \<equiv> irKey req"
  shows "(outcome = ImportInserted \<longleftrightarrow>
      (\<forall>c \<in> qrRequest ` set (dbQueue d) \<union> drRequest ` set (dbDlq d). (crBackendName c, crStorageKey c) \<noteq> (b, k)) \<and>
      (\<forall>p \<in> set (dbPending d). (poBackendName p, poStorageKey p) \<noteq> (b, k)) \<and>
      (\<forall>l \<in> set (dbLocations d). (locBackendName l, locStorageKey l) \<noteq> (b, k) \<and>
         (locBackendName l, locObjectKey l) \<noteq> (b, k))) \<and>
    (outcome \<noteq> ImportInserted \<longrightarrow> ledger_of d' = ledger_of d) \<and>
    (outcome = ImportSkippedPendingCleanup \<longleftrightarrow>
      (\<exists>c \<in> qrRequest ` set (dbQueue d) \<union> drRequest ` set (dbDlq d). (crBackendName c, crStorageKey c) = (b, k)))"
proof -
  have "importObjectTx (sqlite_adapter now inst) now req d = Inr (outcome, d')"
    using assms(2,3) by (simp add: ImportObject_def WithTxVal_Inr)
  from sq.importObjectTx_spec [OF this assms(1)]
  have o: "(outcome, ledger_of d') = spec_import now req (ledger_of d)" by simp
  let ?queued = "\<exists>c \<in> qrRequest ` set (dbQueue d) \<union> drRequest ` set (dbDlq d). (crBackendName c, crStorageKey c) = (b, k)"
  have ps: "path_state (ledger_of d) b k =
      (if ?queued then PathPendingCleanup
       else if \<exists>p \<in> set (dbPending d). (poBackendName p, poStorageKey p) = (b, k) then PathInFlight
       else if \<exists>l \<in> set (dbLocations d). (locBackendName l, locStorageKey l) = (b, k) then PathRecorded
       else PathUntracked)"
    unfolding path_state_def ledger_of_sel set_mset_mset set_mset_union mset_append [symmetric] set_mset_mset
    by (auto simp: image_Un)
  have "(\<exists>l \<in># lgCopies (ledger_of d). locObjectKey l = k \<and> locBackendName l = b) \<longleftrightarrow>
      (\<exists>l \<in> set (dbLocations d). (locBackendName l, locObjectKey l) = (b, k))"
    by auto
  then show ?thesis
    using o unfolding spec_import_def b_def [symmetric] k_def [symmetric] ps
    by (auto split: if_splits simp del: ledger_of_sel)
qed

theorem ImportObject_only_untracked_witness:
  "fst (ImportObject (sqlite_ops 9 ''x'' None None None) 9 \<lparr>irKey = ''k'', irBackend = ''b1'', irSize = 4,
      irUnmanaged = False, irForm = None, irWrittenAt = 0\<rparr> sample_queue_db) = Inr ImportSkippedPendingCleanup \<and>
   ledger_of (snd (ImportObject (sqlite_ops 9 ''x'' None None None) 9 \<lparr>irKey = ''k'', irBackend = ''b1'', irSize = 4,
      irUnmanaged = False, irForm = None, irWrittenAt = 0\<rparr> sample_queue_db)) = ledger_of sample_queue_db"
proof -
  let ?r = "sqlite_ops 9 ''x'' None None None"
    and ?q = "\<lparr>irKey = ''k'', irBackend = ''b1'', irSize = 4, irUnmanaged = False, irForm = None, irWrittenAt = 0\<rparr>"
  have ok: "schema_ok sample_queue_db" by code_simp
  define d' where "d' = snd (ImportObject ?r 9 ?q sample_queue_db)"
  have f: "fst (ImportObject ?r 9 ?q sample_queue_db) = Inr ImportSkippedPendingCleanup" by code_simp
  then have "ImportObject ?r 9 ?q sample_queue_db = (Inr ImportSkippedPendingCleanup, d')"
    by (simp only: d'_def prod_eq_iff fst_conv snd_conv simp_thms)
  from ImportObject_only_untracked [OF ok _ this, of "''x''"] f show ?thesis
    unfolding d'_def [symmetric] by (simp add: sqlite_ops_def)
qed

subsection \<open>Intents are resolved once\<close>

text \<open>
  C11. An intent is promoted at most once: after a promotion that returned without an error, every
  later promotion of the same intent, by any instance, reports it resolved, queues nothing and
  leaves the database's contents as they are.
\<close>

theorem PromotePending_once:
  assumes "schema_ok d" "opsAdapter r1 = sqlite_adapter now1 inst1" "opsAdapter r2 = sqlite_adapter now2 inst2"
    and "PromotePending r1 p d = ((res1, items1, None), d1)" "PromotePending r2 p d1 = ((res2, items2, None), d2)"
    and "poIntentID p \<noteq> []"
  shows "res2 = PendingPromoteAlreadyResolved \<and> items2 = [] \<and> ledger_of d2 = ledger_of d1"
proof -
  have tx1: "promotePendingTx (sqlite_adapter now1 inst1) p d = Inr ((res1, items1), d1)"
    using assms(2,4) by (auto simp: PromotePending_def WithTxVal_Inr split: prod.splits sum.splits)
  have tx2: "promotePendingTx (sqlite_adapter now2 inst2) p d1 = Inr ((res2, items2), d2)"
    using assms(3,5) by (auto simp: PromotePending_def WithTxVal_Inr split: prod.splits sum.splits)
  have l1: "schema_ok d1" "ledger_of d1 = snd (spec_promote now1 p (ledger_of d))"
    using sq.promotePendingTx_spec [OF tx1 assms(1)] by (auto dest: arg_cong [where f = snd])
  have gone: "\<not> holds_intent (snd (spec_promote now1 p L)) (poIntentID p)" for L
    using assms(6) by (auto simp: spec_promote_def spec_promoted_def spec_drop_def Let_def ledger_ops holds_intent_def)
  have "(res2, ledger_of d2) = spec_promote now2 p (ledger_of d1)" "reports now2 inst2 (ledger_of d1) (ledger_of d2) items2"
    using sq.promotePendingTx_spec [OF tx2 l1(1)] by auto
  moreover have "spec_promote now2 p (ledger_of d1) = (PendingPromoteAlreadyResolved, ledger_of d1)"
    using assms(6) gone unfolding l1(2) by (simp add: spec_promote_def)
  ultimately show ?thesis
    by (simp add: reports_def)
qed

theorem PromotePending_once_witness:
  "\<exists>d1. snd (PromotePending (sqlite_ops 9 ''x'' None None None) (sample_intent ''i'' ''k'' ''b2'' ''k!2'') sample_race_db) = d1 \<and>
     fst (PromotePending (sqlite_ops 9 ''x'' None None None) (sample_intent ''i'' ''k'' ''b2'' ''k!2'') d1) =
       (PendingPromoteAlreadyResolved, [], None)"
proof -
  let ?r = "sqlite_ops 9 ''x'' None None None" and ?p = "sample_intent ''i'' ''k'' ''b2'' ''k!2''"
  define res d1 d2 where "res = fst (PromotePending ?r ?p sample_race_db)" and "d1 = snd (PromotePending ?r ?p sample_race_db)"
    and "d2 = snd (PromotePending ?r ?p d1)"
  have e1: "snd (snd res) = None" unfolding res_def by code_simp
  have e2: "snd (snd (fst (PromotePending ?r ?p d1))) = None" unfolding d1_def by code_simp
  have w1: "PromotePending ?r ?p sample_race_db = ((fst res, fst (snd res), None), d1)"
    using e1 by (simp add: res_def d1_def prod_eq_iff)
  have w2: "PromotePending ?r ?p d1 = ((fst (fst (PromotePending ?r ?p d1)), fst (snd (fst (PromotePending ?r ?p d1))), None), d2)"
    using e2 by (simp add: d2_def prod_eq_iff)
  have "fst (fst (PromotePending ?r ?p d1)) = PendingPromoteAlreadyResolved \<and> fst (snd (fst (PromotePending ?r ?p d1))) = []"
    using PromotePending_once [OF sample_race_ok _ _ w1 w2, of 9 "''x''" 9 "''x''"]
    by (simp add: sqlite_ops_def sample_intent_def)
  with e2 show ?thesis
    unfolding d1_def [symmetric] by (auto simp: prod_eq_iff)
qed



end
