(* ===== verification/Backoff.thy ===== *)
theory Backoff
  imports Prelude "HOL-Library.Signed_Division"
begin

text \<open>
  The retry schedule of \<open>util/backoff\<close>: a base delay doubled once per failed attempt, up to a ceiling. The
  cleanup queue retries on it and an open circuit breaker is checked on it. The doubling stops before it could pass
  half the ceiling, so the delays stay within an \<open>int64\<close> and are kept as integers.
\<close>

record Exponential =
  Base :: int
  Ceiling :: int

fun Exponential_loop :: "Exponential \<Rightarrow> nat \<Rightarrow> int \<Rightarrow> int" where
  "Exponential_loop e 0 d = min d (Ceiling e)"
| "Exponential_loop e (Suc n) d =
    (if d \<ge> Ceiling e sdiv 2 then Ceiling e else Exponential_loop e n (d * 2))"

definition Exponential_For :: "Exponential \<Rightarrow> int \<Rightarrow> int" where
  "Exponential_For e attempts =
    (if attempts < 0 then Ceiling e else Exponential_loop e (nat attempts) (Base e))"

subsection \<open>The delay is the capped doubling\<close>

lemma Exponential_loop_eq:
  "\<lbrakk>even (Ceiling e); 0 < d; d \<le> Ceiling e\<rbrakk> \<Longrightarrow> Exponential_loop e n d = min (d * 2 ^ n) (Ceiling e)"
proof (induction n arbitrary: d)
  case (Suc n)
  obtain c where c: "Ceiling e = 2 * c" using Suc.prems(1) by (elim evenE)
  have half: "Ceiling e sdiv 2 = c"
    using Suc.prems(2,3) by (simp add: c signed_divide_int_def sgn_if)
  show ?case
  proof (cases "c \<le> d")
    case True
    have "d * 2 * 1 \<le> d * 2 * 2 ^ n"
      using Suc.prems(2) by (intro mult_left_mono) simp_all
    then have "Ceiling e \<le> d * 2 ^ Suc n"
      using True c by (simp add: mult.assoc)
    with True show ?thesis by (simp add: half min_def)
  next
    case False
    then show ?thesis
      using Suc.IH [of "d * 2"] Suc.prems c half by (simp add: mult.assoc)
  qed
qed simp

text \<open>Whatever the ceiling's parity and the count of attempts, the delay lies between the base and the ceiling.\<close>

lemma Exponential_loop_bounds:
  "\<lbrakk>0 < d; d \<le> Ceiling e\<rbrakk> \<Longrightarrow> d \<le> Exponential_loop e n d \<and> Exponential_loop e n d \<le> Ceiling e"
proof (induction n arbitrary: d)
  case (Suc n)
  have "Ceiling e sdiv 2 * 2 \<le> Ceiling e"
    using Suc.prems by (simp add: signed_divide_int_def sgn_if)
  then show ?case using Suc.IH [of "d * 2"] Suc.prems by auto
qed simp

lemma Exponential_For_bounds:
  assumes "0 < Base e" "Base e \<le> Ceiling e"
  shows "Base e \<le> Exponential_For e n" "Exponential_For e n \<le> Ceiling e"
  using assms Exponential_loop_bounds [of "Base e" e "nat n"] by (simp_all add: Exponential_For_def)

end
