(* ===== verification/CleanupQueue.thy ===== *)
theory CleanupQueue
  imports StoreRefinement Samples Backoff "HOL-Library.Product_Lexorder"
begin

text \<open>
  The cleanup queue of the SQLite engine (\<open>store/sqlite/cleanup.go\<close>), whose
  retries follow the schedule of \<open>Backoff\<close>. A claim is a time and an instance; every settling write acts on
  a row only while the claim it was read under still holds it. Stored times have nanosecond width,
  so text order and equality are those of the numbers.
\<close>

subsection \<open>Claiming\<close>

text \<open>A negative \<open>LIMIT\<close> is no limit.\<close>

definition sql_limit :: "int \<Rightarrow> 'a list \<Rightarrow> 'a list" where
  "sql_limit n xs = (if n < 0 then xs else take (nat n) xs)"

definition scanCleanupItem :: "bool \<Rightarrow> QueueRow \<Rightarrow> CleanupItem" where
  "scanCleanupItem reclaimed r =
    \<lparr>ciRequest = qrRequest r, ciID = qrID r, ciAttempts = qrAttempts r,
     ciClaim = (case qrClaimedAt r of None \<Rightarrow> None | Some t \<Rightarrow> Some \<lparr>clAt = t, clBy = qrClaimedBy r\<rparr>),
     ciReclaimed = reclaimed\<rparr>"

definition GetPendingCleanups :: "time \<Rightarrow> int \<Rightarrow> db \<Rightarrow> CleanupItem list" where
  "GetPendingCleanups now limit d =
    map (scanCleanupItem False) (sql_limit limit (sort_key (\<lambda>r. (qrNextRetry r, qrCreatedAt r))
      (filter (\<lambda>r. qrNextRetry r \<le> now \<and> qrAttempts r < MaxCleanupAttempts) (dbQueue d))))"

definition claimable :: "time \<Rightarrow> time \<Rightarrow> QueueRow \<Rightarrow> bool" where
  "claimable now cutoff r \<longleftrightarrow> qrNextRetry r \<le> now \<and> qrAttempts r < MaxCleanupAttempts \<and>
     (case qrClaimedAt r of None \<Rightarrow> True | Some t \<Rightarrow> t < cutoff)"

definition selectClaimableRows :: "time \<Rightarrow> time \<Rightarrow> int \<Rightarrow> db \<Rightarrow> CleanupItem list" where
  "selectClaimableRows now cutoff limit d =
    map (\<lambda>r. scanCleanupItem (qrClaimedAt r \<noteq> None) r)
      (sql_limit limit (sort_key (\<lambda>r. (qrNextRetry r, qrCreatedAt r))
        (filter (claimable now cutoff) (dbQueue d))))"

definition stampClaims ::
  "time \<Rightarrow> string \<Rightarrow> CleanupItem list \<Rightarrow> db \<Rightarrow> CleanupItem list \<times> db" where
  "stampClaims now inst items d =
    (map (\<lambda>it. it\<lparr>ciClaim := Some \<lparr>clAt = now, clBy = inst\<rparr>\<rparr>) items,
     d\<lparr>dbQueue := map (\<lambda>r. if qrID r \<in> set (map ciID items)
         then r\<lparr>qrClaimedAt := Some now, qrClaimedBy := inst\<rparr> else r) (dbQueue d)\<rparr>)"

definition ClaimPendingCleanups ::
  "time \<Rightarrow> int \<Rightarrow> string \<Rightarrow> time \<Rightarrow> db \<Rightarrow> CleanupItem list \<times> db" where
  "ClaimPendingCleanups now limit inst graceCutoff d =
    (let selected = selectClaimableRows now graceCutoff limit d in
     if selected = [] then ([], d) else stampClaims now inst selected d)"

subsection \<open>Settling\<close>

definition claimArgs :: "CleanupItem \<Rightarrow> QueueRow \<Rightarrow> bool" where
  "claimArgs item r \<longleftrightarrow> qrID r = ciID item \<and>
     (case ciClaim item of
        None \<Rightarrow> False
      | Some c \<Rightarrow> qrClaimedAt r = Some (clAt c) \<and> qrClaimedBy r = clBy c)"

fun complete_items :: "CleanupItem list \<Rightarrow> db \<Rightarrow> nat list \<times> db" where
  "complete_items [] d = ([], d)"
| "complete_items (item # items) d =
    (let retired = list_ex (claimArgs item) (dbQueue d);
         (ids, d') = complete_items items
           (d\<lparr>dbQueue := filter (\<lambda>r. \<not> claimArgs item r) (dbQueue d)\<rparr>) in
     (if retired then ciID item # ids else ids, d'))"

definition CompleteCleanupItems :: "CleanupItem list \<Rightarrow> db \<Rightarrow> nat list \<times> db" where
  "CompleteCleanupItems items d = (if items = [] then ([], d) else complete_items items d)"

definition SweepStaleCleanupQueueRows :: "string \<Rightarrow> string \<Rightarrow> db \<Rightarrow> int \<times> db" where
  "SweepStaleCleanupQueueRows storageKey backend d =
    (let stale = (\<lambda>r. crStorageKey (qrRequest r) = storageKey \<and> crBackendName (qrRequest r) = backend) in
     (int (length (filter stale (dbQueue d))), d\<lparr>dbQueue := filter (\<lambda>r. \<not> stale r) (dbQueue d)\<rparr>))"

definition released :: "time \<Rightarrow> string \<Rightarrow> QueueRow \<Rightarrow> QueueRow" where
  "released nextRetry lastError r =
     r\<lparr>qrAttempts := qrAttempts r + 1, qrNextRetry := nextRetry, qrLastError := lastError,
       qrClaimedAt := None, qrClaimedBy := []\<rparr>"

definition RetryCleanupItem :: "time \<Rightarrow> CleanupItem \<Rightarrow> int \<Rightarrow> string \<Rightarrow> db \<Rightarrow> bool \<times> db" where
  "RetryCleanupItem now item backoff lastError d =
    (list_ex (claimArgs item) (dbQueue d),
     d\<lparr>dbQueue := map (\<lambda>r. if claimArgs item r then released (now + backoff) lastError r else r)
         (dbQueue d)\<rparr>)"

text \<open>Copies the matching rows and deletes them, or does neither. The dead-letter table stamps
  its own time, to the millisecond.\<close>

definition dead_row :: "time \<Rightarrow> string \<Rightarrow> QueueRow \<Rightarrow> DlqRow" where
  "dead_row now lastError r =
    \<lparr>drOriginalID = qrID r, drRequest = qrRequest r, drAttempts = qrAttempts r,
     drFirstEnqueued = qrCreatedAt r, drMovedAt = now div 1000000 * 1000000,
     drLastError = lastError\<rparr>"

definition MoveCleanupToDLQ :: "time \<Rightarrow> CleanupItem \<Rightarrow> string \<Rightarrow> db \<Rightarrow> bool \<times> db" where
  "MoveCleanupToDLQ now item lastError d =
    (let moved = filter (claimArgs item) (dbQueue d) in
     if moved = [] then (False, d)
     else (True, d\<lparr>dbDlq := dbDlq d @ map (dead_row now lastError) moved,
                    dbQueue := filter (\<lambda>r. \<not> claimArgs item r) (dbQueue d)\<rparr>))"

definition CleanupQueueDepth :: "db \<Rightarrow> int" where
  "CleanupQueueDepth d = int (length (filter (\<lambda>r. qrAttempts r < MaxCleanupAttempts) (dbQueue d)))"

definition CleanupDLQDepth :: "db \<Rightarrow> int" where
  "CleanupDLQDepth d = int (length (dbDlq d))"

definition dlq_selected :: "string \<Rightarrow> DlqRow \<Rightarrow> bool" where
  "dlq_selected backend r \<longleftrightarrow> backend = [] \<or> crBackendName (drRequest r) = backend"

definition ListCleanupDLQ :: "string \<Rightarrow> int \<Rightarrow> db \<Rightarrow> DlqRow list" where
  "ListCleanupDLQ backend limit d =
     sql_limit limit (sort_key (\<lambda>r. - drMovedAt r) (filter (dlq_selected backend) (dbDlq d)))"

fun requeue_rows :: "time \<Rightarrow> DlqRow list \<Rightarrow> db \<Rightarrow> db" where
  "requeue_rows now [] d = d"
| "requeue_rows now (r # rs) d = requeue_rows now rs
    (d\<lparr>dbQueue := dbQueue d @
         [\<lparr>qrID = Suc (dbQueueSeq d), qrRequest = drRequest r, qrCreatedAt = now, qrNextRetry = now,
           qrAttempts = 0, qrLastError = [], qrClaimedAt = None, qrClaimedBy = []\<rparr>],
       dbQueueSeq := Suc (dbQueueSeq d)\<rparr>)"

definition RequeueCleanupDLQ :: "time \<Rightarrow> string \<Rightarrow> db \<Rightarrow> int \<times> db" where
  "RequeueCleanupDLQ now backend d =
    (let rows = filter (dlq_selected backend) (dbDlq d);
         d' = requeue_rows now rows d in
     (int (length rows), d'\<lparr>dbDlq := filter (\<lambda>r. \<not> dlq_selected backend r) (dbDlq d')\<rparr>))"

subsection \<open>The retry delay\<close>

definition RetryBackoff :: Exponential where
  "RetryBackoff = \<lparr>Base = 60000000000, Ceiling = 86400000000000\<rparr>"

subsection \<open>The queue operations on the ledger\<close>

lemma claimArgs_id: "claimArgs item r \<Longrightarrow> qrID r = ciID item"
  by (simp add: claimArgs_def)

text \<open>Rewriting rows in place keeps the schema and, where the request stays, the ledger.\<close>

lemma map_queue_ok:
  assumes "schema_ok d" "\<And>r. qrID (f r) = qrID r \<and> qrRequest (f r) = qrRequest r"
  shows "schema_ok (d\<lparr>dbQueue := map f (dbQueue d)\<rparr>)" "ledger_of (d\<lparr>dbQueue := map f (dbQueue d)\<rparr>) = ledger_of d"
proof -
  have "map qrID (map f (dbQueue d)) = map qrID (dbQueue d)" "map qrRequest (map f (dbQueue d)) = map qrRequest (dbQueue d)"
    using assms(2) by simp_all
  then show "ledger_of (d\<lparr>dbQueue := map f (dbQueue d)\<rparr>) = ledger_of d"
    by (simp add: ledger_of_def capacity_flags_def [abs_def] del: map_map)
  have "schema_ok (d\<lparr>dbQueue := map f (dbQueue d), dbQueueSeq := dbQueueSeq d\<rparr>)"
    using schema_ok_queueD [OF assms(1)] assms(2) by (intro schema_ok_queue [OF assms(1)]) (auto simp: comp_def)
  then show "schema_ok (d\<lparr>dbQueue := map f (dbQueue d)\<rparr>)" by simp
qed

lemma filter_queue_ok:
  "schema_ok d \<Longrightarrow> schema_ok (d\<lparr>dbQueue := filter P (dbQueue d)\<rparr>)"
  using schema_ok_queue [of d "filter P (dbQueue d)" "dbQueueSeq d"] schema_ok_queueD [of d]
  by (simp add: distinct_map_filter)

lemma filter_queue_ledger:
  "ledger_of (d\<lparr>dbQueue := filter P (dbQueue d)\<rparr>) =
     (ledger_of d)\<lparr>lgQueued := mset (map qrRequest (filter P (dbQueue d)))\<rparr>"
  by (simp add: ledger_of_def capacity_flags_def [abs_def])

lemma stampClaims_ok:
  "schema_ok d \<Longrightarrow> schema_ok (snd (stampClaims now inst items d)) \<and>
   ledger_of (snd (stampClaims now inst items d)) = ledger_of d"
  unfolding stampClaims_def snd_conv by (intro conjI map_queue_ok) simp_all

lemma ClaimPendingCleanups_ok:
  "schema_ok d \<Longrightarrow> schema_ok (snd (ClaimPendingCleanups now n inst cutoff d)) \<and>
   ledger_of (snd (ClaimPendingCleanups now n inst cutoff d)) = ledger_of d"
  using stampClaims_ok by (simp add: ClaimPendingCleanups_def Let_def)

lemma RetryCleanupItem_ok:
  "schema_ok d \<Longrightarrow> schema_ok (snd (RetryCleanupItem now item delay msg d)) \<and>
   ledger_of (snd (RetryCleanupItem now item delay msg d)) = ledger_of d"
  unfolding RetryCleanupItem_def snd_conv by (intro conjI map_queue_ok) (simp_all add: released_def)

lemma complete_items_queue:
  "dbQueue (snd (complete_items items d)) = filter (\<lambda>r. \<forall>it \<in> set items. \<not> claimArgs it r) (dbQueue d) \<and>
   snd (complete_items items d) = d\<lparr>dbQueue := dbQueue (snd (complete_items items d))\<rparr>"
proof (induction items d rule: complete_items.induct)
  case (2 item items d)
  let ?d = "d\<lparr>dbQueue := filter (\<lambda>r. \<not> claimArgs item r) (dbQueue d)\<rparr>"
  have "snd (complete_items (item # items) d) = snd (complete_items items ?d)"
    by (simp add: Let_def split: prod.splits)
  with 2 [OF refl] show ?case
    by (auto simp: conj_commute intro!: filter_cong)
qed simp

text \<open>An item is retired exactly when some row is still held under its claim. Rows with an
  earlier item's claim are gone by then, so ids must be distinct.\<close>

lemma complete_items_ids:
  assumes "distinct (map ciID items)"
  shows "set (fst (complete_items items d)) = ciID ` {it \<in> set items. \<exists>r \<in> set (dbQueue d). claimArgs it r}"
  using assms
proof (induction items d rule: complete_items.induct)
  case (2 item items d)
  let ?d = "d\<lparr>dbQueue := filter (\<lambda>r. \<not> claimArgs item r) (dbQueue d)\<rparr>"
  have same: "(\<exists>r \<in> set (dbQueue ?d). claimArgs it r) \<longleftrightarrow> (\<exists>r \<in> set (dbQueue d). claimArgs it r)"
    if "it \<in> set items" for it
    using that 2(2) by (force simp: claimArgs_def)
  have "set (fst (complete_items items ?d)) =
      ciID ` {it \<in> set items. \<exists>r \<in> set (dbQueue ?d). claimArgs it r}"
    using 2(2) by (intro 2(1) [OF refl]) simp
  also have "\<dots> = ciID ` {it \<in> set items. \<exists>r \<in> set (dbQueue d). claimArgs it r}"
    using same by blast
  finally have IH: "set (fst (complete_items items ?d)) =
      ciID ` {it \<in> set items. \<exists>r \<in> set (dbQueue d). claimArgs it r}" .
  have "set (fst (complete_items (item # items) d)) =
      (if \<exists>r \<in> set (dbQueue d). claimArgs item r then {ciID item} else {}) \<union>
      set (fst (complete_items items ?d))"
    unfolding complete_items.simps Let_def case_prod_beta fst_conv list_ex_iff
    by (cases "\<exists>r \<in> set (dbQueue d). claimArgs item r") (simp_all only: if_True if_False list.set, simp_all)
  moreover have "ciID ` {it \<in> set (item # items). \<exists>r \<in> set (dbQueue d). claimArgs it r} =
      (if \<exists>r \<in> set (dbQueue d). claimArgs item r then {ciID item} else {}) \<union>
      ciID ` {it \<in> set items. \<exists>r \<in> set (dbQueue d). claimArgs it r}"
    by auto
  ultimately show ?case by (simp only: IH)
qed simp

lemma CompleteCleanupItems_ok:
  assumes "schema_ok d"
  shows "schema_ok (snd (CompleteCleanupItems items d)) \<and>
    dbQueue (snd (CompleteCleanupItems items d)) = filter (\<lambda>r. \<forall>it \<in> set items. \<not> claimArgs it r) (dbQueue d) \<and>
    ledger_of (snd (CompleteCleanupItems items d)) = (ledger_of d)\<lparr>lgQueued :=
      mset (map qrRequest (filter (\<lambda>r. \<forall>it \<in> set items. \<not> claimArgs it r) (dbQueue d)))\<rparr>"
proof (cases "items = []")
  case True
  with assms show ?thesis
    by (simp add: CompleteCleanupItems_def ledger_of_def)
next
  case False
  have "snd (complete_items items d) =
      d\<lparr>dbQueue := filter (\<lambda>r. \<forall>it \<in> set items. \<not> claimArgs it r) (dbQueue d)\<rparr>"
    using complete_items_queue [of items d] by metis
  with False filter_queue_ok [OF assms] filter_queue_ledger show ?thesis
    by (simp add: CompleteCleanupItems_def)
qed

lemma schema_ok_dlq:
  "\<lbrakk>schema_ok d; \<forall>r \<in> set q. known d (crBackendName (drRequest r))\<rbrakk> \<Longrightarrow> schema_ok (d\<lparr>dbDlq := q\<rparr>)"
  by (simp add: schema_ok_def known_def)

lemma schema_ok_dlqD: "schema_ok d \<Longrightarrow> \<forall>r \<in> set (dbDlq d). known d (crBackendName (drRequest r))"
  by (simp add: schema_ok_def)

lemma known_queue [simp]: "known (d\<lparr>dbQueue := q\<rparr>) b = known d b" "known (d\<lparr>dbQueueSeq := n\<rparr>) b = known d b"
  "known (d\<lparr>dbDlq := x\<rparr>) b = known d b"
  by (simp_all add: known_def)

lemma MoveCleanupToDLQ_ok:
  assumes "schema_ok d"
  shows "schema_ok (snd (MoveCleanupToDLQ now item msg d)) \<and>
    ledger_of (snd (MoveCleanupToDLQ now item msg d)) = (ledger_of d)\<lparr>
      lgQueued := mset (map qrRequest (filter (\<lambda>r. \<not> claimArgs item r) (dbQueue d))),
      lgDead := lgDead (ledger_of d) + mset (map qrRequest (filter (claimArgs item) (dbQueue d)))\<rparr>"
proof (cases "filter (claimArgs item) (dbQueue d) = []")
  case True
  then have "filter (\<lambda>r. \<not> claimArgs item r) (dbQueue d) = dbQueue d"
    by (simp add: filter_empty_conv filter_id_conv)
  with True assms show ?thesis
    by (simp add: MoveCleanupToDLQ_def Let_def ledger_of_def)
next
  case False
  have "schema_ok (d\<lparr>dbDlq := dbDlq d @ map (dead_row now msg) (filter (claimArgs item) (dbQueue d)),
      dbQueue := filter (\<lambda>r. \<not> claimArgs item r) (dbQueue d)\<rparr>)"
    using schema_ok_queueD(3) [OF assms] schema_ok_dlqD [OF assms]
      filter_queue_ok [OF schema_ok_dlq [OF assms], of "dbDlq d @ map (dead_row now msg) (filter (claimArgs item) (dbQueue d))"
        "\<lambda>r. \<not> claimArgs item r"]
    by (simp add: dead_row_def ball_Un)
  with False show ?thesis
    by (simp add: MoveCleanupToDLQ_def Let_def ledger_of_def capacity_flags_def [abs_def] comp_def dead_row_def)
qed

lemma requeue_rows_ok:
  assumes "schema_ok d" "\<forall>r \<in> set rs. known d (crBackendName (drRequest r))"
  shows "schema_ok (requeue_rows now rs d) \<and> dbDlq (requeue_rows now rs d) = dbDlq d \<and>
    ledger_of (requeue_rows now rs d) =
      (ledger_of d)\<lparr>lgQueued := lgQueued (ledger_of d) + mset (map drRequest rs)\<rparr>"
  using assms
proof (induction now rs d rule: requeue_rows.induct)
  case (1 now d)
  then show ?case by (simp add: ledger_of_def)
next
  case (2 now r rs d)
  let ?row = "\<lparr>qrID = Suc (dbQueueSeq d), qrRequest = drRequest r, qrCreatedAt = now, qrNextRetry = now,
           qrAttempts = 0, qrLastError = [], qrClaimedAt = None, qrClaimedBy = []\<rparr>"
  let ?d = "d\<lparr>dbQueue := dbQueue d @ [?row], dbQueueSeq := Suc (dbQueueSeq d)\<rparr>"
  have "schema_ok ?d"
    using schema_ok_queueD [OF "2.prems"(1)] "2.prems"(2)
    by (intro schema_ok_queue [OF "2.prems"(1)]) (auto simp: le_Suc_eq)
  moreover have "\<forall>r \<in> set rs. known ?d (crBackendName (drRequest r))"
    using "2.prems"(2) by (simp add: known_def)
  ultimately have "schema_ok (requeue_rows now rs ?d) \<and> dbDlq (requeue_rows now rs ?d) = dbDlq ?d \<and>
      ledger_of (requeue_rows now rs ?d) =
        (ledger_of ?d)\<lparr>lgQueued := lgQueued (ledger_of ?d) + mset (map drRequest rs)\<rparr>"
    by (rule "2.IH")
  then show ?case
    by (simp add: ledger_of_def capacity_flags_def [abs_def])
qed

lemma RequeueCleanupDLQ_ok:
  assumes "schema_ok d"
  shows "schema_ok (snd (RequeueCleanupDLQ now b d)) \<and>
    ledger_of (snd (RequeueCleanupDLQ now b d)) = (ledger_of d)\<lparr>
      lgQueued := lgQueued (ledger_of d) + mset (map drRequest (filter (dlq_selected b) (dbDlq d))),
      lgDead := mset (map drRequest (filter (\<lambda>r. \<not> dlq_selected b r) (dbDlq d)))\<rparr>"
proof -
  let ?d = "requeue_rows now (filter (dlq_selected b) (dbDlq d)) d"
  have d': "schema_ok ?d" "dbDlq ?d = dbDlq d"
    and L: "ledger_of ?d = (ledger_of d)\<lparr>lgQueued := lgQueued (ledger_of d) +
      mset (map drRequest (filter (dlq_selected b) (dbDlq d)))\<rparr>"
    using requeue_rows_ok [OF assms] schema_ok_dlqD [OF assms] by auto
  have "schema_ok (?d\<lparr>dbDlq := filter (\<lambda>r. \<not> dlq_selected b r) (dbDlq ?d)\<rparr>)"
    using schema_ok_dlqD [OF d'(1)] by (intro schema_ok_dlq [OF d'(1)]) auto
  moreover have "ledger_of (?d\<lparr>dbDlq := q\<rparr>) = (ledger_of ?d)\<lparr>lgDead := mset (map drRequest q)\<rparr>" for q
    by (simp add: ledger_of_def capacity_flags_def [abs_def])
  ultimately show ?thesis
    by (simp add: RequeueCleanupDLQ_def Let_def L d'(2) del: mset_map)
qed

lemma SweepStaleCleanupQueueRows_ok:
  "schema_ok d \<Longrightarrow> schema_ok (snd (SweepStaleCleanupQueueRows k b d)) \<and>
   ledger_of (snd (SweepStaleCleanupQueueRows k b d)) = (ledger_of d)\<lparr>lgQueued :=
     filter_mset (\<lambda>r. \<not> (crStorageKey r = k \<and> crBackendName r = b)) (lgQueued (ledger_of d))\<rparr>"
  unfolding SweepStaleCleanupQueueRows_def Let_def snd_conv filter_queue_ledger
  by (intro conjI filter_queue_ok) (simp_all add: filter_mset_image_mset comp_def)

text \<open>Retries, dead-letter moves and requeues never lose queued bytes: what is owed a delete is
  the same requests before and after.\<close>

definition owed :: "db \<Rightarrow> CleanupRequest multiset" where
  "owed d = lgQueued (ledger_of d) + lgDead (ledger_of d)"

lemma mset_split: "mset (map f (filter P xs)) + mset (map f (filter (\<lambda>x. \<not> P x) xs)) = mset (map f xs)"
  by (induction xs) auto

lemma owed_simps: "owed d = mset (map qrRequest (dbQueue d)) + mset (map drRequest (dbDlq d))"
  by (simp add: owed_def)

lemma MoveCleanupToDLQ_owed: "schema_ok d \<Longrightarrow> owed (snd (MoveCleanupToDLQ now item msg d)) = owed d"
  using mset_split [of qrRequest "claimArgs item" "dbQueue d"]
  by (simp add: owed_def MoveCleanupToDLQ_ok ac_simps del: mset_map)

lemma RequeueCleanupDLQ_owed: "schema_ok d \<Longrightarrow> owed (snd (RequeueCleanupDLQ now b d)) = owed d"
  using mset_split [of drRequest "dlq_selected b" "dbDlq d"]
  by (simp add: owed_def RequeueCleanupDLQ_ok ac_simps del: mset_map)

subsection \<open>Claims are exclusive\<close>

lemma sql_limit_subset: "set (sql_limit n xs) \<subseteq> set xs"
  by (auto simp: sql_limit_def dest: in_set_takeD)

lemma selectClaimableRows_row:
  "it \<in> set (selectClaimableRows now cutoff n d) \<Longrightarrow>
   \<exists>r \<in> set (dbQueue d). claimable now cutoff r \<and> ciID it = qrID r"
  using sql_limit_subset by (fastforce simp: selectClaimableRows_def scanCleanupItem_def)

lemma ClaimPendingCleanups_fst:
  "map ciID (fst (ClaimPendingCleanups now n inst cutoff d)) = map ciID (selectClaimableRows now cutoff n d)"
  by (simp add: ClaimPendingCleanups_def stampClaims_def Let_def)

text \<open>After a claim, exactly the claimed ids carry the new claim.\<close>

lemma ClaimPendingCleanups_queue:
  "dbQueue (snd (ClaimPendingCleanups now n inst cutoff d)) =
     map (\<lambda>r. if qrID r \<in> set (map ciID (fst (ClaimPendingCleanups now n inst cutoff d)))
       then r\<lparr>qrClaimedAt := Some now, qrClaimedBy := inst\<rparr> else r) (dbQueue d)"
  unfolding ClaimPendingCleanups_fst
  by (auto simp: ClaimPendingCleanups_def stampClaims_def Let_def map_idI)

lemma claimed_row_taken:
  assumes "schema_ok d" "ClaimPendingCleanups now n inst cutoff d = (xs, d1)"
    "r \<in> set (dbQueue d1)" "qrID r \<in> ciID ` set xs"
  shows "qrClaimedAt r = Some now \<and> qrClaimedBy r = inst"
proof -
  have "dbQueue d1 = map (\<lambda>r. if qrID r \<in> set (map ciID xs)
      then r\<lparr>qrClaimedAt := Some now, qrClaimedBy := inst\<rparr> else r) (dbQueue d)"
    using ClaimPendingCleanups_queue [of now n inst cutoff d] assms(2) by simp
  with assms(3,4) show ?thesis by (auto split: if_splits)
qed

lemma no_claim_no_settle:
  assumes "\<forall>r \<in> set (dbQueue d). \<not> claimArgs it r"
  shows "CompleteCleanupItems [it] d = ([], d)" "RetryCleanupItem now it delay msg d = (False, d)"
    "MoveCleanupToDLQ now it msg d = (False, d)"
proof -
  have "filter (claimArgs it) (dbQueue d) = []" "filter (\<lambda>r. \<not> claimArgs it r) (dbQueue d) = dbQueue d"
    "map (\<lambda>r. if claimArgs it r then f r else r) (dbQueue d) = dbQueue d" for f
    using assms by (auto simp: filter_empty_conv filter_id_conv map_idI)
  moreover have "\<not> list_ex (claimArgs it) (dbQueue d)"
    using assms by (simp add: list_ex_iff)
  ultimately show "CompleteCleanupItems [it] d = ([], d)" "RetryCleanupItem now it delay msg d = (False, d)"
    "MoveCleanupToDLQ now it msg d = (False, d)"
    by (simp_all add: CompleteCleanupItems_def RetryCleanupItem_def MoveCleanupToDLQ_def)
qed

text \<open>
  C30. Two instances that claim cleanup rows one after the other never hold the same row, as
  long as the second one's grace cutoff is not later than the first one's claim.
\<close>

theorem cleanup_claims_exclusive:
  assumes "schema_ok d"
    and "ClaimPendingCleanups now n inst cutoff d = (xs, d1)"
    and "ClaimPendingCleanups now' n' inst' cutoff' d1 = (ys, d2)"
    and "cutoff' \<le> now"
  shows "ciID ` set xs \<inter> ciID ` set ys = {}"
proof -
  have "i \<notin> ciID ` set xs" if "i \<in> ciID ` set ys" for i
  proof
    assume "i \<in> ciID ` set xs"
    have "set (map ciID ys) = set (map ciID (selectClaimableRows now' cutoff' n' d1))"
      using ClaimPendingCleanups_fst [of now' n' inst' cutoff' d1] assms(3) by simp
    with that obtain it where "it \<in> set (selectClaimableRows now' cutoff' n' d1)" "ciID it = i"
      by auto
    then obtain r where r: "r \<in> set (dbQueue d1)" "claimable now' cutoff' r" "qrID r = i"
      using selectClaimableRows_row by fastforce
    then have "qrClaimedAt r = Some now"
      using claimed_row_taken [OF assms(1,2)] \<open>i \<in> ciID ` set xs\<close> by blast
    with r(2) assms(4) show False by (simp add: claimable_def)
  qed
  then show ?thesis by blast
qed

theorem cleanup_claims_exclusive_witness:
  "ciID ` set (fst (ClaimPendingCleanups 100 1 ''i1'' 50 sample_queue_db)) \<inter>
   ciID ` set (fst (ClaimPendingCleanups 120 5 ''i2'' 90
     (snd (ClaimPendingCleanups 100 1 ''i1'' 50 sample_queue_db)))) = {} \<and>
   map ciID (fst (ClaimPendingCleanups 100 1 ''i1'' 50 sample_queue_db)) = [1] \<and>
   map ciID (fst (ClaimPendingCleanups 120 5 ''i2'' 90
     (snd (ClaimPendingCleanups 100 1 ''i1'' 50 sample_queue_db)))) = [2]"
proof -
  have "schema_ok sample_queue_db" by code_simp
  from cleanup_claims_exclusive [OF this prod.collapse [symmetric] prod.collapse [symmetric],
      of 90 100 1 "''i1''" 50 120 5 "''i2''"]
  show ?thesis by code_simp
qed

text \<open>
  C31. Once another instance has taken a row over, the settling writes of the instance that held
  it before change nothing and report the claim lost.
\<close>

theorem taken_over_row_not_settled:
  assumes "schema_ok d"
    and "ClaimPendingCleanups now n inst cutoff d = (xs, d1)"
    and "ciID it \<in> ciID ` set xs" and "ciClaim it \<noteq> Some \<lparr>clAt = now, clBy = inst\<rparr>"
  shows "CompleteCleanupItems [it] d1 = ([], d1) \<and> RetryCleanupItem now' it delay msg d1 = (False, d1) \<and>
    MoveCleanupToDLQ now' it msg d1 = (False, d1)"
proof -
  have "\<not> claimArgs it r" if "r \<in> set (dbQueue d1)" for r
    using claimed_row_taken [OF assms(1,2) that] assms(3,4)
    by (auto simp: claimArgs_def split: option.splits)
  then show ?thesis by (simp add: no_claim_no_settle)
qed

theorem taken_over_row_not_settled_witness:
  "ClaimPendingCleanups 500 1 ''i2'' 400 sample_queue_db \<noteq> ([], sample_queue_db) \<and>
   MoveCleanupToDLQ 510 ((scanCleanupItem False (sample_queue_row 1))\<lparr>ciClaim := Some \<lparr>clAt = 9, clBy = ''i1''\<rparr>\<rparr>) ''x''
     (snd (ClaimPendingCleanups 500 1 ''i2'' 400 sample_queue_db)) =
   (False, snd (ClaimPendingCleanups 500 1 ''i2'' 400 sample_queue_db))"
proof -
  have ok: "schema_ok sample_queue_db" by code_simp
  have "ciID ((scanCleanupItem False (sample_queue_row 1))\<lparr>ciClaim := Some \<lparr>clAt = 9, clBy = ''i1''\<rparr>\<rparr>) \<in>
      ciID ` set (fst (ClaimPendingCleanups 500 1 ''i2'' 400 sample_queue_db))" by code_simp
  from taken_over_row_not_settled [OF ok prod.collapse [symmetric] this]
  have "MoveCleanupToDLQ 510 ((scanCleanupItem False (sample_queue_row 1))\<lparr>ciClaim := Some \<lparr>clAt = 9, clBy = ''i1''\<rparr>\<rparr>) ''x''
     (snd (ClaimPendingCleanups 500 1 ''i2'' 400 sample_queue_db)) =
   (False, snd (ClaimPendingCleanups 500 1 ''i2'' 400 sample_queue_db))" by simp
  moreover have "ClaimPendingCleanups 500 1 ''i2'' 400 sample_queue_db \<noteq> ([], sample_queue_db)" by code_simp
  ultimately show ?thesis by simp
qed

text \<open>
  C28. Moving an exhausted row to the dead-letter queue, requeueing dead letters, retrying and
  claiming keep exactly the deletes that are owed; completing rows removes those held under the
  claims given and no others.
\<close>

theorem cleanup_queue_conserves:
  assumes "schema_ok d"
  shows "owed (snd (MoveCleanupToDLQ now item msg d)) = owed d \<and>
    owed (snd (RequeueCleanupDLQ now b d)) = owed d \<and>
    owed (snd (RetryCleanupItem now item delay msg d)) = owed d \<and>
    owed (snd (ClaimPendingCleanups now n inst cutoff d)) = owed d \<and>
    owed d = owed (snd (CompleteCleanupItems items d)) +
      mset (map qrRequest (filter (\<lambda>r. \<exists>it \<in> set items. claimArgs it r) (dbQueue d)))"
proof (intro conjI)
  show "owed d = owed (snd (CompleteCleanupItems items d)) +
      mset (map qrRequest (filter (\<lambda>r. \<exists>it \<in> set items. claimArgs it r) (dbQueue d)))"
    using mset_split [of qrRequest "\<lambda>r. \<exists>it \<in> set items. claimArgs it r" "dbQueue d"]
    by (simp add: owed_def CompleteCleanupItems_ok [OF assms] ac_simps del: mset_map)
qed (use assms MoveCleanupToDLQ_owed RequeueCleanupDLQ_owed in
    \<open>simp_all add: owed_def RetryCleanupItem_ok ClaimPendingCleanups_ok\<close>)

theorem cleanup_queue_conserves_witness:
  "schema_ok sample_queue_db \<and> owed (snd (RequeueCleanupDLQ 7 [] sample_queue_db)) = owed sample_queue_db"
proof -
  have "schema_ok sample_queue_db" by code_simp
  with cleanup_queue_conserves [of sample_queue_db] show ?thesis by blast
qed

text \<open>
  The retry delay is the base doubled once per attempt and capped at the ceiling, for an even
  ceiling at least the base; it is never outside those bounds.
\<close>

theorem retry_delay_is_capped_doubling:
  assumes "0 < Base e" "Base e \<le> Ceiling e" "even (Ceiling e)" "0 \<le> n"
  shows "Exponential_For e n = min (Base e * 2 ^ nat n) (Ceiling e)"
  using assms by (simp add: Exponential_For_def Exponential_loop_eq)

theorem retry_delay_witness:
  "Exponential_For RetryBackoff 3 = 480000000000 \<and> Exponential_For RetryBackoff 11 = 86400000000000"
  using retry_delay_is_capped_doubling [of RetryBackoff 3] retry_delay_is_capped_doubling [of RetryBackoff 11]
  by (simp add: RetryBackoff_def)

text \<open>
  With an odd ceiling the delay is not the capped doubling: halving the ceiling rounds down,
  so the last doubling that would still fit is skipped.
\<close>

theorem retry_delay_odd_ceiling:
  "Exponential_For \<lparr>Base = 2, Ceiling = 5\<rparr> 1 = 5 \<and> min (2 * 2 ^ 1) (5::int) = 4"
  by (simp add: Exponential_For_def signed_divide_int_def)

end
