(* ===== verification/Uploads.thy ===== *)
theory Uploads
  imports StoreMachine CleanupQueue
begin

text \<open>
  Multipart uploads (\<open>store/sqlite/multipart.go\<close>): their rows, the completion mark that
  keeps an upload to one completion at a time, and the parts. \<open>RecordPart\<close> and
  \<open>DeleteMultipartUpload\<close> are in \<open>StoreCore\<close>.
\<close>

subsection \<open>Upload rows\<close>

record CreateMultipartUploadParams =
  cmUploadID :: string
  cmObjectKey :: string
  cmBackendName :: string
  cmContentType :: string
  cmMetadata :: "(string \<times> string) list option"
  cmEncryptionKey :: string
  cmKeyID :: string
  cmTags :: "Tag list"

record MultipartUpload =
  muUploadID :: string
  muObjectKey :: string
  muBackendName :: string
  muContentType :: string
  muMetadata :: "(string \<times> string) list option"
  muEncrypted :: bool
  muEncryptionKey :: string
  muKeyID :: string
  muTags :: "Tag list"
  muCreatedAt :: time

record MultipartUploadFilter =
  mfBackend :: string
  mfCreatedBefore :: time

definition upload_row :: "time \<Rightarrow> CreateMultipartUploadParams \<Rightarrow> UploadRow" where
  "upload_row now p = \<lparr>upUploadID = cmUploadID p, upObjectKey = cmObjectKey p, upBackendName = cmBackendName p,
     upContentType = cmContentType p, upMetadata = cmMetadata p, upEncryptionKey = cmEncryptionKey p,
     upKeyID = cmKeyID p, upTagging = EncodeTags (cmTags p), upCreatedAt = now, upHeartbeat = None\<rparr>"

definition CreateMultipartUpload ::
  "time \<Rightarrow> CreateMultipartUploadParams \<Rightarrow> db \<Rightarrow> (error + bool) \<times> db" where
  "CreateMultipartUpload now p d =
    (if \<not> known d (cmBackendName p) \<or> and (capacity_flags d (cmBackendName p)) (not AcceptForWrite) \<noteq> 0
     then (Inr False, d)
     else if list_ex (\<lambda>u. upUploadID u = cmUploadID p) (dbUploads d)
     then (Inl (Wrapped ''failed to create multipart upload'' (ConstraintError ''upload_id'')), d)
     else (Inr True, d\<lparr>dbUploads := dbUploads d @ [upload_row now p]\<rparr>))"

definition scanMultipartUploadRow :: "UploadRow \<Rightarrow> MultipartUpload" where
  "scanMultipartUploadRow u =
    \<lparr>muUploadID = upUploadID u, muObjectKey = upObjectKey u, muBackendName = upBackendName u,
     muContentType = upContentType u, muMetadata = upMetadata u, muEncrypted = upEncryptionKey u \<noteq> [],
     muEncryptionKey = upEncryptionKey u, muKeyID = upKeyID u, muTags = [], muCreatedAt = upCreatedAt u\<rparr>"

definition GetMultipartUpload :: "string \<Rightarrow> db \<Rightarrow> error + MultipartUpload" where
  "GetMultipartUpload uploadID d =
    (case find (\<lambda>u. upUploadID u = uploadID) (dbUploads d) of
       None \<Rightarrow> Inl ErrMultipartUploadNotFound
     | Some u \<Rightarrow>
         (case DecodeTags (upTagging u) of
            Inl err \<Rightarrow> Inl err
          | Inr tags \<Rightarrow> Inr ((scanMultipartUploadRow u)\<lparr>muTags := tags\<rparr>)))"

subsection \<open>The completion mark\<close>

definition BeginMultipartCompletion :: "time \<Rightarrow> string \<Rightarrow> time \<Rightarrow> db \<Rightarrow> bool \<times> db" where
  "BeginMultipartCompletion now uploadID staleBefore d =
    (let free = (\<lambda>u. upUploadID u = uploadID \<and>
           (case upHeartbeat u of None \<Rightarrow> True | Some h \<Rightarrow> h < staleBefore)) in
     (list_ex free (dbUploads d),
      d\<lparr>dbUploads := map (\<lambda>u. if free u then u\<lparr>upHeartbeat := Some now\<rparr> else u) (dbUploads d)\<rparr>))"

definition RenewMultipartCompletion :: "time \<Rightarrow> string \<Rightarrow> db \<Rightarrow> bool \<times> db" where
  "RenewMultipartCompletion now uploadID d =
    (let marked = (\<lambda>u. upUploadID u = uploadID \<and> upHeartbeat u \<noteq> None) in
     (list_ex marked (dbUploads d),
      d\<lparr>dbUploads := map (\<lambda>u. if marked u then u\<lparr>upHeartbeat := Some now\<rparr> else u) (dbUploads d)\<rparr>))"

definition EndMultipartCompletion :: "string \<Rightarrow> db \<Rightarrow> db" where
  "EndMultipartCompletion uploadID d =
     d\<lparr>dbUploads := map (\<lambda>u. if upUploadID u = uploadID then u\<lparr>upHeartbeat := None\<rparr> else u) (dbUploads d)\<rparr>"

subsection \<open>Listings\<close>

definition ListParts :: "string \<Rightarrow> int \<Rightarrow> int \<Rightarrow> db \<Rightarrow> MultipartPart list" where
  "ListParts uploadID afterPart limit d =
     sql_limit limit (sort_key mpPartNumber
       (map snd (filter (\<lambda>e. fst e = uploadID \<and> mpPartNumber (snd e) > afterPart) (dbParts d))))"

definition ScanMultipartUploads ::
  "MultipartUploadFilter \<Rightarrow> int \<Rightarrow> string \<Rightarrow> db \<Rightarrow> MultipartUpload list" where
  "ScanMultipartUploads f limit afterUploadID d =
     map scanMultipartUploadRow (sql_limit limit (sort_key upUploadID
       (filter (\<lambda>u. (mfBackend f = [] \<or> upBackendName u = mfBackend f) \<and>
          (mfCreatedBefore f = 0 \<or> upCreatedAt u < mfCreatedBefore f) \<and>
          upUploadID u > afterUploadID) (dbUploads d))))"

definition GetActiveMultipartCounts :: "db \<Rightarrow> (string \<times> int) list" where
  "GetActiveMultipartCounts d =
     map (\<lambda>b. (b, int (length (filter (\<lambda>u. upBackendName u = b) (dbUploads d)))))
       (remdups (map upBackendName (dbUploads d)))"

subsection \<open>The schema holds\<close>

lemma uploads_schema_ok:
  assumes "schema_ok d" "distinct (map upUploadID us)" "\<forall>u \<in> set us. known d (upBackendName u)"
    and "upUploadID ` set (dbUploads d) \<subseteq> upUploadID ` set us"
  shows "schema_ok (d\<lparr>dbUploads := us\<rparr>)"
  using assms by (auto simp: schema_ok_def known_def)

lemma schema_ok_uploads:
  "schema_ok d \<Longrightarrow> distinct (map upUploadID (dbUploads d)) \<and> (\<forall>u \<in> set (dbUploads d). known d (upBackendName u))"
  by (simp add: schema_ok_def)

lemma marked_uploads_ok:
  assumes "schema_ok d" "\<And>u. upUploadID (f u) = upUploadID u" "\<And>u. upBackendName (f u) = upBackendName u"
  shows "schema_ok (d\<lparr>dbUploads := map f (dbUploads d)\<rparr>)"
proof (rule uploads_schema_ok [OF assms(1)])
  show "distinct (map upUploadID (map f (dbUploads d)))"
    using assms by (simp add: comp_def schema_ok_def)
  show "\<forall>u \<in> set (map f (dbUploads d)). known d (upBackendName u)"
    using assms by (auto simp: schema_ok_def)
qed (use assms(2) in \<open>auto simp: image_image\<close>)

lemma CreateMultipartUpload_ok: "schema_ok d \<Longrightarrow> schema_ok (snd (CreateMultipartUpload now p d))"
  using schema_ok_uploads [of d]
  by (auto simp: CreateMultipartUpload_def list_ex_iff upload_row_def intro!: uploads_schema_ok) blast

lemma completion_marks_ok:
  assumes "schema_ok d"
  shows "schema_ok (snd (BeginMultipartCompletion now u stale d))"
    "schema_ok (snd (RenewMultipartCompletion now u d))" "schema_ok (EndMultipartCompletion u d)"
  using assms by (auto simp: BeginMultipartCompletion_def RenewMultipartCompletion_def EndMultipartCompletion_def
      Let_def intro!: marked_uploads_ok)

lemma upload_statements_ledger:
  "ledger_of (snd (CreateMultipartUpload now p d)) =
     (ledger_of d)\<lparr>lgUpload := lgUpload (ledger_of (snd (CreateMultipartUpload now p d)))\<rparr>"
  "ledger_of (snd (BeginMultipartCompletion now u stale d)) =
     (ledger_of d)\<lparr>lgUpload := lgUpload (ledger_of (snd (BeginMultipartCompletion now u stale d)))\<rparr>"
  "ledger_of (snd (RenewMultipartCompletion now u d)) =
     (ledger_of d)\<lparr>lgUpload := lgUpload (ledger_of (snd (RenewMultipartCompletion now u d)))\<rparr>"
  "ledger_of (EndMultipartCompletion u d) =
     (ledger_of d)\<lparr>lgUpload := lgUpload (ledger_of (EndMultipartCompletion u d))\<rparr>"
  by (simp_all add: ledger_of_def CreateMultipartUpload_def BeginMultipartCompletion_def RenewMultipartCompletion_def
      EndMultipartCompletion_def Let_def capacity_flags_def fun_eq_iff)

subsection \<open>A completion holds its upload\<close>

text \<open>
  What a request that runs beside a completion may do to its upload: its cutoff for a stale mark
  lies before the mark.
\<close>

fun respects_mark :: "time \<Rightarrow> string \<Rightarrow> store_op \<Rightarrow> bool" where
  "respects_mark h u (OpPart p) \<longleftrightarrow> rpUploadID p = u \<longrightarrow> rpCompletionStaleBefore p < h"
| "respects_mark h u (OpDropUpload v reason stale) \<longleftrightarrow> v = u \<longrightarrow> stale < h"
| "respects_mark h u op \<longleftrightarrow> True"

definition same_upload :: "string \<Rightarrow> ledger \<Rightarrow> ledger \<Rightarrow> bool" where
  "same_upload u L L' \<longleftrightarrow> lgUpload L' u = lgUpload L u \<and>
     filter_mset (\<lambda>e. fst e = u) (lgParts L') = filter_mset (\<lambda>e. fst e = u) (lgParts L)"

lemma same_uploadI: "\<lbrakk>lgUpload L' = lgUpload L; lgParts L' = lgParts L\<rbrakk> \<Longrightarrow> same_upload u L L'"
  by (simp add: same_upload_def)

lemma same_upload_trans: "\<lbrakk>same_upload u L M; same_upload u M N\<rbrakk> \<Longrightarrow> same_upload u L N"
  by (simp add: same_upload_def)

lemma spec_claims_upload: "same_upload u L (snd (spec_claims now out intents ranked accepts L))"
proof (induction now out intents ranked accepts L rule: spec_claims.induct)
  case (2 now out intents name ranked accepts L)
  have "same_upload u L (with_claim now p L)" for p
    by (rule same_uploadI) (simp_all add: with_claim_def)
  with 2 show ?case
    by (auto simp: Let_def intro: same_upload_trans same_uploadI)
qed (simp add: same_upload_def)

lemma spec_step_upload:
  assumes "spec_step now op L L'" "respects_mark h u op" "lgUpload L u = Some (b, h)"
  shows "same_upload u L L'"
  using assms
proof (induction rule: spec_step.induct)
  case (part p L b' h')
  then have "rpUploadID p \<noteq> u" by auto
  then show ?case
    by (auto simp: same_upload_def spec_record_part_def Let_def queued_def filter_filter_mset intro!: filter_mset_cong)
next
  case (drop_upload L v stale reason)
  then have "v \<noteq> u" by fastforce
  then show ?case
    by (auto simp: same_upload_def spec_delete_upload_def filter_filter_mset split: option.splits intro!: filter_mset_cong)
qed (auto simp: spec_record_def spec_promote_def spec_promoted_def spec_companion_def spec_discard_def spec_drop_def
    spec_delete_def spec_delete_copy_def spec_place_commit_def spec_import_def Let_def ledger_ops with_claim_def
    intro!: same_uploadI spec_claims_upload split: PathState.splits)

lemma begin_upload:
  assumes "BeginMultipartCompletion now u stale d = (True, d1)" "schema_ok d"
  obtains b where "lgUpload (ledger_of d1) u = Some (b, now)" "dbParts d1 = dbParts d" "schema_ok d1"
proof -
  let ?f = "\<lambda>r. if upUploadID r = u \<and> (case upHeartbeat r of None \<Rightarrow> True | Some h \<Rightarrow> h < stale)
      then r\<lparr>upHeartbeat := Some now\<rparr> else r"
  have d1: "d1 = d\<lparr>dbUploads := map ?f (dbUploads d)\<rparr>"
    and ex: "list_ex (\<lambda>r. upUploadID r = u \<and> (case upHeartbeat r of None \<Rightarrow> True | Some h \<Rightarrow> h < stale)) (dbUploads d)"
    using assms(1) by (auto simp: BeginMultipartCompletion_def Let_def)
  have "\<exists>b. map_option upload_mark (find (\<lambda>r. upUploadID r = u) (map ?f us)) = Some (b, now)"
    if "distinct (map upUploadID us)"
      "list_ex (\<lambda>r. upUploadID r = u \<and> (case upHeartbeat r of None \<Rightarrow> True | Some h \<Rightarrow> h < stale)) us" for us
    using that by (induction us) (auto simp: upload_mark_def list_ex_iff split: if_splits)
  with ex schema_ok_uploads [OF assms(2)] have "\<exists>b. lgUpload (ledger_of d1) u = Some (b, now)"
    by (simp add: ledger_of_def d1)
  moreover have "schema_ok d1"
    using completion_marks_ok(1) [OF assms(2), of now u stale] assms(1) by simp
  ultimately show ?thesis
    using that d1 by auto
qed

lemma marked_upload_refuses:
  assumes "lgUpload (ledger_of d) u = Some (b, h)" "schema_ok d" "0 < h" "stale \<le> h"
  shows "\<not> fst (BeginMultipartCompletion now u stale d)"
proof -
  obtain r where r: "find (\<lambda>r. upUploadID r = u) (dbUploads d) = Some r" "upload_mark r = (b, h)"
    using assms(1) by (auto simp: ledger_of_def)
  then have "upHeartbeat r = Some h" "r \<in> set (dbUploads d)" "upUploadID r = u"
    using assms(3) by (auto simp: upload_mark_def find_Some_iff split: option.splits)
  moreover have "inj_on upUploadID (set (dbUploads d))"
    using schema_ok_uploads [OF assms(2)] by (simp add: distinct_map)
  ultimately have "\<forall>r' \<in> set (dbUploads d). upUploadID r' = u \<longrightarrow> upHeartbeat r' = Some h"
    by (auto dest: inj_onD)
  then show ?thesis
    using assms(4) by (auto simp: BeginMultipartCompletion_def Let_def list_ex_iff)
qed

lemma ListParts_mset:
  assumes "schema_ok d" "schema_ok d'"
    and "filter_mset (\<lambda>e. fst e = u) (mset (dbParts d')) = filter_mset (\<lambda>e. fst e = u) (mset (dbParts d))"
  shows "ListParts u after n d' = ListParts u after n d"
proof -
  let ?xs = "\<lambda>d. map snd (filter (\<lambda>e. fst e = u \<and> mpPartNumber (snd e) > after) (dbParts d))"
  have split: "?xs x = map snd (filter (\<lambda>e. mpPartNumber (snd e) > after) (filter (\<lambda>e. fst e = u) (dbParts x)))" for x
    by (simp add: conj_commute)
  have "mset (filter (\<lambda>e. fst e = u) (dbParts d')) = mset (filter (\<lambda>e. fst e = u) (dbParts d))"
    using assms(3) by simp
  then have "mset (?xs d') = mset (?xs d)"
    unfolding split by (simp only: mset_map mset_filter)
  moreover have "inj_on (\<lambda>e. (fst e, mpPartNumber (snd e))) (set (dbParts d'))"
    using assms(2) by (simp add: schema_ok_def distinct_map)
  then have "inj_on mpPartNumber (set (?xs d'))"
    by (force simp: inj_on_def)
  moreover have "sorted (map mpPartNumber (sort_key mpPartNumber (?xs d)))" by simp
  ultimately have "sort_key mpPartNumber (?xs d') = sort_key mpPartNumber (?xs d)"
    by (intro sort_key_inj_key_eq) simp_all
  then show ?thesis by (simp only: ListParts_def)
qed

text \<open>
  C12. While a completion's mark is fresh the upload is its own. Whatever other requests run in
  between, in any order, as long as each takes marks older than this one for stale, the upload's
  parts are the ones the completion started with, and no second completion begins.
\<close>

theorem completion_holds_upload:
  assumes "schema_ok d" and "0 < now" and "BeginMultipartCompletion now u stale d = (True, d1)"
    and "store_runs (respects_mark now u) d1 d2"
  shows "schema_ok d2 \<and> ListParts u after n d2 = ListParts u after n d \<and>
    (stale' \<le> now \<longrightarrow> \<not> fst (BeginMultipartCompletion now' u stale' d2))"
proof -
  obtain b where d1: "lgUpload (ledger_of d1) u = Some (b, now)" "dbParts d1 = dbParts d" "schema_ok d1"
    using begin_upload [OF assms(3,1)] .
  have "same_upload u (ledger_of d1) L'"
    if "respects_mark now u op" "spec_step t op L L'" "same_upload u (ledger_of d1) L" for t op L L'
    using spec_step_upload [OF that(2,1), of b] d1(1) that(3) same_upload_trans
    by (auto simp: same_upload_def)
  then have d2: "schema_ok d2" "same_upload u (ledger_of d1) (ledger_of d2)"
    using store_runs_invariant [OF assms(4) d1(3), of "same_upload u (ledger_of d1)"]
    by (auto simp: same_upload_def)
  have "ListParts u after n d2 = ListParts u after n d"
    using d2(2) d1(2) by (intro ListParts_mset [OF assms(1) d2(1)]) (simp add: same_upload_def)
  moreover have "lgUpload (ledger_of d2) u = Some (b, now)"
    using d2(2) d1(1) by (simp add: same_upload_def)
  ultimately show ?thesis
    using d2(1) marked_upload_refuses assms(2) by blast
qed

definition sample_upload_db :: db where
  "sample_upload_db = sample_db\<lparr>
     dbUploads := [upload_row 3 \<lparr>cmUploadID = ''u'', cmObjectKey = ''big'', cmBackendName = ''b1'', cmContentType = [],
       cmMetadata = None, cmEncryptionKey = [], cmKeyID = [], cmTags = []\<rparr>],
     dbParts := [(''u'', \<lparr>mpForm = zeroForm, mpPartNumber = 1, mpETag = ''e'', mpPlaintextETag = ''e'',
       mpSizeBytes = 7, mpStorageKey = ''p!1'', mpCreatedAt = 4\<rparr>)]\<rparr>"

theorem completion_holds_upload_witness:
  "let d1 = snd (BeginMultipartCompletion 50 ''u'' 20 sample_upload_db);
       d2 = perform 60 (sqlite_ops 60 ''i'' None None None) (OpDropUpload ''u'' ''abort'' 30) d1 in
   schema_ok d2 \<and> ListParts ''u'' 0 10 d2 = ListParts ''u'' 0 10 sample_upload_db \<and>
   length (ListParts ''u'' 0 10 sample_upload_db) = 1 \<and> \<not> fst (BeginMultipartCompletion 70 ''u'' 40 d2)"
proof -
  define d1 where "d1 = snd (BeginMultipartCompletion 50 ''u'' 20 sample_upload_db)"
  define d2 where "d2 = perform 60 (sqlite_ops 60 ''i'' None None None) (OpDropUpload ''u'' ''abort'' 30) d1"
  have ok: "schema_ok sample_upload_db" by code_simp
  have "fst (BeginMultipartCompletion 50 ''u'' 20 sample_upload_db)" by code_simp
  then have b: "BeginMultipartCompletion 50 ''u'' 20 sample_upload_db = (True, d1)"
    by (simp only: d1_def prod_eq_iff fst_conv snd_conv simp_thms)
  have "store_runs (respects_mark 50 ''u'') d1 d2"
    unfolding d2_def by (rule store_runs.run [OF store_runs.start]) (simp_all add: sqlite_ops_def)
  from completion_holds_upload [OF ok _ b this, of 0 10 40 70]
  have "schema_ok d2 \<and> ListParts ''u'' 0 10 d2 = ListParts ''u'' 0 10 sample_upload_db \<and>
      \<not> fst (BeginMultipartCompletion 70 ''u'' 40 d2)" by simp
  moreover have "length (ListParts ''u'' 0 10 sample_upload_db) = 1" by code_simp
  ultimately show ?thesis
    unfolding Let_def d1_def [symmetric] d2_def [symmetric] by blast
qed

subsection \<open>What was created is what is read\<close>



end
