(* ===== verification/Settler.thy ===== *)
theory Settler
  imports CleanupQueue
begin

text \<open>
  The settler that turns queued rows into deleted bytes (\<open>cleanup/settler.go\<close>): it deletes
  each backend's paths in one batch, settles every failed row with a retry or a dead-letter move,
  and retires the rows whose bytes are gone in one call. The queue it writes to is an interface,
  \<open>settle_store\<close>, which the SQLite queue implements.
\<close>

subsection \<open>The settler\<close>

text \<open>
  A backend's answer to a delete: an HTTP status where the error carries one, 0 otherwise. The
  backends are a parameter: whether one is registered, whether admission grants its delete a
  slot, and which of a batch of paths it reports failed.
\<close>

record BackendError =
  beStatus :: int
  beMessage :: string

definition IsNotFound :: "BackendError \<Rightarrow> bool" where
  "IsNotFound e \<longleftrightarrow> beStatus e = 404"

record Deleter =
  dlGetBackend :: "string \<Rightarrow> bool"
  dlAdmit :: "string \<Rightarrow> bool"
  dlDeleteMany :: "string \<Rightarrow> string list \<Rightarrow> string \<Rightarrow> BackendError option"

datatype deletion = UnknownBackend | Deletion "BackendError option"

fun deletion_gone :: "deletion \<Rightarrow> bool" where
  "deletion_gone UnknownBackend = True"
| "deletion_gone (Deletion None) = True"
| "deletion_gone (Deletion (Some e)) = IsNotFound e"

definition item_backend :: "CleanupItem \<Rightarrow> string" where
  "item_backend it = crBackendName (ciRequest it)"

definition item_path :: "CleanupItem \<Rightarrow> string" where
  "item_path it = StoragePath (crObjectKey (ciRequest it)) (crStorageKey (ciRequest it))"

definition delete_group :: "Deleter \<Rightarrow> CleanupItem list \<Rightarrow> string \<Rightarrow> (nat \<times> deletion) list" where
  "delete_group dl items name =
    (let group = filter (\<lambda>it. item_backend it = name) items in
     if \<not> dlGetBackend dl name then map (\<lambda>it. (ciID it, UnknownBackend)) group
     else if \<not> dlAdmit dl name then []
     else
       let failed = dlDeleteMany dl name (map item_path group) in
       map (\<lambda>it. (ciID it, Deletion (failed (item_path it)))) group)"

definition deleteAll :: "Deleter \<Rightarrow> CleanupItem list \<Rightarrow> (nat \<times> deletion) list" where
  "deleteAll dl items = concat (map (delete_group dl items) (remdups (map item_backend items)))"

datatype ItemOutcome = ItemSkipped | ItemSucceeded | ItemFailed

record ItemResult =
  irOutcome :: ItemOutcome
  irStatus :: string

definition statusSuccess :: string where "statusSuccess = ''success''"
definition statusAbsent :: string where "statusAbsent = ''success_absent''"
definition statusRetry :: string where "statusRetry = ''retry''"
definition statusExhausted :: string where "statusExhausted = ''exhausted''"
definition statusClaimLost :: string where "statusClaimLost = ''claim_lost''"

fun deletion_status :: "deletion \<Rightarrow> string" where
  "deletion_status UnknownBackend = statusSuccess"
| "deletion_status (Deletion None) = statusSuccess"
| "deletion_status (Deletion (Some e)) = statusAbsent"

text \<open>The queue surface the settler writes to, over a store state.\<close>

record 's SettleStore =
  ssComplete :: "CleanupItem list \<Rightarrow> 's \<Rightarrow> (error + nat list) \<times> 's"
  ssRetry :: "CleanupItem \<Rightarrow> int \<Rightarrow> string \<Rightarrow> 's \<Rightarrow> (error + bool) \<times> 's"
  ssMoveToDLQ :: "CleanupItem \<Rightarrow> string \<Rightarrow> 's \<Rightarrow> (error + bool) \<times> 's"

definition settle_lost :: ItemResult where
  "settle_lost = \<lparr>irOutcome = ItemSkipped, irStatus = statusClaimLost\<rparr>"

definition settle_exhaust :: "'s SettleStore \<Rightarrow> CleanupItem \<Rightarrow> BackendError \<Rightarrow> 's \<Rightarrow> ItemResult \<times> 's" where
  "settle_exhaust st item delErr s =
    (case ssMoveToDLQ st item (beMessage delErr) s of
       (Inr False, s') \<Rightarrow> (settle_lost, s')
     | (_, s') \<Rightarrow> (\<lparr>irOutcome = ItemFailed, irStatus = statusExhausted\<rparr>, s'))"

definition settle_retry :: "'s SettleStore \<Rightarrow> CleanupItem \<Rightarrow> BackendError \<Rightarrow> 's \<Rightarrow> ItemResult \<times> 's" where
  "settle_retry st item delErr s =
    (case ssRetry st item (Exponential_For RetryBackoff (ciAttempts item)) (beMessage delErr) s of
       (Inr False, s') \<Rightarrow> (settle_lost, s')
     | (_, s') \<Rightarrow> (\<lparr>irOutcome = ItemFailed, irStatus = statusRetry\<rparr>, s'))"

definition settle_fail :: "'s SettleStore \<Rightarrow> CleanupItem \<Rightarrow> BackendError \<Rightarrow> 's \<Rightarrow> ItemResult \<times> 's" where
  "settle_fail st item delErr s =
    (if ciAttempts item + 1 \<ge> MaxCleanupAttempts then settle_exhaust st item delErr s
     else settle_retry st item delErr s)"

definition settle_skipped :: ItemResult where
  "settle_skipped = \<lparr>irOutcome = ItemSkipped, irStatus = []\<rparr>"

text \<open>The first pass over the rows: a failed delete is settled at once, the others wait.\<close>

fun settle_failures ::
  "'s SettleStore \<Rightarrow> (nat \<times> deletion) list \<Rightarrow> CleanupItem list \<Rightarrow> 's \<Rightarrow> ItemResult list \<times> 's" where
  "settle_failures st deleted [] s = ([], s)"
| "settle_failures st deleted (it # items) s =
    (case map_of deleted (ciID it) of
       Some (Deletion (Some e)) \<Rightarrow>
         if IsNotFound e then
           (case settle_failures st deleted items s of (rs, s') \<Rightarrow> (settle_skipped # rs, s'))
         else
           (case settle_fail st it e s of (r, s1) \<Rightarrow>
            case settle_failures st deleted items s1 of (rs, s') \<Rightarrow> (r # rs, s'))
     | _ \<Rightarrow> (case settle_failures st deleted items s of (rs, s') \<Rightarrow> (settle_skipped # rs, s')))"

definition settles_gone :: "(nat \<times> deletion) list \<Rightarrow> CleanupItem \<Rightarrow> bool" where
  "settles_gone deleted it \<longleftrightarrow>
     (case map_of deleted (ciID it) of None \<Rightarrow> False | Some d \<Rightarrow> deletion_gone d)"

definition settle_retire ::
  "'s SettleStore \<Rightarrow> (nat \<times> deletion) list \<Rightarrow> CleanupItem list \<Rightarrow> ItemResult list \<Rightarrow> 's \<Rightarrow>
   ItemResult list \<times> 's" where
  "settle_retire st deleted items results s =
    (let gone = filter (settles_gone deleted) items in
     if gone = [] then (results, s)
     else case ssComplete st gone s of
       (Inl err, s') \<Rightarrow> (results, s')
     | (Inr retired, s') \<Rightarrow>
         (map2 (\<lambda>it res.
            if \<not> settles_gone deleted it then res
            else if ciID it \<notin> set retired then settle_lost
            else \<lparr>irOutcome = ItemSucceeded,
                  irStatus = deletion_status (the (map_of deleted (ciID it)))\<rparr>) items results, s'))"

definition Settle :: "'s SettleStore \<Rightarrow> Deleter \<Rightarrow> CleanupItem list \<Rightarrow> 's \<Rightarrow> ItemResult list \<times> 's" where
  "Settle st dl items s =
    (if items = [] then ([], s)
     else
       let deleted = deleteAll dl items in
       case settle_failures st deleted items s of (results, s') \<Rightarrow>
         settle_retire st deleted items results s')"

definition sqlite_settle_store :: "time \<Rightarrow> error option \<Rightarrow> error option \<Rightarrow> error option \<Rightarrow> db SettleStore" where
  "sqlite_settle_store now failComplete failRetry failMove =
    (let attempt = (\<lambda>fail f d. case fail of Some e \<Rightarrow> (Inl e, d) | None \<Rightarrow> (Inr (fst (f d)), snd (f d))) in
     \<lparr>ssComplete = (\<lambda>items d. case failComplete of
         Some e \<Rightarrow> (Inl e, d) | None \<Rightarrow> (case CompleteCleanupItems items d of (ids, d') \<Rightarrow> (Inr ids, d'))),
      ssRetry = (\<lambda>item backoff msg d. attempt failRetry (RetryCleanupItem now item backoff msg) d),
      ssMoveToDLQ = (\<lambda>item msg d. attempt failMove (MoveCleanupToDLQ now item msg) d)\<rparr>)"

lemma filter_mset_weaken:
  "\<lbrakk>filter_mset P M = filter_mset P N; \<And>x. Q x \<Longrightarrow> P x\<rbrakk> \<Longrightarrow> filter_mset Q M = filter_mset Q N"
proof -
  assume eq: "filter_mset P M = filter_mset P N" and imp: "\<And>x. Q x \<Longrightarrow> P x"
  have "filter_mset Q K = filter_mset Q (filter_mset P K)" for K
    using imp by (auto simp: filter_filter_mset intro!: filter_mset_cong)
  with eq show ?thesis by metis
qed

definition delete_failed :: "(nat \<times> deletion) list \<Rightarrow> CleanupItem \<Rightarrow> bool" where
  "delete_failed deleted it \<longleftrightarrow>
     (\<exists>e. map_of deleted (ciID it) = Some (Deletion (Some e)) \<and> \<not> IsNotFound e)"

lemma gone_not_failed: "settles_gone deleted it \<Longrightarrow> \<not> delete_failed deleted it"
  by (auto simp: settles_gone_def delete_failed_def split: option.splits)

subsection \<open>What a queue promises its settler\<close>

text \<open>
  \<open>queue\<close> is the rows a settling write can match, \<open>dead\<close> the dead letters. A settling
  write that fails leaves the queue as it was.
\<close>

locale settle_store =
  fixes st :: "'s SettleStore" and ok :: "'s \<Rightarrow> bool" and queue :: "'s \<Rightarrow> QueueRow multiset"
    and dead :: "'s \<Rightarrow> CleanupRequest multiset"
  assumes complete: "\<lbrakk>ssComplete st items s = (Inr ids, t); ok s; distinct (map ciID items)\<rbrakk> \<Longrightarrow>
      ok t \<and> queue t = filter_mset (\<lambda>r. \<forall>it \<in> set items. \<not> claimArgs it r) (queue s) \<and> dead t = dead s \<and>
      set ids = ciID ` {it \<in> set items. \<exists>r \<in># queue s. claimArgs it r}"
    and complete_failed: "ssComplete st items s = (Inl e, t) \<Longrightarrow> t = s"
    and retry: "\<lbrakk>ssRetry st it delay msg s = (Inr held, t); ok s\<rbrakk> \<Longrightarrow>
      ok t \<and> held = (\<exists>r \<in># queue s. claimArgs it r) \<and> dead t = dead s \<and>
      (\<exists>next. queue t = image_mset (\<lambda>r. if claimArgs it r then released next msg r else r) (queue s))"
    and retry_failed: "ssRetry st it delay msg s = (Inl e, t) \<Longrightarrow> t = s"
    and move: "\<lbrakk>ssMoveToDLQ st it msg s = (Inr held, t); ok s\<rbrakk> \<Longrightarrow>
      ok t \<and> held = (\<exists>r \<in># queue s. claimArgs it r) \<and>
      queue t = filter_mset (\<lambda>r. \<not> claimArgs it r) (queue s) \<and>
      dead t = dead s + image_mset qrRequest (filter_mset (claimArgs it) (queue s))"
    and move_failed: "ssMoveToDLQ st it msg s = (Inl e, t) \<Longrightarrow> t = s"
begin

definition owes :: "'s \<Rightarrow> CleanupRequest multiset" where
  "owes s = image_mset qrRequest (queue s) + dead s"

text \<open>A failed delete changes only the rows its item holds, and what is owed stays owed.\<close>

definition settled_by :: "CleanupItem \<Rightarrow> 's \<Rightarrow> 's \<Rightarrow> bool" where
  "settled_by it s t \<longleftrightarrow> ok t \<and> owes t = owes s \<and>
     filter_mset (\<lambda>r. qrID r \<noteq> ciID it) (queue t) = filter_mset (\<lambda>r. qrID r \<noteq> ciID it) (queue s)"

lemma settled_by_refl: "ok s \<Longrightarrow> settled_by it s s"
  by (simp add: settled_by_def)

lemma filter_released:
  "filter_mset (\<lambda>r. qrID r \<noteq> ciID it) (image_mset (\<lambda>r. if claimArgs it r then released n msg r else r) M) =
   filter_mset (\<lambda>r. qrID r \<noteq> ciID it) M"
  by (induction M) (auto simp: released_def dest: claimArgs_id)

lemma requests_released:
  "image_mset qrRequest (image_mset (\<lambda>r. if claimArgs it r then released n msg r else r) M) = image_mset qrRequest M"
  by (induction M) (auto simp: released_def)

lemma filter_moved:
  "filter_mset (\<lambda>r. qrID r \<noteq> ciID it) (filter_mset (\<lambda>r. \<not> claimArgs it r) M) = filter_mset (\<lambda>r. qrID r \<noteq> ciID it) M"
  by (induction M) (auto dest: claimArgs_id)

lemma requests_moved:
  "image_mset qrRequest (filter_mset (\<lambda>r. \<not> claimArgs it r) M) +
   (D + image_mset qrRequest (filter_mset (claimArgs it) M)) = image_mset qrRequest M + D"
  by (induction M) auto

lemma settle_retry_by: "\<lbrakk>settle_retry st it e s = (res, t); ok s\<rbrakk> \<Longrightarrow> settled_by it s t"
  by (auto simp: settle_retry_def settled_by_def owes_def filter_released requests_released
      split: prod.splits sum.splits bool.splits dest!: retry retry_failed)

lemma settle_exhaust_by: "\<lbrakk>settle_exhaust st it e s = (res, t); ok s\<rbrakk> \<Longrightarrow> settled_by it s t"
  by (auto simp: settle_exhaust_def settled_by_def owes_def filter_moved requests_moved
      split: prod.splits sum.splits bool.splits dest!: move move_failed)

lemma settle_fail_by: "\<lbrakk>settle_fail st it e s = (res, t); ok s\<rbrakk> \<Longrightarrow> settled_by it s t"
  using settle_retry_by settle_exhaust_by by (auto simp: settle_fail_def split: if_splits)

lemma settle_failures_spec:
  "\<lbrakk>settle_failures st deleted items s = (rs, t); ok s\<rbrakk> \<Longrightarrow>
   ok t \<and> owes t = owes s \<and> length rs = length items \<and>
   filter_mset (\<lambda>r. \<forall>it \<in> set items. delete_failed deleted it \<longrightarrow> qrID r \<noteq> ciID it) (queue t) =
   filter_mset (\<lambda>r. \<forall>it \<in> set items. delete_failed deleted it \<longrightarrow> qrID r \<noteq> ciID it) (queue s)"
proof (induction items arbitrary: s rs)
  case Nil
  then show ?case by simp
next
  case (Cons it items)
  let ?keep = "\<lambda>its r. \<forall>it \<in> set its. delete_failed deleted it \<longrightarrow> qrID r \<noteq> ciID it"
  show ?case
  proof (cases "delete_failed deleted it")
    case True
    then obtain e where e: "map_of deleted (ciID it) = Some (Deletion (Some e))" "\<not> IsNotFound e"
      by (auto simp: delete_failed_def)
    obtain res s1 where f: "settle_fail st it e s = (res, s1)" by fastforce
    obtain rs' where rest: "settle_failures st deleted items s1 = (rs', t)" and rs: "rs = res # rs'"
      using Cons.prems(1) e f by (auto split: prod.splits)
    have s1: "ok s1" "owes s1 = owes s"
      "filter_mset (\<lambda>r. qrID r \<noteq> ciID it) (queue s1) = filter_mset (\<lambda>r. qrID r \<noteq> ciID it) (queue s)"
      using settle_fail_by [OF f Cons.prems(2)] by (auto simp: settled_by_def)
    note IH = Cons.IH [OF rest s1(1)]
    have "filter_mset (?keep (it # items)) (queue t) = filter_mset (?keep (it # items)) (queue s1)"
      by (rule filter_mset_weaken [of "?keep items"]) (use IH in auto)
    also have "\<dots> = filter_mset (?keep (it # items)) (queue s)"
      by (rule filter_mset_weaken [OF s1(3)]) (use True in auto)
    finally show ?thesis
      using IH s1(2) by (simp add: rs)
  next
    case False
    then obtain rs' where rest: "settle_failures st deleted items s = (rs', t)" and rs: "rs = settle_skipped # rs'"
      using Cons.prems(1)
      by (auto simp: delete_failed_def split: prod.splits option.splits deletion.splits if_splits)
    show ?thesis
      using Cons.IH [OF rest Cons.prems(2)] False by (simp add: rs)
  qed
qed

text \<open>What leaves the queue is exactly what the retire call removed: rows held under the claim of
  an item whose bytes are gone.\<close>

lemma Settle_spec:
  assumes "Settle st dl items s = (res, t)" "ok s" "distinct (map ciID items)"
  defines "deleted \<equiv> deleteAll dl items"
  shows "ok t \<and>
    ((\<forall>its s'. \<not> isl (fst (ssComplete st its s'))) \<longrightarrow> owes s = owes t + image_mset qrRequest (filter_mset
      (\<lambda>r. \<exists>it \<in> set items. settles_gone deleted it \<and> claimArgs it r) (queue s))) \<and>
    ((\<forall>its s'. isl (fst (ssComplete st its s'))) \<longrightarrow> owes t = owes s)"
proof (cases "items = []")
  case True
  with assms show ?thesis by (simp add: Settle_def)
next
  case False
  obtain rs s1 where f: "settle_failures st deleted items s = (rs, s1)" by fastforce
  with assms(1) False have ret: "settle_retire st deleted items rs s1 = (res, t)"
    by (simp add: Settle_def deleted_def)
  note s1 = settle_failures_spec [OF f assms(2)]
  let ?gone = "filter (settles_gone deleted) items"
  let ?held = "\<lambda>r. \<exists>it \<in> set items. settles_gone deleted it \<and> claimArgs it r"
  have dist: "distinct (map ciID ?gone)"
    using assms(3) by (rule distinct_map_filter)
  have keep: "filter_mset ?held (queue s1) = filter_mset ?held (queue s)"
  proof (rule filter_mset_weaken)
    show "filter_mset (\<lambda>r. \<forall>it \<in> set items. delete_failed deleted it \<longrightarrow> qrID r \<noteq> ciID it) (queue s1) =
        filter_mset (\<lambda>r. \<forall>it \<in> set items. delete_failed deleted it \<longrightarrow> qrID r \<noteq> ciID it) (queue s)"
      using s1 by blast
    show "\<forall>it \<in> set items. delete_failed deleted it \<longrightarrow> qrID r \<noteq> ciID it" if held: "?held r" for r
    proof (intro ballI impI notI)
      fix it assume it: "it \<in> set items" "delete_failed deleted it" "qrID r = ciID it"
      obtain it' where "it' \<in> set items" "settles_gone deleted it'" "qrID r = ciID it'"
        using held claimArgs_id by blast
      then have "it' = it"
        using it assms(3) by (auto dest: inj_onD simp: distinct_map)
      with it \<open>settles_gone deleted it'\<close> gone_not_failed show False by blast
    qed
  qed
  show ?thesis
  proof (cases "fst (ssComplete st ?gone s1)")
    case (Inl e)
    then have "t = s1"
      using ret complete_failed by (auto simp: settle_retire_def Let_def split: if_splits prod.splits sum.splits)
    moreover have "isl (fst (ssComplete st ?gone s1))"
      by (simp add: Inl)
    ultimately show ?thesis
      using s1 by blast
  next
    case (Inr ids)
    show ?thesis
    proof (cases "?gone = []")
      case True
      then have "filter_mset ?held (queue s) = {#}"
        by (auto simp: filter_empty_conv)
      with True ret s1 show ?thesis by (auto simp: settle_retire_def)
    next
      case False
      with ret Inr have c: "ssComplete st ?gone s1 = (Inr ids, t)"
        by (auto simp: settle_retire_def Let_def split: prod.splits sum.splits)
      have t: "ok t" "queue t = filter_mset (\<lambda>r. \<not> ?held r) (queue s1)" "dead t = dead s1"
        using complete [OF c _ dist] s1 by (auto intro!: filter_mset_cong)
      have "image_mset qrRequest (queue s1) = image_mset qrRequest (queue t) + image_mset qrRequest (filter_mset ?held (queue s1))"
        unfolding t(2) by (metis (no_types) image_mset_union multiset_partition union_commute)
      then have "owes s1 = owes t + image_mset qrRequest (filter_mset ?held (queue s))"
        unfolding keep owes_def t(3) by simp
      moreover have "\<not> isl (fst (ssComplete st ?gone s1))"
        by (simp add: Inr)
      ultimately show ?thesis
        using s1 t(1) by metis
    qed
  qed
qed

end

subsection \<open>The SQLite queue keeps the contract\<close>

interpretation sqs: settle_store "sqlite_settle_store now fc fr fm" schema_ok "\<lambda>d. mset (dbQueue d)"
  "\<lambda>d. lgDead (ledger_of d)" for now fc fr fm
proof (unfold_locales, goal_cases)
  case (1 items s ids t)
  then have "fc = None" and i: "ids = fst (CompleteCleanupItems items s)" and t: "t = snd (CompleteCleanupItems items s)"
    by (auto simp: sqlite_settle_store_def Let_def split: option.splits prod.splits)
  note c = CompleteCleanupItems_ok [OF 1(2), of items, folded t]
  have "set ids = ciID ` {it \<in> set items. \<exists>r \<in> set (dbQueue s). claimArgs it r}"
    using complete_items_ids [OF 1(3)] by (cases "items = []") (simp_all add: i CompleteCleanupItems_def)
  moreover have "lgDead (ledger_of t) = lgDead (ledger_of s)"
    using c by simp
  ultimately show ?case
    using c by simp
next
  case (3 it delay msg s held t)
  then have h: "held = fst (RetryCleanupItem now it delay msg s)" "t = snd (RetryCleanupItem now it delay msg s)"
    by (auto simp: sqlite_settle_store_def Let_def split: option.splits)
  moreover have "mset (dbQueue t) = image_mset (\<lambda>r. if claimArgs it r then released (now + delay) msg r else r)
      (mset (dbQueue s))"
    by (simp add: h(2) RetryCleanupItem_def)
  ultimately show ?case
    using RetryCleanupItem_ok [OF 3(2)] by (auto simp: RetryCleanupItem_def list_ex_iff)
next
  case (5 it msg s held t)
  then have h: "held = fst (MoveCleanupToDLQ now it msg s)" "t = snd (MoveCleanupToDLQ now it msg s)"
    by (auto simp: sqlite_settle_store_def Let_def split: option.splits)
  have "dbQueue t = filter (\<lambda>r. \<not> claimArgs it r) (dbQueue s)" "held = (\<exists>r \<in># mset (dbQueue s). claimArgs it r)"
    by (auto simp: h MoveCleanupToDLQ_def Let_def filter_empty_conv filter_id_conv)
  then show ?case
    using MoveCleanupToDLQ_ok [OF 5(2), of now it msg] by (simp add: h(2))
qed (auto simp: sqlite_settle_store_def Let_def split: option.splits prod.splits)

text \<open>
  The backend confirmed that the item's bytes need no further delete: it is no longer registered,
  or it took the batch and reported the path deleted or already absent.
\<close>

definition confirmed :: "Deleter \<Rightarrow> CleanupItem list \<Rightarrow> CleanupItem \<Rightarrow> bool" where
  "confirmed dl items it \<longleftrightarrow>
    (let name = item_backend it;
         paths = map item_path (filter (\<lambda>i. item_backend i = name) items) in
     \<not> dlGetBackend dl name \<or>
     dlAdmit dl name \<and>
       (case dlDeleteMany dl name paths (item_path it) of None \<Rightarrow> True | Some e \<Rightarrow> IsNotFound e))"

lemma map_of_delete_group:
  assumes "distinct (map ciID items)" "it \<in> set items"
  shows "map_of (delete_group dl items name) (ciID it) =
    (if item_backend it \<noteq> name then None
     else if \<not> dlGetBackend dl name then Some UnknownBackend
     else if \<not> dlAdmit dl name then None
     else Some (Deletion (dlDeleteMany dl name
       (map item_path (filter (\<lambda>i. item_backend i = name) items)) (item_path it))))"
proof -
  have key: "map_of (map (\<lambda>i. (ciID i, f i)) its) (ciID it) = (if it \<in> set its then Some (f it) else None)"
    if "set its \<subseteq> set items" "distinct (map ciID its)" for f :: "CleanupItem \<Rightarrow> deletion" and its
  proof (cases "it \<in> set its")
    case True
    have "map fst (map (\<lambda>i. (ciID i, f i)) its) = map ciID its" by (simp add: comp_def)
    then have "distinct (map fst (map (\<lambda>i. (ciID i, f i)) its))" using that(2) by (simp only:)
    then show ?thesis
      using True by (auto intro!: map_of_is_SomeI)
  next
    case False
    then have "ciID it \<notin> ciID ` set its"
      using that(1) assms by (auto simp: distinct_map dest: inj_onD)
    then have "map_of (map (\<lambda>i. (ciID i, f i)) its) (ciID it) = None"
      by (auto simp: map_of_eq_None_iff image_image)
    with False show ?thesis by simp
  qed
  have "distinct (map ciID (filter (\<lambda>i. item_backend i = name) items))"
    using assms(1) by (rule distinct_map_filter)
  from key [OF _ this] show ?thesis
    using assms(2) by (simp add: delete_group_def Let_def)
qed

lemma map_of_concat_single:
  assumes "\<And>y. y \<in> set ys \<Longrightarrow> y \<noteq> x \<Longrightarrow> map_of (f y) k = None"
  shows "map_of (concat (map f ys)) k = (if x \<in> set ys then map_of (f x) k else None)"
  using assms
proof (induction ys)
  case (Cons y ys)
  then show ?case by (cases "y = x") (auto simp: map_add_def split: option.splits)
qed simp

lemma map_of_deleteAll:
  assumes "distinct (map ciID items)" "it \<in> set items"
  shows "map_of (deleteAll dl items) (ciID it) = map_of (delete_group dl items (item_backend it)) (ciID it)"
  unfolding deleteAll_def
  by (subst map_of_concat_single [where x = "item_backend it"])
    (use assms in \<open>auto simp: map_of_delete_group [OF assms]\<close>)

lemma settles_gone_iff:
  assumes "distinct (map ciID items)" "it \<in> set items"
  shows "settles_gone (deleteAll dl items) it \<longleftrightarrow> confirmed dl items it"
  by (auto simp: settles_gone_def map_of_deleteAll [OF assms] map_of_delete_group [OF assms] confirmed_def Let_def
      split: option.splits)



end
