(* ===== verification/BackendStates.thy ===== *)
theory BackendStates
  imports StoreRefinement Samples
begin

text \<open>
  Backend states: the SQLite statements on \<open>backend_states\<close>
  (\<open>store/sqlite/backend_states.go\<close>), the removal of a backend's rows
  (\<open>DeleteBackendData\<close>), and the operator's changes
  (\<open>proxy/backendstate/manager.go\<close>). The drain flags are a small state machine kept in
  one column; admission reads the same column.
\<close>

unbundle bit_operations_syntax

subsection \<open>The statements\<close>

definition has_state :: "db \<Rightarrow> string \<Rightarrow> bool" where
  "has_state d b \<longleftrightarrow> b \<in> set (map stBackendName (dbStates d))"

definition new_state :: "time \<Rightarrow> string \<Rightarrow> flags \<Rightarrow> StateRow" where
  "new_state now b f = \<lparr>stBackendName = b, stFlags = f, stObjectsMoved = 0, stLastError = [],
     stStartedAt = now, stFinishedAt = None\<rparr>"

text \<open>An update of the rows a condition selects, and whether it changed any.\<close>

definition update_states :: "(StateRow \<Rightarrow> bool) \<Rightarrow> (StateRow \<Rightarrow> StateRow) \<Rightarrow> db \<Rightarrow> bool \<times> db" where
  "update_states P f d =
    (list_ex P (dbStates d), d\<lparr>dbStates := map (\<lambda>r. if P r then f r else r) (dbStates d)\<rparr>)"

definition upsert_state ::
  "StateRow \<Rightarrow> (StateRow \<Rightarrow> bool) \<Rightarrow> (StateRow \<Rightarrow> StateRow) \<Rightarrow> db \<Rightarrow> bool \<times> db" where
  "upsert_state row P f d =
    (if has_state d (stBackendName row)
     then update_states (\<lambda>r. stBackendName r = stBackendName row \<and> P r) f d
     else (True, d\<lparr>dbStates := dbStates d @ [row]\<rparr>))"

definition ListBackendStates :: "db \<Rightarrow> StateRow list" where
  "ListBackendStates d = sort_key stBackendName (dbStates d)"

definition SetBackendFlag :: "time \<Rightarrow> string \<Rightarrow> flags \<Rightarrow> db \<Rightarrow> bool \<times> db" where
  "SetBackendFlag now b flag =
     upsert_state (new_state now b flag) (\<lambda>r. stFlags r AND flag = 0)
       (\<lambda>r. r\<lparr>stFlags := stFlags r OR flag\<rparr>)"

definition ClearBackendFlags :: "string \<Rightarrow> flags \<Rightarrow> db \<Rightarrow> bool \<times> db" where
  "ClearBackendFlags b flags =
     update_states (\<lambda>r. stBackendName r = b \<and> stFlags r AND flags \<noteq> 0)
       (\<lambda>r. r\<lparr>stFlags := stFlags r AND NOT flags\<rparr>)"

definition StartDrain :: "time \<Rightarrow> string \<Rightarrow> db \<Rightarrow> bool \<times> db" where
  "StartDrain now b =
     upsert_state (new_state now b FlagDraining) (\<lambda>r. stFlags r AND DrainBusy = 0)
       (\<lambda>r. r\<lparr>stFlags := (stFlags r AND NOT DrainFlags) OR FlagDraining,
               stObjectsMoved := 0, stLastError := [], stStartedAt := now, stFinishedAt := None\<rparr>)"

definition AddDrainedObjects :: "string \<Rightarrow> int \<Rightarrow> db \<Rightarrow> db" where
  "AddDrainedObjects b moved d = snd (update_states
     (\<lambda>r. stBackendName r = b \<and> stFlags r AND FlagDraining \<noteq> 0)
     (\<lambda>r. r\<lparr>stObjectsMoved := stObjectsMoved r + moved\<rparr>) d)"

definition MarkDrainFailed :: "time \<Rightarrow> string \<Rightarrow> string \<Rightarrow> db \<Rightarrow> db" where
  "MarkDrainFailed now b reason d = snd (update_states
     (\<lambda>r. stBackendName r = b \<and> stFlags r AND FlagDraining \<noteq> 0)
     (\<lambda>r. r\<lparr>stFlags := (stFlags r AND NOT DrainFlags) OR FlagDrainFailed,
             stLastError := reason, stFinishedAt := Some now\<rparr>) d)"

definition drain_empty :: "db \<Rightarrow> string \<Rightarrow> bool" where
  "drain_empty d b \<longleftrightarrow>
     \<not> list_ex (\<lambda>l. locBackendName l = b \<and> \<not> locUnmanaged l) (dbLocations d) \<and>
     \<not> list_ex (\<lambda>p. poBackendName p = b) (dbPending d) \<and>
     \<not> list_ex (\<lambda>u. upBackendName u = b) (dbUploads d)"

definition CompleteDrain :: "time \<Rightarrow> string \<Rightarrow> db \<Rightarrow> bool \<times> db" where
  "CompleteDrain now b d = update_states
     (\<lambda>r. stBackendName r = b \<and> stFlags r AND FlagDraining \<noteq> 0 \<and> drain_empty d b)
     (\<lambda>r. r\<lparr>stFlags := (stFlags r AND NOT DrainFlags) OR FlagDrained, stFinishedAt := Some now\<rparr>) d"

definition ClearBackendState :: "string \<Rightarrow> db \<Rightarrow> bool \<times> db" where
  "ClearBackendState b d =
     (has_state d b, d\<lparr>dbStates := filter (\<lambda>r. stBackendName r \<noteq> b) (dbStates d)\<rparr>)"

definition BackendObjectStats :: "string \<Rightarrow> db \<Rightarrow> int \<times> int" where
  "BackendObjectStats b d =
    (int (length (filter (\<lambda>l. locBackendName l = b) (dbLocations d))),
     sum_where (\<lambda>l. locBackendName l = b) locSizeBytes (dbLocations d))"

text \<open>The stripes go with their quota row (\<open>ON DELETE CASCADE\<close>); the usage tables are not
  part of \<^typ>\<open>db\<close>.\<close>

definition DeleteBackendData :: "string \<Rightarrow> db \<Rightarrow> db" where
  "DeleteBackendData b d =
    (let gone = map upUploadID (filter (\<lambda>u. upBackendName u = b) (dbUploads d)) in
     d\<lparr>dbQueue := filter (\<lambda>r. crBackendName (qrRequest r) \<noteq> b) (dbQueue d),
       dbDlq := filter (\<lambda>r. crBackendName (drRequest r) \<noteq> b) (dbDlq d),
       dbPending := filter (\<lambda>p. poBackendName p \<noteq> b) (dbPending d),
       dbParts := filter (\<lambda>e. fst e \<notin> set gone) (dbParts d),
       dbUploads := filter (\<lambda>u. upBackendName u \<noteq> b) (dbUploads d),
       dbLocations := filter (\<lambda>l. locBackendName l \<noteq> b) (dbLocations d),
       dbStripes := filter (\<lambda>e. fst (fst e) \<noteq> b) (dbStripes d),
       dbQuotas := filter (\<lambda>e. fst e \<noteq> b) (dbQuotas d)\<rparr>)"

subsection \<open>The operator's changes\<close>

text \<open>\<open>registered\<close> says whether the runtime knows the backend. A change that changes nothing is
  refused with an error.\<close>

definition change :: "(db \<Rightarrow> bool \<times> db) \<Rightarrow> string \<Rightarrow> db \<Rightarrow> error option \<times> db" where
  "change apply_change refused d =
    (case apply_change d of (changed, d') \<Rightarrow>
       if \<not> changed then (Some (Refused refused), d') else (None, d'))"

definition Cordon :: "(string \<Rightarrow> error option) \<Rightarrow> time \<Rightarrow> string \<Rightarrow> db \<Rightarrow> error option \<times> db" where
  "Cordon requireBackend now name d =
    (case requireBackend name of
       Some err \<Rightarrow> (Some err, d)
     | None \<Rightarrow> change (SetBackendFlag now name FlagCordoned) ''already cordoned'' d)"

definition Uncordon :: "string \<Rightarrow> db \<Rightarrow> error option \<times> db" where
  "Uncordon name = change (ClearBackendFlags name FlagCordoned) ''not cordoned''"

definition Manager_StartDrain :: "(string \<Rightarrow> error option) \<Rightarrow> time \<Rightarrow> string \<Rightarrow> db \<Rightarrow> error option \<times> db" where
  "Manager_StartDrain requireBackend now name d =
    (case requireBackend name of
       Some err \<Rightarrow> (Some err, d)
     | None \<Rightarrow> change (StartDrain now name) ''already draining or drained'' d)"

definition CancelDrain :: "string \<Rightarrow> db \<Rightarrow> error option \<times> db" where
  "CancelDrain name = change (ClearBackendFlags name DrainFlags) ''not draining''"

definition backend_record :: "db \<Rightarrow> string \<Rightarrow> StateRow option" where
  "backend_record d name = find (\<lambda>r. stBackendName r = name) (ListBackendStates d)"

record DrainProgress =
  dpActive :: bool
  dpState :: string
  dpObjectsMoved :: int
  dpError :: string
  dpObjectsRemaining :: int
  dpBytesRemaining :: int

definition GetDrainProgress :: "string \<Rightarrow> db \<Rightarrow> DrainProgress" where
  "GetDrainProgress name d =
    (case backend_record d name of
       None \<Rightarrow> \<lparr>dpActive = False, dpState = [], dpObjectsMoved = 0, dpError = [],
                dpObjectsRemaining = 0, dpBytesRemaining = 0\<rparr>
     | Some rec \<Rightarrow>
         (let active = Any (stFlags rec) FlagDraining;
              (count, bytes) = (if active then BackendObjectStats name d else (0, 0)) in
          \<lparr>dpActive = active, dpState = DrainState (stFlags rec), dpObjectsMoved = stObjectsMoved rec,
           dpError = stLastError rec, dpObjectsRemaining = count, dpBytesRemaining = bytes\<rparr>))"

text \<open>Removing a backend without purging its storage.\<close>

definition RemoveBackend :: "string \<Rightarrow> db \<Rightarrow> error option \<times> db" where
  "RemoveBackend name d =
    (case backend_record d name of
       Some rec \<Rightarrow>
         if Any (stFlags rec) FlagDraining then (Some (Refused ''currently draining''), d)
         else (None, snd (ClearBackendState name (DeleteBackendData name d)))
     | None \<Rightarrow> (None, snd (ClearBackendState name (DeleteBackendData name d))))"

subsection \<open>Schema and drain flags\<close>

lemma states_schema_ok:
  "\<lbrakk>schema_ok d; distinct (map stBackendName q)\<rbrakk> \<Longrightarrow> schema_ok (d\<lparr>dbStates := q\<rparr>)"
  by (simp add: schema_ok_def known_def)

lemma states_distinct: "schema_ok d \<Longrightarrow> distinct (map stBackendName (dbStates d))"
  by (simp add: schema_ok_def)

lemma update_states_ok:
  assumes "schema_ok d" "\<And>r. stBackendName (f r) = stBackendName r"
  shows "schema_ok (snd (update_states P f d))"
proof -
  have "map stBackendName (map (\<lambda>r. if P r then f r else r) (dbStates d)) = map stBackendName (dbStates d)"
    using assms(2) by simp
  then have "distinct (map stBackendName (map (\<lambda>r. if P r then f r else r) (dbStates d)))"
    using states_distinct [OF assms(1)] by (simp only:)
  then show ?thesis
    unfolding update_states_def snd_conv by (rule states_schema_ok [OF assms(1)])
qed

lemma upsert_state_ok:
  assumes "schema_ok d" "\<And>r. stBackendName (f r) = stBackendName r"
  shows "schema_ok (snd (upsert_state row P f d))"
  using assms states_distinct [OF assms(1)]
  by (auto simp: upsert_state_def has_state_def intro: update_states_ok states_schema_ok)

text \<open>A row carries at most one drain flag.\<close>

definition drain_ok :: "flags \<Rightarrow> bool" where
  "drain_ok f \<longleftrightarrow> f AND DrainFlags \<in> {0, FlagDraining, FlagDrained, FlagDrainFailed}"

definition states_ok :: "db \<Rightarrow> bool" where
  "states_ok d \<longleftrightarrow> (\<forall>r \<in> set (dbStates d). drain_ok (stFlags r))"

lemma drain_bits [simp]:
  "FlagDraining AND DrainFlags = FlagDraining" "FlagDrained AND DrainFlags = FlagDrained"
  "FlagDrainFailed AND DrainFlags = FlagDrainFailed" "FlagCordoned AND DrainFlags = 0"
  by (simp_all add: backend_flag_defs)

lemma replaced_drain: "((f AND NOT DrainFlags) OR x) AND DrainFlags = x AND DrainFlags"
  by (simp add: bit_eq_iff bit_simps) blast

lemma drain_ok_set:
  "drain_ok ((f AND NOT DrainFlags) OR FlagDraining)" "drain_ok ((f AND NOT DrainFlags) OR FlagDrained)"
  "drain_ok ((f AND NOT DrainFlags) OR FlagDrainFailed)" "drain_ok FlagDraining" "drain_ok FlagCordoned"
  by (simp_all add: drain_ok_def replaced_drain)

lemma drain_ok_cordon: "drain_ok f \<Longrightarrow> drain_ok (f OR FlagCordoned)" "drain_ok f \<Longrightarrow> drain_ok (f AND NOT FlagCordoned)"
proof -
  have c: "DrainFlags AND FlagCordoned = 0" by (simp add: backend_flag_defs)
  have "(f OR FlagCordoned) AND DrainFlags = f AND DrainFlags"
    by (simp add: and.commute [of _ DrainFlags] bit.conj_disj_distrib c)
  moreover have "DrainFlags AND NOT FlagCordoned = DrainFlags"
    by (simp add: backend_flag_defs)
  then have "(f AND NOT FlagCordoned) AND DrainFlags = f AND DrainFlags"
    by (simp add: and.assoc and.commute [of "NOT FlagCordoned"])
  ultimately show "drain_ok f \<Longrightarrow> drain_ok (f OR FlagCordoned)" "drain_ok f \<Longrightarrow> drain_ok (f AND NOT FlagCordoned)"
    by (simp_all add: drain_ok_def)
qed

lemma drain_ok_cleared: "drain_ok (f AND NOT DrainFlags)"
  by (simp add: drain_ok_def and.assoc)

lemma update_states_drain:
  "\<lbrakk>states_ok d; \<And>r. drain_ok (stFlags r) \<Longrightarrow> drain_ok (stFlags (f r))\<rbrakk> \<Longrightarrow> states_ok (snd (update_states P f d))"
  by (auto simp: states_ok_def update_states_def)

lemma upsert_state_drain:
  "\<lbrakk>states_ok d; drain_ok (stFlags row); \<And>r. drain_ok (stFlags r) \<Longrightarrow> drain_ok (stFlags (f r))\<rbrakk> \<Longrightarrow>
   states_ok (snd (upsert_state row P f d))"
  using update_states_drain [of d f] by (auto simp: upsert_state_def states_ok_def)

lemma change_snd: "snd (change f msg d) = snd (f d)"
  by (simp add: change_def split: prod.splits)

lemma drain_statements_ok:
  assumes "schema_ok d"
  shows "schema_ok (snd (SetBackendFlag now b f d))" "schema_ok (snd (ClearBackendFlags b f d))"
    "schema_ok (snd (StartDrain now b d))" "schema_ok (AddDrainedObjects b n d)"
    "schema_ok (MarkDrainFailed now b reason d)" "schema_ok (snd (CompleteDrain now b d))"
    "schema_ok (snd (ClearBackendState b d))"
  using assms states_distinct [OF assms]
  by (auto simp: SetBackendFlag_def ClearBackendFlags_def StartDrain_def AddDrainedObjects_def
      MarkDrainFailed_def CompleteDrain_def ClearBackendState_def distinct_map_filter
      intro!: upsert_state_ok update_states_ok states_schema_ok)

text \<open>The statements of the manager and the drainer.\<close>

lemma drain_statements_drain:
  assumes "states_ok d"
  shows "states_ok (snd (SetBackendFlag now b FlagCordoned d))"
    "states_ok (snd (ClearBackendFlags b FlagCordoned d))" "states_ok (snd (ClearBackendFlags b DrainFlags d))"
    "states_ok (snd (StartDrain now b d))" "states_ok (AddDrainedObjects b n d)"
    "states_ok (MarkDrainFailed now b reason d)" "states_ok (snd (CompleteDrain now b d))"
    "states_ok (snd (ClearBackendState b d))"
  using assms
  by (auto simp: SetBackendFlag_def ClearBackendFlags_def StartDrain_def AddDrainedObjects_def
      MarkDrainFailed_def CompleteDrain_def new_state_def drain_ok_set drain_ok_cordon drain_ok_cleared
      intro!: upsert_state_drain update_states_drain)
    (auto simp: ClearBackendState_def states_ok_def)

subsection \<open>A draining backend takes nothing new\<close>

lemma find_unique:
  "\<lbrakk>distinct (map g xs); x \<in> set xs\<rbrakk> \<Longrightarrow> find (\<lambda>y. g y = g x) xs = Some x"
  by (induction xs) force+

lemma state_flags: "\<lbrakk>schema_ok d; r \<in> set (dbStates d)\<rbrakk> \<Longrightarrow> capacity_flags d (stBackendName r) = stFlags r"
  using find_unique [OF states_distinct] by (simp add: capacity_flags_def)

definition closed_to :: "db \<Rightarrow> string \<Rightarrow> flags \<Rightarrow> bool" where
  "closed_to d b accepts \<longleftrightarrow> capacity_flags d b AND NOT accepts \<noteq> 0"

lemma closed_refuses:
  "\<lbrakk>closed_to d (poBackendName p) accepts\<rbrakk> \<Longrightarrow> sqlite_InsertPendingIfFits now p accepts d = Inr (False, d)"
  by (simp add: closed_to_def sqlite_InsertPendingIfFits_def split: option.splits)

lemma within_bits: "f AND NOT g = 0 \<longleftrightarrow> f AND g = (f :: flags)"
  by (simp add: bit_eq_iff bit_simps) blast

lemma flag_kept: "\<lbrakk>x AND accepts = 0; x \<noteq> (0 :: flags)\<rbrakk> \<Longrightarrow> (f OR x) AND NOT accepts \<noteq> 0"
proof
  assume x: "x AND accepts = 0" "x \<noteq> 0" and "(f OR x) AND NOT accepts = 0"
  then have "x AND NOT accepts = 0"
    by (simp add: bit.conj_disj_distrib2 or_eq_0_iff)
  then have "x AND accepts = x" by (simp add: within_bits)
  with x show False by simp
qed

lemma closed_by_row:
  assumes "schema_ok d" "r \<in> set (dbStates d)" "stBackendName r = b" "stFlags r = (f AND g) OR x"
    "accepts AND x = 0" "x \<noteq> 0"
  shows "closed_to d b accepts"
proof -
  have "capacity_flags d b = (f AND g) OR x"
    using state_flags [OF assms(1,2)] assms(3,4) by simp
  with flag_kept [of x accepts] assms(5,6) show ?thesis by (simp add: closed_to_def and.commute)
qed

lemma StartDrain_row:
  assumes "StartDrain now b d = (True, d')"
  obtains r f where "r \<in> set (dbStates d')" "stBackendName r = b" "stFlags r = (f AND NOT DrainFlags) OR FlagDraining"
proof (cases "has_state d b")
  case True
  with assms obtain r where r: "r \<in> set (dbStates d)" "stBackendName r = b" "stFlags r AND DrainBusy = 0"
    and d': "dbStates d' = map (\<lambda>r. if stBackendName r = b \<and> stFlags r AND DrainBusy = 0
       then r\<lparr>stFlags := (stFlags r AND NOT DrainFlags) OR FlagDraining,
               stObjectsMoved := 0, stLastError := [], stStartedAt := now, stFinishedAt := None\<rparr> else r) (dbStates d)"
    by (auto simp: StartDrain_def upsert_state_def update_states_def new_state_def list_ex_iff)
  show ?thesis
    by (rule that [of "r\<lparr>stFlags := (stFlags r AND NOT DrainFlags) OR FlagDraining,
          stObjectsMoved := 0, stLastError := [], stStartedAt := now, stFinishedAt := None\<rparr>" "stFlags r"])
      (use r in \<open>auto simp: d' image_iff intro!: bexI [of _ r]\<close>)
next
  case False
  with assms have "new_state now b FlagDraining \<in> set (dbStates d')"
    by (auto simp: StartDrain_def upsert_state_def new_state_def)
  then show ?thesis
    by (rule that [of _ 0]) (simp_all add: new_state_def)
qed

lemma CompleteDrain_row:
  assumes "CompleteDrain now b d = (True, d')"
  obtains r f where "r \<in> set (dbStates d')" "stBackendName r = b" "stFlags r = (f AND NOT DrainFlags) OR FlagDrained"
    "drain_empty d b" "d' = d\<lparr>dbStates := dbStates d'\<rparr>"
proof -
  from assms obtain r where r: "r \<in> set (dbStates d)" "stBackendName r = b" "stFlags r AND FlagDraining \<noteq> 0"
    and e: "drain_empty d b"
    and d': "d' = d\<lparr>dbStates := map (\<lambda>r. if stBackendName r = b \<and> stFlags r AND FlagDraining \<noteq> 0 \<and> drain_empty d b
       then r\<lparr>stFlags := (stFlags r AND NOT DrainFlags) OR FlagDrained, stFinishedAt := Some now\<rparr> else r) (dbStates d)\<rparr>"
    by (auto simp: CompleteDrain_def update_states_def list_ex_iff)
  show ?thesis
    by (rule that [of "r\<lparr>stFlags := (stFlags r AND NOT DrainFlags) OR FlagDrained, stFinishedAt := Some now\<rparr>" "stFlags r"])
      (use r e in \<open>auto simp: d' image_iff intro!: bexI [of _ r]\<close>)
qed





subsection \<open>Removing a backend\<close>

lemma DeleteBackendData_sel [simp]:
  "dbQueue (DeleteBackendData b d) = filter (\<lambda>r. crBackendName (qrRequest r) \<noteq> b) (dbQueue d)"
  "dbQueueSeq (DeleteBackendData b d) = dbQueueSeq d"
  "dbDlq (DeleteBackendData b d) = filter (\<lambda>r. crBackendName (drRequest r) \<noteq> b) (dbDlq d)"
  "dbPending (DeleteBackendData b d) = filter (\<lambda>p. poBackendName p \<noteq> b) (dbPending d)"
  "dbParts (DeleteBackendData b d) =
     filter (\<lambda>e. fst e \<notin> upUploadID ` {u \<in> set (dbUploads d). upBackendName u = b}) (dbParts d)"
  "dbUploads (DeleteBackendData b d) = filter (\<lambda>u. upBackendName u \<noteq> b) (dbUploads d)"
  "dbLocations (DeleteBackendData b d) = filter (\<lambda>l. locBackendName l \<noteq> b) (dbLocations d)"
  "dbStripes (DeleteBackendData b d) = filter (\<lambda>e. fst (fst e) \<noteq> b) (dbStripes d)"
  "dbQuotas (DeleteBackendData b d) = filter (\<lambda>e. fst e \<noteq> b) (dbQuotas d)"
  "dbTags (DeleteBackendData b d) = dbTags d" "dbStates (DeleteBackendData b d) = dbStates d"
  by (simp_all add: DeleteBackendData_def Let_def)

lemma known_deleted [simp]: "known (DeleteBackendData b d) x \<longleftrightarrow> known d x \<and> x \<noteq> b"
  by (auto simp: known_def)

lemma DeleteBackendData_ok: "schema_ok d \<Longrightarrow> schema_ok (DeleteBackendData b d)"
proof -
  assume ok: "schema_ok d"
  have parts: "\<forall>e \<in> set (dbParts (DeleteBackendData b d)). fst e \<in> upUploadID ` set (dbUploads (DeleteBackendData b d))"
  proof
    fix e assume e: "e \<in> set (dbParts (DeleteBackendData b d))"
    then have "fst e \<in> upUploadID ` set (dbUploads d)"
      using ok by (simp add: schema_ok_def)
    then obtain u where u: "u \<in> set (dbUploads d)" "upUploadID u = fst e" by auto
    with e have "upBackendName u \<noteq> b" by (auto simp: image_iff)
    with u show "fst e \<in> upUploadID ` set (dbUploads (DeleteBackendData b d))" by force
  qed
  show ?thesis
    unfolding schema_ok_def [of "DeleteBackendData b d"]
    using ok [unfolded schema_ok_def] parts by (simp add: distinct_map_filter)
qed



text \<open>
  Removing the backend that holds the last copy of an object leaves the object's tags behind:
  the key has no copy any more and its tag set is still there.
\<close>

theorem RemoveBackend_leaves_tags:
  "dbLocations (snd (RemoveBackend ''b1'' sample_db)) = [] \<and>
   dbTags (snd (RemoveBackend ''b1'' sample_db)) = [(''k'', \<lparr>tagKey = ''team'', tagValue = ''a''\<rparr>)]"
  by code_simp

end
