(* ===== verification/Quota.thy ===== *)
theory Quota
  imports StoreRefinement Samples StoreInvariants
begin

text \<open>
  Quotas and the ledger figures of the SQLite engine (\<open>store/sqlite/quota.go\<close>,
  \<open>store/core/ledger.go\<close>): the ceilings, the capacity snapshot, the drift reconcile, and the
  per-backend figures folded from one grouped pass over the recorded copies.
\<close>

subsection \<open>Ceilings, capacity and drift\<close>

record BackendConfig =
  bcName :: string
  bcQuotaBytes :: int

definition SyncQuotaLimits :: "BackendConfig list \<Rightarrow> db \<Rightarrow> db" where
  "SyncQuotaLimits backends d =
     d\<lparr>dbQuotas := foldl (\<lambda>q b. AList.update (bcName b) (bcQuotaBytes b) q) (dbQuotas d) backends\<rparr>"

definition quota_stat :: "db \<Rightarrow> string \<Rightarrow> int \<Rightarrow> QuotaStat" where
  "quota_stat d b bytes_limit =
    \<lparr>qsBackendName = b, qsBytesUsed = capacity_used d b, qsBytesLimit = bytes_limit,
     qsOrphanBytes = capacity_orphan d b,
     qsInflightBytes = capacity_parts d b + capacity_intents d b\<rparr>"

definition GetQuotaStats :: "db \<Rightarrow> (string \<times> QuotaStat) list" where
  "GetQuotaStats d = map (\<lambda>(b, l). (b, quota_stat d b l)) (dbQuotas d)"

definition usage_drift :: "db \<Rightarrow> (string \<times> int) list" where
  "usage_drift d =
    filter (\<lambda>e. snd e \<noteq> 0) (map (\<lambda>(b, l).
      (b, sum_where (\<lambda>loc. locBackendName loc = b) locSizeBytes (dbLocations d)
          - sum_where (\<lambda>e. fst (fst e) = b) snd (dbStripes d))) (dbQuotas d))"

definition ReconcileUsage :: "(db, (string \<times> int) list) tx" where
  "ReconcileUsage d =
    (let drift = usage_drift d in
     tx_bind (sqlite_AdjustQuotaStripes
       (map (\<lambda>e. \<lparr>scBackend = fst e, scStripe = 0, scDelta = snd e\<rparr>) drift)) (\<lambda>_.
     tx_return drift) d)"

subsection \<open>Ledger figures\<close>

record CompressionStat =
  csObjects :: int
  csLogicalBytes :: int
  csStoredBytes :: int

record LedgerStat =
  lsObjects :: int
  lsUnhashed :: int
  lsPlaintext :: int
  lsUnreadable :: int
  lsCompressed :: CompressionStat
  lsVerifiable :: int
  lsNeverVerified :: int
  lsOldestTouched :: time

record LedgerGroup =
  lgrBackend :: string
  lgrForm :: flags
  lgrManaged :: bool
  lgrCopies :: int
  lgrStoredBytes :: int
  lgrObjectBytes :: int
  lgrNeverScrubbed :: int
  lgrOldestTouched :: time

definition zeroLedgerStat :: LedgerStat where
  "zeroLedgerStat = \<lparr>lsObjects = 0, lsUnhashed = 0, lsPlaintext = 0, lsUnreadable = 0,
     lsCompressed = \<lparr>csObjects = 0, csLogicalBytes = 0, csStoredBytes = 0\<rparr>,
     lsVerifiable = 0, lsNeverVerified = 0, lsOldestTouched = 0\<rparr>"

definition LedgerStat_add :: "LedgerStat \<Rightarrow> LedgerGroup \<Rightarrow> LedgerStat" where
  "LedgerStat_add st g =
    (let st = st\<lparr>lsObjects := lsObjects st + lgrCopies g\<rparr>;
         st = (if \<not> Has (lgrForm g) StoredHashed then st\<lparr>lsUnhashed := lsUnhashed st + lgrCopies g\<rparr> else st);
         st = (if \<not> Has (lgrForm g) StoredEncrypted then st\<lparr>lsPlaintext := lsPlaintext st + lgrCopies g\<rparr> else st);
         st = (if Unreadable (lgrForm g) then st\<lparr>lsUnreadable := lsUnreadable st + lgrCopies g\<rparr> else st);
         st = (if Has (lgrForm g) StoredCompressed
               then st\<lparr>lsCompressed := \<lparr>csObjects = csObjects (lsCompressed st) + lgrCopies g,
                  csLogicalBytes = csLogicalBytes (lsCompressed st) + lgrObjectBytes g,
                  csStoredBytes = csStoredBytes (lsCompressed st) + lgrStoredBytes g\<rparr>\<rparr> else st) in
     if \<not> lgrManaged g \<or> \<not> Has (lgrForm g) StoredHashed then st
     else
       let st = st\<lparr>lsVerifiable := lsVerifiable st + lgrCopies g,
                   lsNeverVerified := lsNeverVerified st + lgrNeverScrubbed g\<rparr> in
       if lsOldestTouched st = 0 \<or> lgrOldestTouched g < lsOldestTouched st
       then st\<lparr>lsOldestTouched := lgrOldestTouched g\<rparr> else st)"

definition FoldLedger :: "LedgerGroup list \<Rightarrow> (string \<times> LedgerStat) list" where
  "FoldLedger groups =
     foldl (\<lambda>out g. AList.update (lgrBackend g)
       (LedgerStat_add (alookup zeroLedgerStat out (lgrBackend g)) g) out) [] groups"

definition perBackend :: "(LedgerStat \<Rightarrow> int) \<Rightarrow> (string \<times> LedgerStat) list \<Rightarrow> (string \<times> int) list" where
  "perBackend field s = map (\<lambda>(name, st). (name, field st)) s"

definition ObjectCounts :: "(string \<times> LedgerStat) list \<Rightarrow> (string \<times> int) list" where
  "ObjectCounts = perBackend lsObjects"

definition UnhashedCounts :: "(string \<times> LedgerStat) list \<Rightarrow> (string \<times> int) list" where
  "UnhashedCounts = perBackend lsUnhashed"

definition ledger_total :: "(LedgerStat \<Rightarrow> int) \<Rightarrow> (string \<times> LedgerStat) list \<Rightarrow> int" where
  "ledger_total field s = sum_list (map (\<lambda>(name, st). field st) s)"

definition PlaintextCopies :: "(string \<times> LedgerStat) list \<Rightarrow> int" where
  "PlaintextCopies = ledger_total lsPlaintext"

definition UnreadableCopies :: "(string \<times> LedgerStat) list \<Rightarrow> int" where
  "UnreadableCopies = ledger_total lsUnreadable"

definition Compression :: "(string \<times> LedgerStat) list \<Rightarrow> (string \<times> CompressionStat) list" where
  "Compression s = map (\<lambda>(name, st). (name, lsCompressed st))
     (filter (\<lambda>(name, st). csObjects (lsCompressed st) > 0) s)"

record CoverageStat =
  cvOldestUnverifiedAge :: int
  cvNeverVerified :: int
  cvDeferred :: int

definition Coverage_step :: "string list \<Rightarrow> CoverageStat \<times> time \<Rightarrow> string \<times> LedgerStat \<Rightarrow> CoverageStat \<times> time" where
  "Coverage_step reachable acc e =
    (case acc of (cov, oldest) \<Rightarrow> case e of (name, st) \<Rightarrow>
       if name \<notin> set reachable then (cov\<lparr>cvDeferred := cvDeferred cov + lsVerifiable st\<rparr>, oldest)
       else (cov\<lparr>cvNeverVerified := cvNeverVerified cov + lsNeverVerified st\<rparr>,
             if lsVerifiable st > 0 \<and> (oldest = 0 \<or> lsOldestTouched st < oldest)
             then lsOldestTouched st else oldest))"

definition Coverage :: "(string \<times> LedgerStat) list \<Rightarrow> string list \<Rightarrow> time \<Rightarrow> CoverageStat" where
  "Coverage s reachable now =
    (case foldl (Coverage_step reachable)
        (\<lparr>cvOldestUnverifiedAge = 0, cvNeverVerified = 0, cvDeferred = 0\<rparr>, 0) s of (cov, oldest) \<Rightarrow>
       if oldest \<noteq> 0 \<and> now > oldest then cov\<lparr>cvOldestUnverifiedAge := now - oldest\<rparr> else cov)"

text \<open>The grouped query: one group per backend, stored form and managed flag.\<close>

definition group_key :: "ObjectLocation \<Rightarrow> string \<times> flags \<times> bool" where
  "group_key l = (locBackendName l, word_of_int (sql_form (locForm l)), \<not> locUnmanaged l)"

definition last_touch :: "ObjectLocation \<Rightarrow> time" where
  "last_touch l = (case locLastScrubbedAt l of None \<Rightarrow> locCreatedAt l | Some t \<Rightarrow> t)"

definition ledger_group :: "ObjectLocation list \<Rightarrow> string \<times> flags \<times> bool \<Rightarrow> LedgerGroup" where
  "ledger_group locs key =
    (let rows = filter (\<lambda>l. group_key l = key) locs in
     \<lparr>lgrBackend = fst key, lgrForm = fst (snd key), lgrManaged = snd (snd key),
      lgrCopies = int (length rows),
      lgrStoredBytes = sum_list (map locSizeBytes rows),
      lgrObjectBytes = sum_list (map (\<lambda>l. sql_object_size (locForm l) (locSizeBytes l)) rows),
      lgrNeverScrubbed = int (length (filter (\<lambda>l. locLastScrubbedAt l = None) rows)),
      lgrOldestTouched = (case rows of [] \<Rightarrow> 0 | _ \<Rightarrow> Min (last_touch ` set rows))\<rparr>)"

definition LedgerStats :: "db \<Rightarrow> (string \<times> LedgerStat) list" where
  "LedgerStats d = FoldLedger
     (map (ledger_group (dbLocations d)) (remdups (map group_key (dbLocations d))))"

subsection \<open>Reconciling\<close>

lemma usage_drift_map:
  "schema_ok d \<Longrightarrow> distinct (map fst (usage_drift d)) \<and> fst ` set (usage_drift d) \<subseteq> fst ` set (dbQuotas d)"
proof -
  have "distinct (map fst (filter P (map (\<lambda>(b, l). (b, f b)) q)))" if "distinct (map fst q)"
    for f :: "string \<Rightarrow> int" and q :: "(string \<times> int) list" and P
    using that by (induction q) (auto simp: image_iff)
  moreover assume "schema_ok d"
  then have "distinct (map fst (dbQuotas d))"
    by (simp add: schema_ok_def)
  ultimately have "distinct (map fst (usage_drift d))"
    by (simp add: usage_drift_def)
  then show ?thesis by (force simp: usage_drift_def)
qed

lemma drift_charge:
  assumes "distinct (map fst xs)"
  shows "charge_sum (\<lambda>c. scBackend c = b) (map (\<lambda>e. \<lparr>scBackend = fst e, scStripe = 0, scDelta = snd e\<rparr>) xs) = alookup 0 xs b"
  using sum_where_key [OF assms, of b] by (simp add: charge_sum_def sum_where_def comp_def filter_map)

lemma usage_drift_lookup:
  assumes "schema_ok d"
  shows "alookup 0 (usage_drift d) b = (if known d b
    then bytes_on b (mset (dbLocations d)) - sum_where (\<lambda>e. fst (fst e) = b) snd (dbStripes d) else 0)"
proof -
  have "alookup 0 (filter (\<lambda>e. snd e \<noteq> 0) (map (\<lambda>(b, l). (b, f b)) q)) b = (if b \<in> fst ` set q then f b else 0)"
    for f :: "string \<Rightarrow> int" and q :: "(string \<times> int) list"
    by (induction q) (auto simp: alookup_def)
  then show ?thesis
    unfolding usage_drift_def by (auto simp: known_def bytes_on_def)
qed

lemma unknown_no_bytes:
  assumes "schema_ok d" "\<not> known d b"
  shows "bytes_on b (mset (dbLocations d)) = 0" "sum_where (\<lambda>e. fst (fst e) = b) snd (dbStripes d) = 0"
  using assms by (auto simp: schema_ok_def bytes_on_def intro!: bytes_where_none sum_where_none)

lemma adjust_keeps_locations: "sqlite_AdjustQuotaStripes cs d = Inr (u, d') \<Longrightarrow> dbLocations d' = dbLocations d"
  unfolding sqlite_AdjustQuotaStripes_def
  by (induction cs arbitrary: d) (auto simp: tx_bind_Inr adjust_stripe_def split: if_splits)

text \<open>
  C35. The usage reconcile always succeeds and leaves no drift: every backend's byte counter then
  equals the bytes of its recorded copies, and nothing but the counters changed.
\<close>

theorem reconcile_restores_usage:
  assumes "schema_ok d"
  shows "\<exists>applied d'. ReconcileUsage d = Inr (applied, d') \<and> schema_ok d' \<and>
    dbLocations d' = dbLocations d \<and> (\<forall>b. drift (ledger_of d') b = 0)"
proof -
  let ?cs = "map (\<lambda>e. \<lparr>scBackend = fst e, scStripe = 0, scDelta = snd e\<rparr>) (usage_drift d)"
  have "\<forall>c \<in> set ?cs. lgLimit (ledger_of d) (scBackend c) \<noteq> None"
    using usage_drift_map [OF assms] by (auto simp: map_of_eq_None_iff subset_iff image_iff)
  then obtain d' where a: "sqlite_AdjustQuotaStripes ?cs d = Inr ((), d')"
    using sq_live.adjust_live [where s = d and cs = ?cs] assms by auto
  have d': "schema_ok d'" "ledger_of d' = with_charges ?cs (ledger_of d)"
    using sq.adjust_stripes [where cs = ?cs and s = d and u = "()" and t = d'] a assms by auto
  have "lgCopies (ledger_of d') = lgCopies (ledger_of d)"
    by (simp add: d'(2) with_charges_def)
  have "drift (ledger_of d') b = 0" for b
    using usage_drift_lookup [OF assms, of b] unknown_no_bytes [OF assms, of b]
      drift_charge [of "usage_drift d" b] usage_drift_map [OF assms]
    by (auto simp: drift_def d'(2) with_charges_def)
  moreover have "dbLocations d' = dbLocations d"
    using a by (rule adjust_keeps_locations)
  ultimately show ?thesis
    using a d'(1) by (auto simp: ReconcileUsage_def Let_def tx_bind_Inr)
qed

theorem reconcile_restores_usage_witness:
  "\<exists>applied d'. ReconcileUsage (sample_db\<lparr>dbStripes := []\<rparr>) = Inr (applied, d') \<and>
    drift (ledger_of d') ''b1'' = 0 \<and> drift (ledger_of (sample_db\<lparr>dbStripes := []\<rparr>)) ''b1'' \<noteq> 0"
proof -
  have "schema_ok (sample_db\<lparr>dbStripes := []\<rparr>)" by code_simp
  moreover have "drift (ledger_of (sample_db\<lparr>dbStripes := []\<rparr>)) ''b1'' \<noteq> 0"
    by (simp add: drift_def bytes_on_def sample_db_def sample_copy_def stored_location_def ObjectFromStoredForm_def)
  ultimately show ?thesis
    using reconcile_restores_usage [of "sample_db\<lparr>dbStripes := []\<rparr>"] by blast
qed

subsection \<open>The published figures are the ones admission uses\<close>

text \<open>
  C37. A claim is admitted exactly when the backend is configured, carries no flag the caller does
  not accept, and the published quota figures leave room: no ceiling, or occupied bytes plus the
  intent's within it.
\<close>

theorem admission_follows_quota_stats:
  assumes "sqlite_InsertPendingIfFits now p accepts d = Inr (fits, d')"
  shows "fits \<longleftrightarrow> (\<exists>q. map_of (GetQuotaStats d) (poBackendName p) = Some q \<and>
    AcceptedBy (capacity_flags d (poBackendName p)) accepts \<and>
    (qsBytesLimit q = 0 \<or> Occupied q + poSizeBytes p \<le> qsBytesLimit q))"
proof -
  have "map_of (map (\<lambda>(b, l). (b, g b l)) q) b = map_option (g b) (map_of q b)"
    for g :: "string \<Rightarrow> int \<Rightarrow> QuotaStat" and q :: "(string \<times> int) list" and b
    by (induction q) auto
  then have "map_of (GetQuotaStats d) b = map_option (quota_stat d b) (map_of (dbQuotas d) b)" for b
    by (simp add: GetQuotaStats_def)
  with assms show ?thesis
    by (auto simp: sqlite_InsertPendingIfFits_def quota_stat_def Occupied_def Unrecorded_def available_bytes_def
        AcceptedBy_def Within_def split: option.splits if_splits)
qed

theorem admission_follows_quota_stats_witness:
  "sqlite_InsertPendingIfFits 9 (sample_intent ''i'' ''k'' ''b1'' ''k!2'') AcceptForWrite sample_db =
     Inr (True, sample_db\<lparr>dbPending := [stored_intent 9 (sample_intent ''i'' ''k'' ''b1'' ''k!2'')]\<rparr>) \<and>
   (\<exists>q. map_of (GetQuotaStats sample_db) ''b1'' = Some q)"
proof -
  have i: "sqlite_InsertPendingIfFits 9 (sample_intent ''i'' ''k'' ''b1'' ''k!2'') AcceptForWrite sample_db =
     Inr (True, sample_db\<lparr>dbPending := [stored_intent 9 (sample_intent ''i'' ''k'' ''b1'' ''k!2'')]\<rparr>)"
    by (simp add: sqlite_InsertPendingIfFits_def sample_intent_def sample_db_def empty_db_def capacity_flags_def
        available_bytes_def capacity_used_def capacity_orphan_def capacity_parts_def capacity_intents_def sum_where_def)
  with admission_follows_quota_stats [OF i] show ?thesis
    by (auto simp: sample_intent_def)
qed

subsection \<open>The folded figures are counts of the recorded copies\<close>

lemma FoldLedger_field:
  assumes "\<And>st g. fld (LedgerStat_add st g) = fld st + h g" "fld zeroLedgerStat = 0"
  shows "fld (alookup zeroLedgerStat (FoldLedger gs) b) = sum_where (\<lambda>g. lgrBackend g = b) h gs"
proof -
  have "fld (alookup zeroLedgerStat (foldl (\<lambda>out g. AList.update (lgrBackend g)
       (LedgerStat_add (alookup zeroLedgerStat out (lgrBackend g)) g) out) m gs) b) =
     fld (alookup zeroLedgerStat m b) + sum_where (\<lambda>g. lgrBackend g = b) h gs" for m
    using assms(1) by (induction gs arbitrary: m) auto
  from this [of "[]"] show ?thesis
    by (simp add: FoldLedger_def assms(2))
qed

lemma zeroLedgerStat_fields [simp]:
  "lsObjects zeroLedgerStat = 0" "lsUnhashed zeroLedgerStat = 0" "lsPlaintext zeroLedgerStat = 0"
  "lsUnreadable zeroLedgerStat = 0" "lsVerifiable zeroLedgerStat = 0"
  by (simp_all add: zeroLedgerStat_def)

lemma LedgerStat_add_fields:
  "lsObjects (LedgerStat_add st g) = lsObjects st + lgrCopies g"
  "lsUnhashed (LedgerStat_add st g) = lsUnhashed st + (if Has (lgrForm g) StoredHashed then 0 else lgrCopies g)"
  "lsPlaintext (LedgerStat_add st g) = lsPlaintext st + (if Has (lgrForm g) StoredEncrypted then 0 else lgrCopies g)"
  "lsUnreadable (LedgerStat_add st g) = lsUnreadable st + (if Unreadable (lgrForm g) then lgrCopies g else 0)"
  "lsVerifiable (LedgerStat_add st g) =
     lsVerifiable st + (if lgrManaged g \<and> Has (lgrForm g) StoredHashed then lgrCopies g else 0)"
  by (simp_all add: LedgerStat_add_def Let_def)

text \<open>Counting by groups is counting: each row is in one group.\<close>

lemma sum_groups:
  assumes "finite S" "key ` set xs \<subseteq> S"
  shows "(\<Sum>k \<in> S. if Q k then length (filter (\<lambda>x. key x = k) xs) else 0) = length (filter (\<lambda>x. Q (key x)) xs)"
  using assms(2)
proof (induction xs)
  case (Cons x xs)
  have "(if Q k then length (filter (\<lambda>y. key y = k) (x # xs)) else 0) =
      (if k = key x then (if Q k then 1 else 0) else 0) + (if Q k then length (filter (\<lambda>y. key y = k) xs) else 0)" for k
    by auto
  with Cons assms(1) show ?case by (simp add: sum.distrib)
qed (simp add: sum.neutral)

lemma grouped_count:
  "sum_where (\<lambda>g. lgrBackend g = b) (\<lambda>g. if P (lgrForm g) (lgrManaged g) then lgrCopies g else 0)
     (map (ledger_group locs) (remdups (map group_key locs))) =
   int (length (filter (\<lambda>l. locBackendName l = b \<and> P (StoredForm_Form (locForm l)) (\<not> locUnmanaged l)) locs))"
proof -
  let ?Q = "\<lambda>k. fst k = b \<and> P (fst (snd k)) (snd (snd k))"
  have "sum_where (\<lambda>g. lgrBackend g = b) (\<lambda>g. if P (lgrForm g) (lgrManaged g) then lgrCopies g else 0)
      (map (ledger_group locs) ks) = sum_list (map (\<lambda>k. if ?Q k then int (length (filter (\<lambda>l. group_key l = k) locs)) else 0) ks)"
    for ks by (induction ks) (auto simp: ledger_group_def Let_def)
  then have "sum_where (\<lambda>g. lgrBackend g = b) (\<lambda>g. if P (lgrForm g) (lgrManaged g) then lgrCopies g else 0)
      (map (ledger_group locs) (remdups (map group_key locs))) =
      (\<Sum>k \<in> group_key ` set locs. if ?Q k then int (length (filter (\<lambda>l. group_key l = k) locs)) else 0)"
    by (simp add: sum_list_distinct_conv_sum_set)
  also have "\<dots> = int (\<Sum>k \<in> group_key ` set locs. if ?Q k then length (filter (\<lambda>l. group_key l = k) locs) else 0)"
    by (auto intro!: sum.cong)
  also have "\<dots> = int (length (filter (\<lambda>l. ?Q (group_key l)) locs))"
    by (subst sum_groups) simp_all
  finally show ?thesis
    by (simp add: group_key_def sql_form_word)
qed

lemma form_bits [simp]:
  "Has (StoredForm_Form f) StoredHashed \<longleftrightarrow> ContentHash f \<noteq> []"
  "Has (StoredForm_Form f) StoredEncrypted \<longleftrightarrow> Encrypted f"
  "Unreadable (StoredForm_Form f) \<longleftrightarrow> Encrypted f \<and> EncryptionKey f = []"
  by (auto simp: Has_def Unreadable_def StoredForm_Form_def stored_flag_defs)

text \<open>
  C36. The grouped pass and its fold count each recorded copy once: a backend's figures are the
  numbers of its copies, of those with no content hash, unencrypted, encrypted with no key, and
  managed with a hash.
\<close>

theorem ledger_figures_count_copies:
  "let st = alookup zeroLedgerStat (LedgerStats d) b;
       number = (\<lambda>P. int (length (filter (\<lambda>l. locBackendName l = b \<and> P l) (dbLocations d)))) in
   lsObjects st = number (\<lambda>l. True) \<and>
   lsUnhashed st = number (\<lambda>l. ContentHash (locForm l) = []) \<and>
   lsPlaintext st = number (\<lambda>l. \<not> Encrypted (locForm l)) \<and>
   lsUnreadable st = number (\<lambda>l. Encrypted (locForm l) \<and> EncryptionKey (locForm l) = []) \<and>
   lsVerifiable st = number (\<lambda>l. \<not> locUnmanaged l \<and> ContentHash (locForm l) \<noteq> [])"
proof -
  note count = grouped_count [where b = b and locs = "dbLocations d"]
  have flip: "(\<lambda>g. if Q g then 0 else lgrCopies g) = (\<lambda>g. if \<not> Q g then lgrCopies g else 0)" for Q
    by auto
  show ?thesis
    unfolding Let_def LedgerStats_def
    using count [of "\<lambda>_ _. True"] count [of "\<lambda>f _. \<not> Has f StoredHashed"]
      count [of "\<lambda>f _. \<not> Has f StoredEncrypted"] count [of "\<lambda>f _. Unreadable f"]
      count [of "\<lambda>f m. m \<and> Has f StoredHashed"]
    by (simp add: FoldLedger_field [of lsObjects, OF LedgerStat_add_fields(1)]
        FoldLedger_field [of lsUnhashed, OF LedgerStat_add_fields(2)]
        FoldLedger_field [of lsPlaintext, OF LedgerStat_add_fields(3)]
        FoldLedger_field [of lsUnreadable, OF LedgerStat_add_fields(4)]
        FoldLedger_field [of lsVerifiable, OF LedgerStat_add_fields(5)] flip)
qed

end
