(* ===== verification/Utf8Order.thy ===== *)
theory Utf8Order
  imports Utf8 "HOL-Library.Sublist"
begin

text \<open>
  UTF-8 sorts by code point: the byte order of two encoded strings is the order of their runes, and
  one is a prefix of the other exactly when the runes are. Both engines and Go compare keys as
  bytes, while the listing bounds are computed on runes, so the listing rests on this.
\<close>

subsection \<open>Encoded strings as byte lists\<close>

definition utf8 :: "nat list \<Rightarrow> nat list" where
  "utf8 rs = concat (map encode_rune rs)"

lemma utf8_simps [simp]: "utf8 [] = []" "utf8 (r # rs) = encode_rune r @ utf8 rs" "utf8 (xs @ ys) = utf8 xs @ utf8 ys"
  by (simp_all add: utf8_def)

lemma string_of_runes_utf8: "string_of_runes rs = map unbyte (utf8 rs)"
  by (simp add: string_of_runes_def utf8_def)

lemma string_of_runes_append [simp]: "string_of_runes (xs @ ys) = string_of_runes xs @ string_of_runes ys"
  by (simp add: string_of_runes_utf8)

lemma encode_rune_bytes: "b \<in> set (encode_rune r) \<Longrightarrow> b < 256"
proof -
  have "(if valid_rune r then r else RuneError) \<le> 1114111"
    by (simp add: valid_rune_def MaxRune_def RuneError_def)
  then show "b \<in> set (encode_rune r) \<Longrightarrow> b < 256"
    by (auto simp: encode_rune_def Let_def split: if_splits)
qed

lemma utf8_bytes: "b \<in> set (utf8 rs) \<Longrightarrow> b < 256"
  by (induction rs) (auto dest: encode_rune_bytes)

lemma encode_rune_ne [simp]: "encode_rune r \<noteq> []"
  by (simp add: encode_rune_def Let_def)

text \<open>Two encodings differ first at a byte that decides the order.\<close>

definition splits_below :: "nat list \<Rightarrow> nat list \<Rightarrow> bool" where
  "splits_below xs ys \<longleftrightarrow> (\<exists>u a b v w. xs = u @ a # v \<and> ys = u @ b # w \<and> a < b)"

lemma splits_belowI: "\<lbrakk>xs = u @ a # v; ys = u @ b # w; a < b\<rbrakk> \<Longrightarrow> splits_below xs ys"
  by (auto simp: splits_below_def)

lemma encode_rune_valid:
  "valid_rune r \<Longrightarrow> encode_rune r =
    (if r < 128 then [r]
     else if r < 2048 then [192 + r div 64, 128 + r mod 64]
     else if r < 65536 then [224 + r div 4096, 128 + r div 64 mod 64, 128 + r mod 64]
     else [240 + r div 262144, 128 + r div 4096 mod 64, 128 + r div 64 mod 64, 128 + r mod 64])"
  by (simp add: encode_rune_def)

lemma splits_below_prepend: "splits_below xs ys \<Longrightarrow> splits_below (u @ xs) (u @ ys)"
  unfolding splits_below_def by (metis append.assoc)

lemma splits_below_append: "splits_below xs ys \<Longrightarrow> splits_below (xs @ us) (ys @ vs)"
  unfolding splits_below_def by (metis append.assoc append_Cons)

lemma splits_below_head: "a < b \<Longrightarrow> splits_below (a # v) (b # w)"
  by (rule splits_belowI [of _ "[]"]) auto

text \<open>A further base-64 digit keeps the order.\<close>

lemma splits_below_digit:
  fixes r s :: nat
  assumes "\<And>x y :: nat. x < y \<Longrightarrow> splits_below (f x) (f y)" "r < s"
  shows "splits_below (f (r div 64) @ [q + r mod 64]) (f (s div 64) @ [q + s mod 64])"
proof (cases "r div 64 = s div 64")
  case True
  then have "r mod 64 < s mod 64"
    using assms(2) by (metis div_mult_mod_eq nat_add_left_cancel_less)
  with True show ?thesis by (simp add: splits_below_prepend splits_below_head)
next
  case False
  then have "r div 64 < s div 64"
    using assms(2) by (metis div_le_mono le_neq_implies_less nat_less_le)
  then show ?thesis by (intro splits_below_append assms(1))
qed

lemma splits_below_digits:
  fixes r s :: nat
  assumes "r < s"
  shows "splits_below [p + r div 64, q + r mod 64] [p + s div 64, q + s mod 64]"
    "splits_below [p + r div 64 div 64, q + r div 64 mod 64, q + r mod 64] [p + s div 64 div 64, q + s div 64 mod 64, q + s mod 64]"
    "splits_below [p + r div 64 div 64 div 64, q + r div 64 div 64 mod 64, q + r div 64 mod 64, q + r mod 64]
       [p + s div 64 div 64 div 64, q + s div 64 div 64 mod 64, q + s div 64 mod 64, q + s mod 64]"
proof -
  have 0: "splits_below [p + x] [p + y]" if "x < y" for x y :: nat
    using that by (simp add: splits_below_head)
  have 1: "splits_below [p + x div 64, q + x mod 64] [p + y div 64, q + y mod 64]" if "x < y" for x y :: nat
    using splits_below_digit [of "\<lambda>x. [p + x]", OF 0 that] by simp
  have 2: "splits_below [p + x div 64 div 64, q + x div 64 mod 64, q + x mod 64]
      [p + y div 64 div 64, q + y div 64 mod 64, q + y mod 64]" if "x < y" for x y :: nat
    using splits_below_digit [of "\<lambda>x. [p + x div 64, q + x mod 64]", OF 1 that] by simp
  show "splits_below [p + r div 64, q + r mod 64] [p + s div 64, q + s mod 64]"
    "splits_below [p + r div 64 div 64, q + r div 64 mod 64, q + r mod 64] [p + s div 64 div 64, q + s div 64 mod 64, q + s mod 64]"
    "splits_below [p + r div 64 div 64 div 64, q + r div 64 div 64 mod 64, q + r div 64 mod 64, q + r mod 64]
       [p + s div 64 div 64 div 64, q + s div 64 div 64 mod 64, q + s div 64 mod 64, q + s mod 64]"
    using 1 [OF assms] 2 [OF assms]
      splits_below_digit [of "\<lambda>x. [p + x div 64 div 64, q + x div 64 mod 64, q + x mod 64]", OF 2 assms] by simp_all
qed

lemma encode_rune_splits:
  assumes "valid_rune r" "valid_rune s" "r < s"
  shows "splits_below (encode_rune r) (encode_rune s)"
proof -
  consider "r < 128" "s < 128" | "128 \<le> r" "s < 2048" | "2048 \<le> r" "s < 65536" | "65536 \<le> r"
    | "r < 128" "128 \<le> s" | "128 \<le> r" "r < 2048" "2048 \<le> s" | "2048 \<le> r" "r < 65536" "65536 \<le> s"
    by linarith
  then show ?thesis
  proof cases
    case 1
    with assms show ?thesis by (auto simp: encode_rune_valid intro: splits_below_head)
  next
    case 2
    then show ?thesis
      using splits_below_digits(1) [OF assms(3), of 192 128] assms by (simp add: encode_rune_valid)
  next
    case 3
    then show ?thesis
      using splits_below_digits(2) [OF assms(3), of 224 128] assms by (simp add: encode_rune_valid base64_digits)
  next
    case 4
    then show ?thesis
      using splits_below_digits(3) [OF assms(3), of 240 128] assms by (simp add: encode_rune_valid base64_digits)
  next
    case 5
    with assms show ?thesis by (auto simp: encode_rune_valid intro!: splits_below_head)
  next
    case 6
    then have "192 + r div 64 < 224" by simp
    with 6 assms show ?thesis by (auto simp: encode_rune_valid intro!: splits_below_head)
  next
    case 7
    then have "224 + r div 4096 < 240" by simp
    with 7 assms show ?thesis by (auto simp: encode_rune_valid intro!: splits_below_head)
  qed
qed

subsection \<open>Byte order is rune order\<close>

lemma unbyte_less: "\<lbrakk>a < b; b < 256\<rbrakk> \<Longrightarrow> unbyte a < unbyte b"
  by (simp add: unbyte_def less_char_def)

lemma splits_below_less:
  assumes "splits_below xs ys" "\<forall>b \<in> set ys. b < 256"
  shows "map unbyte xs < map unbyte ys"
proof -
  obtain u a b v w where "xs = u @ a # v" "ys = u @ b # w" "a < b"
    using assms(1) by (auto simp: splits_below_def)
  with assms(2) unbyte_less show ?thesis
    by (induction u arbitrary: xs ys) auto
qed

definition valid_runes :: "nat list \<Rightarrow> bool" where
  "valid_runes rs \<longleftrightarrow> (\<forall>r \<in> set rs. valid_rune r)"

lemma valid_runes_simps [simp]:
  "valid_runes []" "valid_runes (r # rs) \<longleftrightarrow> valid_rune r \<and> valid_runes rs"
  "valid_runes (xs @ ys) \<longleftrightarrow> valid_runes xs \<and> valid_runes ys"
  by (auto simp: valid_runes_def)

lemma utf8_less:
  assumes "valid_runes xs" "valid_runes ys" "xs < ys"
  shows "splits_below (utf8 xs) (utf8 ys) \<or> strict_prefix (utf8 xs) (utf8 ys)"
  using assms
proof (induction xs arbitrary: ys)
  case Nil
  then show ?case by (cases ys) (auto simp: strict_prefix_def)
next
  case (Cons r xs)
  then obtain s zs where ys: "ys = s # zs" by (cases ys) auto
  show ?case
  proof (cases "r = s")
    case True
    with Cons ys have "splits_below (utf8 xs) (utf8 zs) \<or> strict_prefix (utf8 xs) (utf8 zs)" by auto
    with True ys show ?thesis by (auto simp: strict_prefix_def intro: splits_below_prepend)
  next
    case False
    with Cons ys have "r < s" by auto
    with Cons.prems ys have "splits_below (encode_rune r) (encode_rune s)"
      by (intro encode_rune_splits) auto
    with ys show ?thesis by (auto intro: splits_below_append)
  qed
qed

lemma strict_prefix_less: "strict_prefix xs ys \<Longrightarrow> xs < (ys :: 'a :: linorder list)"
proof (induction xs arbitrary: ys)
  case Nil
  then show ?case by (cases ys) auto
next
  case (Cons x xs)
  then show ?case by (cases ys) auto
qed

lemma string_of_runes_less:
  assumes "valid_runes xs" "valid_runes ys"
  shows "string_of_runes xs < string_of_runes ys \<longleftrightarrow> xs < ys"
proof -
  have mono: "string_of_runes xs < string_of_runes ys" if v: "valid_runes xs" "valid_runes ys" "xs < ys" for xs ys
    using utf8_less [OF v]
  proof
    assume "splits_below (utf8 xs) (utf8 ys)"
    then show ?thesis
      unfolding string_of_runes_utf8 using utf8_bytes by (blast intro: splits_below_less)
  next
    assume "strict_prefix (utf8 xs) (utf8 ys)"
    then have "strict_prefix (string_of_runes xs) (string_of_runes ys)"
      unfolding string_of_runes_utf8 by (auto simp: strict_prefix_def prefix_def)
    then show ?thesis by (rule strict_prefix_less)
  qed
  then show ?thesis
    using assms by (metis less_imp_not_less linorder_neqE order_less_irrefl)
qed

lemma string_of_runes_le:
  "\<lbrakk>valid_runes xs; valid_runes ys\<rbrakk> \<Longrightarrow> string_of_runes xs \<le> string_of_runes ys \<longleftrightarrow> xs \<le> ys"
  using string_of_runes_less [of ys xs] by (simp add: linorder_not_less [symmetric])

lemma string_of_runes_inj: "\<lbrakk>valid_runes xs; valid_runes ys\<rbrakk> \<Longrightarrow> string_of_runes xs = string_of_runes ys \<longleftrightarrow> xs = ys"
  using string_of_runes_le [of xs ys] string_of_runes_le [of ys xs] by (simp add: order_eq_iff)

lemma byte_unbyte [simp]: "b < 256 \<Longrightarrow> byte (unbyte b) = b"
  by (simp add: byte_def unbyte_def)

lemma decode_utf8: "valid_runes rs \<Longrightarrow> decode_runes (utf8 rs) = rs"
proof (induction rs)
  case (Cons r rs)
  obtain b bs where b: "encode_rune r = b # bs" by (cases "encode_rune r") auto
  have "decode_rune (b # bs @ utf8 rs) = (r, Suc (length bs))"
    using decode_encode_rune [of r "utf8 rs"] Cons.prems by (simp add: b)
  with Cons show ?case by (simp add: b)
qed simp

lemma map_byte_string_of_runes: "map byte (string_of_runes rs) = utf8 rs"
  unfolding string_of_runes_utf8 map_map by (rule map_idI) (use utf8_bytes in auto)

lemma runes_string_of_runes: "valid_runes rs \<Longrightarrow> runes (string_of_runes rs) = rs"
  by (simp add: runes_def map_byte_string_of_runes decode_utf8)

text \<open>A key that is valid UTF-8.\<close>

definition is_utf8 :: "string \<Rightarrow> bool" where
  "is_utf8 s \<longleftrightarrow> string_of_runes (runes s) = s \<and> valid_runes (runes s)"

lemma is_utf8_string_of_runes: "valid_runes rs \<Longrightarrow> is_utf8 (string_of_runes rs)"
  by (simp add: is_utf8_def runes_string_of_runes)

lemma is_utf8E:
  assumes "is_utf8 s"
  obtains rs where "s = string_of_runes rs" "valid_runes rs"
  using assms by (metis is_utf8_def)

lemma prefix_string_of_runes:
  assumes "valid_runes xs" "valid_runes ys"
  shows "prefix (string_of_runes xs) (string_of_runes ys) \<longleftrightarrow> prefix xs ys"
proof
  assume "prefix xs ys"
  then show "prefix (string_of_runes xs) (string_of_runes ys)"
    by (auto simp: prefix_def)
next
  assume "prefix (string_of_runes xs) (string_of_runes ys)"
  then show "prefix xs ys"
    using assms
  proof (induction xs arbitrary: ys)
    case (Cons r xs)
    have p: "prefix (utf8 (r # xs)) (utf8 ys)"
      using map_mono_prefix [OF Cons.prems(1), of byte] by (simp only: map_byte_string_of_runes)
    then obtain zs where zs: "utf8 ys = encode_rune r @ utf8 xs @ zs" by (auto simp: prefix_def)
    then obtain s ts where ys: "ys = s # ts" by (cases ys) (auto dest: sym)
    have "decode_rune (utf8 ys) = (r, length (encode_rune r))"
      unfolding zs using Cons.prems by (intro decode_encode_rune) simp
    moreover have "decode_rune (utf8 ys) = (s, length (encode_rune s))"
      using decode_encode_rune [of s] Cons.prems ys by simp
    ultimately have "r = s" by simp
    with zs ys Cons show ?case by (auto simp: string_of_runes_utf8 prefix_def)
  qed simp
qed

text \<open>An ASCII string is its own encoding.\<close>

lemma ascii_runes: "list_all (\<lambda>c. byte c < 128) s \<Longrightarrow> runes s = map byte s"
  by (induction s) (auto simp: runes_def)

lemma ascii_is_utf8: "list_all (\<lambda>c. byte c < 128) s \<Longrightarrow> is_utf8 s"
proof -
  assume a: "list_all (\<lambda>c. byte c < 128) s"
  have v: "valid_rune r" if "r < 128" for r
    using that by (simp add: valid_rune_def MaxRune_def is_surrogate_def)
  have "string_of_runes (map byte s) = s"
    using a v by (induction s) (auto simp: string_of_runes_def encode_rune_def unbyte_def byte_def)
  with a v show ?thesis by (auto simp: is_utf8_def ascii_runes valid_runes_def list_all_iff)
qed

end
