(* ===== verification/KeyRange.thy ===== *)
theory KeyRange
  imports Utf8Order
begin

text \<open>
  The key ranges of a listing, from \<open>store/core/types.go\<close>: the lowest key past a cursor
  (\<open>KeysFrom\<close>), the end of a prefix (\<open>PrefixEnd\<close>) and the group a key folds into
  (\<open>commonPrefix\<close>). The lemmas show that a prefix's range holds exactly its keys, that the
  keys of one group are consecutive, and that searching a key for a delimiter byte by byte, as Go
  does, and character by character, as SQLite does, finds the same place.
\<close>

subsection \<open>Cutting strings\<close>

fun strings_Cut :: "'a list \<Rightarrow> 'a list \<Rightarrow> ('a list \<times> 'a list) option" where
  "strings_Cut sep [] = (if sep = [] then Some ([], []) else None)"
| "strings_Cut sep (c # s) =
     (if prefix sep (c # s) then Some ([], drop (length sep) (c # s))
      else map_option (\<lambda>(before, after). (c # before, after)) (strings_Cut sep s))"

definition strings_CutPrefix :: "string \<Rightarrow> string \<Rightarrow> string option" where
  "strings_CutPrefix s pre = (if prefix pre s then Some (drop (length pre) s) else None)"

subsection \<open>Key ranges\<close>

definition keyStep :: string where "keyStep = [CHR 0x01]"

definition afterSurrogates :: nat where "afterSurrogates = 57344"

definition KeysFrom :: "string \<Rightarrow> string \<Rightarrow> string" where
  "KeysFrom pre after = (if after = [] then pre else max pre (after @ keyStep))"

text \<open>The loop of \<open>PrefixEnd\<close> over the runes from the last to the first.\<close>

fun raise_last :: "nat list \<Rightarrow> string" where
  "raise_last [] = string_of_runes [MaxRune]"
| "raise_last (r # earlier) =
     (if r = MaxRune then raise_last earlier
      else let next = (if is_surrogate (r + 1) then afterSurrogates else r + 1) in
           string_of_runes (rev earlier) @ string_of_runes [next])"

definition PrefixEnd :: "string \<Rightarrow> string" where
  "PrefixEnd pre = raise_last (rev (runes pre))"

definition commonPrefix :: "string \<Rightarrow> string \<Rightarrow> string \<Rightarrow> string option" where
  "commonPrefix pre delimiter key =
    (case strings_CutPrefix key pre of
       None \<Rightarrow> None
     | Some rest \<Rightarrow>
         if delimiter = [] then None
         else case strings_Cut delimiter rest of
           None \<Rightarrow> None
         | Some (child, _) \<Rightarrow> Some (take (length pre + length child + length delimiter) key))"

subsection \<open>Cuts and groups\<close>

lemma strings_Cut_Some: "strings_Cut sep s = Some (a, b) \<Longrightarrow> s = a @ sep @ b"
proof (induction sep s arbitrary: a rule: strings_Cut.induct)
  case (2 sep c s)
  then show ?case
    by (auto split: if_splits simp: prefix_def)
qed (auto split: if_splits)

lemma strings_Cut_front [simp]: "strings_Cut sep (sep @ v) = Some ([], v)"
proof (cases "sep @ v")
  case (Cons c s)
  then have "prefix sep (c # s)" "drop (length sep) (c # s) = v"
    by (metis prefixI, metis append_eq_conv_conj)
  with Cons show ?thesis by (simp del: drop_Cons')
qed simp

lemma strings_Cut_occurs:
  "\<exists>a b. strings_Cut sep (u @ sep @ v) = Some (a, b) \<and> length a \<le> length u"
proof (induction u)
  case (Cons c u)
  then show ?case by auto
qed simp

lemma prefix_append_long: "length sep \<le> length y \<Longrightarrow> prefix sep (y @ b) \<longleftrightarrow> prefix sep y"
  by (auto simp: prefix_def append_eq_append_conv2)

lemma strings_Cut_stable:
  "strings_Cut sep (a @ sep @ b) = Some (a, b) \<Longrightarrow> strings_Cut sep (a @ sep @ c) = Some (a, c)"
proof (induction a)
  case (Cons x a)
  have "prefix sep (x # a @ sep @ c) \<longleftrightarrow> prefix sep (x # a @ sep)" for c
    using prefix_append_long [of sep "x # a @ sep" c] by simp
  with Cons show ?case by (auto split: if_splits)
qed simp

lemma commonPrefix_Some:
  "commonPrefix pre delim k = Some g \<longleftrightarrow>
     delim \<noteq> [] \<and> (\<exists>a b. k = pre @ a @ delim @ b \<and> strings_Cut delim (a @ delim @ b) = Some (a, b) \<and> g = pre @ a @ delim)"
  (is "?l = ?r")
proof
  assume ?l
  then obtain rest a b where "k = pre @ rest" "delim \<noteq> []" "strings_Cut delim rest = Some (a, b)"
    "g = take (length pre + length a + length delim) k"
    by (auto simp: commonPrefix_def strings_CutPrefix_def prefix_def split: option.splits if_splits)
  moreover from this have "rest = a @ delim @ b" by (intro strings_Cut_Some)
  ultimately show ?r by auto
next
  assume ?r
  then show ?l by (auto simp: commonPrefix_def strings_CutPrefix_def)
qed

lemma commonPrefix_stable:
  assumes "commonPrefix pre delim k = Some g" "prefix g k'"
  shows "commonPrefix pre delim k' = Some g"
  using assms by (auto simp: commonPrefix_Some prefix_def intro: strings_Cut_stable)

lemma commonPrefix_prefix: "commonPrefix pre delim k = Some g \<Longrightarrow> prefix g k \<and> prefix pre g"
  by (auto simp: commonPrefix_Some)

definition entry :: "string \<Rightarrow> string \<Rightarrow> string \<Rightarrow> string \<times> bool" where
  "entry pre delim k = (case commonPrefix pre delim k of None \<Rightarrow> (k, False) | Some g \<Rightarrow> (g, True))"

lemma entry_group: "entry pre delim k = (g, True) \<longleftrightarrow> commonPrefix pre delim k = Some g"
  by (auto simp: entry_def split: option.splits)

lemma entry_leaf: "entry pre delim k = (l, False) \<longleftrightarrow> commonPrefix pre delim k = None \<and> l = k"
  by (auto simp: entry_def split: option.splits)

lemma entry_same_group:
  "commonPrefix pre delim k = Some g \<Longrightarrow> entry pre delim k' = entry pre delim k \<longleftrightarrow> prefix g k'"
  using commonPrefix_stable [of pre delim k g k'] commonPrefix_prefix [of pre delim k' g]
  by (auto simp: entry_def split: option.splits)

subsection \<open>Order of keys\<close>

lemma append_le_append: "u @ x \<le> u @ y \<longleftrightarrow> x \<le> (y :: 'a :: linorder list)"
  by (induction u) auto

lemma append_less_append: "u @ x < u @ y \<longleftrightarrow> x < (y :: 'a :: linorder list)"
  by (induction u) auto

lemma prefix_le: "prefix g k \<Longrightarrow> g \<le> (k :: 'a :: linorder list)"
  using append_le_append [of g "[]"] by (auto simp: prefix_def)

lemma prefix_convex:
  fixes k :: "'a :: linorder list"
  assumes "prefix g k'" "g \<le> k" "k \<le> k'"
  shows "prefix g k"
  using assms
proof (induction g arbitrary: k k')
  case (Cons c g)
  then obtain z where "k' = c # z" "prefix g z" by (cases k') auto
  with Cons show ?case by (cases k) auto
qed simp

definition nul_free :: "string \<Rightarrow> bool" where
  "nul_free k \<longleftrightarrow> CHR 0x00 \<notin> set k"

lemma keyStep_least: "CHR 0x00 \<noteq> c \<Longrightarrow> CHR 0x01 \<le> c"
  by (cases c) (auto simp: less_eq_char_def of_char_def)

lemma above_step:
  "nul_free k \<Longrightarrow> after @ keyStep \<le> k \<longleftrightarrow> after < k"
proof (induction after arbitrary: k)
  case Nil
  then show ?case by (cases k) (auto simp: keyStep_def nul_free_def less_le keyStep_least)
next
  case (Cons c after)
  then show ?case by (cases k) (auto simp: nul_free_def)
qed

lemma entry_mono:
  assumes "k \<le> k'" "prefix pre k" "prefix pre k'"
  shows "fst (entry pre delim k) \<le> fst (entry pre delim k')"
proof -
  have le: "fst (entry pre delim k) \<le> k" for k
    by (auto simp: entry_def prefix_le dest: commonPrefix_prefix split: option.splits)
  show ?thesis
  proof (cases "commonPrefix pre delim k'")
    case None
    with le [of k] assms(1) show ?thesis by (auto simp: entry_def)
  next
    case (Some g)
    show ?thesis
    proof (cases "g \<le> k")
      case True
      then have "prefix g k"
        using Some assms(1) prefix_convex commonPrefix_prefix by blast
      with Some show ?thesis by (simp flip: entry_same_group [OF Some])
    next
      case False
      with Some le [of k] show ?thesis by (simp add: entry_def)
    qed
  qed
qed

subsection \<open>The end of a prefix\<close>

definition next_rune :: "nat \<Rightarrow> nat" where
  "next_rune r = (if is_surrogate (r + 1) then afterSurrogates else r + 1)"

lemma less_next_rune: "\<lbrakk>valid_rune y; valid_rune r\<rbrakk> \<Longrightarrow> y < next_rune r \<longleftrightarrow> y \<le> r"
  by (auto simp: next_rune_def valid_rune_def is_surrogate_def afterSurrogates_def)

lemma valid_next_rune: "\<lbrakk>valid_rune r; r \<noteq> MaxRune\<rbrakk> \<Longrightarrow> valid_rune (next_rune r)"
  by (auto simp: next_rune_def valid_rune_def is_surrogate_def afterSurrogates_def MaxRune_def)

lemma raise_runes:
  assumes "valid_runes ys" "valid_rune r" "xs @ [r] \<le> ys"
  shows "ys < xs @ [next_rune r] \<longleftrightarrow> prefix (xs @ [r]) ys"
  using assms
proof (induction xs arbitrary: ys)
  case Nil
  then obtain y zs where "ys = y # zs" by (cases ys) auto
  with Nil show ?case by (auto simp: less_next_rune)
next
  case (Cons x xs)
  then show ?case by (cases ys) auto
qed

text \<open>A key the range ends above: some character of the prefix can rise, or there is no prefix and the key does not start with U+10FFFF.\<close>

definition below_top :: "nat list \<Rightarrow> nat list \<Rightarrow> bool" where
  "below_top pre k = (if pre = [] then take 1 k \<noteq> [MaxRune] else \<exists>r \<in> set pre. r \<noteq> MaxRune)"

lemma raise_last_bound:
  assumes "valid_runes ys" "valid_runes rs" "rev rs \<le> ys" "below_top rs ys"
  shows "string_of_runes ys < raise_last rs \<longleftrightarrow> prefix (rev rs) ys"
  using assms
proof (induction rs)
  case Nil
  have "valid_runes [MaxRune]" by (simp add: valid_rune_def is_surrogate_def MaxRune_def)
  with Nil have "string_of_runes ys < raise_last [] \<longleftrightarrow> ys < [MaxRune]"
    by (simp only: raise_last.simps string_of_runes_less)
  with Nil show ?case by (cases ys) (auto simp: below_top_def valid_rune_def)
next
  case (Cons r rs)
  show ?case
  proof (cases "r = MaxRune")
    case True
    with Cons.prems have "below_top rs ys" by (auto simp: below_top_def split: if_splits)
    moreover have "rev rs \<le> ys"
      using Cons.prems(3) prefix_le [of "rev rs" "rev rs @ [r]"] by auto
    ultimately have "string_of_runes ys < raise_last (r # rs) \<longleftrightarrow> prefix (rev rs) ys"
      using Cons True by simp
    moreover have "prefix (rev rs @ [MaxRune]) ys" if p: "prefix (rev rs) ys"
    proof -
      from p obtain z where z: "ys = rev rs @ z" by (auto simp: prefix_def)
      with Cons.prems True have "[MaxRune] \<le> z" "valid_runes z" by (simp_all add: append_le_append)
      with z show ?thesis by (cases z) (auto simp: valid_rune_def)
    qed
    ultimately show ?thesis using True by (auto dest: append_prefixD)
  next
    case False
    have "raise_last (r # rs) = string_of_runes (rev rs @ [next_rune r])"
      using False by (simp add: next_rune_def Let_def)
    moreover have "valid_runes (rev rs @ [next_rune r])"
      using Cons.prems False by (auto simp: valid_next_rune valid_runes_def)
    ultimately have "string_of_runes ys < raise_last (r # rs) \<longleftrightarrow> ys < rev rs @ [next_rune r]"
      using Cons.prems by (simp only: string_of_runes_less)
    with Cons.prems raise_runes [of ys r "rev rs"] show ?thesis by simp
  qed
qed

lemma PrefixEnd_above:
  assumes "is_utf8 pre" "is_utf8 k" "below_top (runes pre) (runes k)" "pre \<le> k"
  shows "k < PrefixEnd pre \<longleftrightarrow> prefix pre k"
proof -
  obtain ps ys where u: "pre = string_of_runes ps" "valid_runes ps" "k = string_of_runes ys" "valid_runes ys"
    using assms is_utf8E by metis
  have "below_top (rev ps) ys"
    using assms(3) u by (auto simp: below_top_def runes_string_of_runes split: if_splits)
  with u assms(4) raise_last_bound [of ys "rev ps"] show ?thesis
    by (simp add: PrefixEnd_def runes_string_of_runes prefix_string_of_runes string_of_runes_le valid_runes_def)
qed

lemma PrefixEnd_range:
  assumes "is_utf8 pre" "is_utf8 k" "below_top (runes pre) (runes k)"
  shows "pre \<le> k \<and> k < PrefixEnd pre \<longleftrightarrow> prefix pre k"
  using PrefixEnd_above [OF assms] prefix_le [of pre k] by auto

subsection \<open>Searching bytes and searching characters\<close>

lemma is_cont_digit: "is_cont (128 + x mod 64)"
proof -
  have "x mod 64 < 64" by simp
  then have "x mod 64 \<le> 63" by linarith
  then show ?thesis by (simp add: is_cont_def)
qed

lemma encode_rune_lead:
  "\<exists>b bs. encode_rune r = b # bs \<and> \<not> is_cont b \<and> (\<forall>c \<in> set bs. is_cont c)"
proof -
  define s where "s = (if valid_rune r then r else RuneError)"
  have e: "encode_rune r =
    (if s < 128 then [s]
     else if s < 2048 then [192 + s div 64, 128 + s mod 64]
     else if s < 65536 then [224 + s div 4096, 128 + s div 64 mod 64, 128 + s mod 64]
     else [240 + s div 262144, 128 + s div 4096 mod 64, 128 + s div 64 mod 64, 128 + s mod 64])"
    by (simp only: encode_rune_def s_def Let_def)
  have "\<not> is_cont s" if "s < 128"
    using that by (simp add: is_cont_def)
  moreover have "\<not> is_cont (192 + x)" "\<not> is_cont (224 + x)" "\<not> is_cont (240 + x)" for x
    by (simp_all add: is_cont_def)
  ultimately show ?thesis
    unfolding e by (simp only: list.inject is_cont_digit split: if_split) (simp add: is_cont_digit)
qed

text \<open>UTF-8 synchronises: a byte that starts a character stands at a character boundary.\<close>

lemma utf8_sync:
  assumes "utf8 xs = u @ b # w" "\<not> is_cont b"
  shows "\<exists>us vs. xs = us @ vs \<and> u = utf8 us"
  using assms
proof (induction xs arbitrary: u)
  case (Cons r xs)
  obtain l bs where l: "encode_rune r = l # bs" "\<forall>c \<in> set bs. is_cont c"
    using encode_rune_lead by blast
  from Cons.prems(1) have "encode_rune r @ utf8 xs = u @ b # w" by simp
  then consider z where "encode_rune r = u @ z" "z @ utf8 xs = b # w" | z where "u = encode_rune r @ z" "utf8 xs = z @ b # w"
    by (auto simp: append_eq_append_conv2)
  then show ?case
  proof cases
    case (1 z)
    show ?thesis
    proof (cases "u = [] \<or> z = []")
      case True
      then have "(u = utf8 [] \<and> r # xs = [] @ r # xs) \<or> (u = utf8 [r] \<and> r # xs = [r] @ xs)"
        using 1 by auto
      then show ?thesis by blast
    next
      case False
      with 1 l have "b \<in> set bs" by (cases u; cases z) auto
      with l Cons.prems(2) show ?thesis by blast
    qed
  next
    case (2 z)
    with Cons.IH [of z] Cons.prems(2) obtain us vs where "xs = us @ vs" "z = utf8 us" by blast
    with 2 have "r # xs = (r # us) @ vs \<and> u = utf8 (r # us)" by simp
    then show ?thesis by blast
  qed
qed simp

lemma map_unbyte_byte [simp]: "map unbyte (map byte s) = s"
  by (simp add: byte_def unbyte_def comp_def)

lemma string_sync:
  assumes "valid_runes xs" "valid_runes ds" "ds \<noteq> []" "string_of_runes xs = u @ string_of_runes ds @ v"
  obtains us vs where "xs = us @ ds @ vs" "u = string_of_runes us"
proof -
  obtain d ds' where ds: "ds = d # ds'" using assms(3) by (cases ds) auto
  obtain b bs where b: "encode_rune d = b # bs" "\<not> is_cont b" using encode_rune_lead by blast
  have "utf8 xs = map byte u @ b # (bs @ utf8 ds') @ map byte v"
    using arg_cong [OF assms(4), of "map byte"] b by (simp add: map_byte_string_of_runes ds)
  from utf8_sync [OF this b(2)] obtain us ws where us: "xs = us @ ws" "map byte u = utf8 us" by blast
  then have u: "u = string_of_runes us"
    using map_unbyte_byte [of u] by (simp add: string_of_runes_utf8)
  with assms(4) us have "string_of_runes ws = string_of_runes ds @ v" by simp
  then have "prefix ds ws"
    using assms us by (subst prefix_string_of_runes [symmetric]) auto
  with us u that show ?thesis by (auto simp: prefix_def)
qed

lemma length_string_of_runes_less: "zs \<noteq> [] \<Longrightarrow> length (string_of_runes us) < length (string_of_runes (us @ zs))"
  by (cases zs) (auto simp: string_of_runes_def)

lemma strings_Cut_string:
  assumes "valid_runes xs" "valid_runes ds" "ds \<noteq> []"
  shows "strings_Cut (string_of_runes ds) (string_of_runes xs) =
    map_option (\<lambda>(a, b). (string_of_runes a, string_of_runes b)) (strings_Cut ds xs)"
proof (cases "strings_Cut (string_of_runes ds) (string_of_runes xs)")
  case None
  have "strings_Cut ds xs = None"
  proof (rule ccontr)
    assume "strings_Cut ds xs \<noteq> None"
    then obtain a b where "xs = a @ ds @ b" using strings_Cut_Some by fastforce
    then show False
      using None strings_Cut_occurs [of "string_of_runes ds" "string_of_runes a" "string_of_runes b"] by auto
  qed
  with None show ?thesis by simp
next
  case (Some c)
  obtain a b where c: "c = (a, b)" by (cases c)
  with Some have "string_of_runes xs = a @ string_of_runes ds @ b" using strings_Cut_Some by blast
  from string_sync [OF assms this] obtain us vs where us: "xs = us @ ds @ vs" "a = string_of_runes us" .
  then obtain p q where p: "strings_Cut ds xs = Some (p, q)" "length p \<le> length us"
    using strings_Cut_occurs by blast
  then have x: "xs = p @ ds @ q" using strings_Cut_Some by blast
  with us p obtain zs where zs: "us = p @ zs" by (auto simp: append_eq_append_conv2)
  have "length a \<le> length (string_of_runes p)"
    using Some c x strings_Cut_occurs [of "string_of_runes ds" "string_of_runes p" "string_of_runes q"] by auto
  with us zs have "zs = []" using length_string_of_runes_less [of zs p] by fastforce
  with us zs x have "us = p" "vs = q" by auto
  with Some c us p \<open>string_of_runes xs = a @ string_of_runes ds @ b\<close> show ?thesis by simp
qed

text \<open>C15. The range a prefix listing scans, from the prefix up to \<open>PrefixEnd\<close>, holds exactly the
  keys that start with the prefix. The prefix and the key are well-formed UTF-8 and the prefix has a
  character below U+10FFFF; the unprefixed range holds every key that does not start with that character.\<close>

theorem PrefixEnd_bounds_prefix:
  assumes "is_utf8 pre" "is_utf8 k"
    and "if pre = [] then take 1 (runes k) \<noteq> [MaxRune] else \<exists>r \<in> set (runes pre). r \<noteq> MaxRune"
  shows "(KeysFrom pre [] \<le> k \<and> k < PrefixEnd pre) = prefix pre k"
proof -
  have "runes pre = [] \<longleftrightarrow> pre = []"
    using assms(1) by (metis is_utf8_def string_of_runes_def runes_def decode_runes.simps(1) list.simps(8) concat.simps(1))
  with assms(3) have "below_top (runes pre) (runes k)" by (simp add: below_top_def)
  with PrefixEnd_range [OF assms(1,2)] show ?thesis by (simp add: KeysFrom_def)
qed

theorem PrefixEnd_bounds_prefix_witness:
  "(KeysFrom ''a/'' [] \<le> ''a/b'' \<and> ''a/b'' < PrefixEnd ''a/'') \<and> \<not> (KeysFrom ''a/'' [] \<le> ''ab'' \<and> ''ab'' < PrefixEnd ''a/'')"
proof -
  have u: "is_utf8 ''a/''" "is_utf8 ''a/b''" "is_utf8 ''ab''" by (simp_all add: ascii_is_utf8 byte_def of_char_def)
  have r: "runes ''a/'' = [97, 47]" by (simp add: ascii_runes byte_def of_char_def)
  show ?thesis
    using PrefixEnd_bounds_prefix [OF u(1,2)] PrefixEnd_bounds_prefix [OF u(1,3)] by (simp add: r MaxRune_def)
qed

end
