(* ===== verification/Listing.thy ===== *)
theory Listing
  imports KeyRange Samples
begin

text \<open>
  The object listing: the page of \<open>store/core/types.go\<close> (\<open>buildPage\<close>,
  \<open>ListPage\<close>) over the two readers of \<open>store/sqlite/objects.go\<close>, the flat one and
  the recursive walk that seeks past each group. The lemmas show that a page is the next stretch
  of the ordered entries (keys and group names) under the prefix, and that following the
  continuation tokens yields all of them.
\<close>

subsection \<open>Pages\<close>

record ListObjectsResult =
  lrObjects :: "ObjectLocation list"
  lrCommonPrefixes :: "string list"
  lrIsTruncated :: bool
  lrNextContinuationToken :: string

definition emptyPage :: ListObjectsResult where
  "emptyPage = \<lparr>lrObjects = [], lrCommonPrefixes = [], lrIsTruncated = False, lrNextContinuationToken = []\<rparr>"

definition KeyCount :: "ListObjectsResult \<Rightarrow> int" where
  "KeyCount r = int (length (lrObjects r)) + int (length (lrCommonPrefixes r))"

definition TrimPage :: "'a list \<Rightarrow> int \<Rightarrow> 'a list \<times> bool" where
  "TrimPage rows limit = (if int (length rows) > limit then (take (nat limit) rows, True) else (rows, False))"

text \<open>The loop of \<open>buildPage\<close>, carrying the page so far and \<open>last\<close>.\<close>

fun fold_rows :: "string \<Rightarrow> string \<Rightarrow> ObjectLocation list \<Rightarrow> ListObjectsResult \<times> string \<Rightarrow> ListObjectsResult \<times> string" where
  "fold_rows pre delimiter [] acc = acc"
| "fold_rows pre delimiter (row # rows) (result, _) =
    (let last = locObjectKey row in
     case commonPrefix pre delimiter last of
       Some grp \<Rightarrow>
         fold_rows pre delimiter rows (result\<lparr>lrCommonPrefixes := lrCommonPrefixes result @ [grp]\<rparr>, grp)
     | None \<Rightarrow> fold_rows pre delimiter rows (result\<lparr>lrObjects := lrObjects result @ [row]\<rparr>, last))"

definition buildPage :: "ObjectLocation list \<Rightarrow> string \<Rightarrow> string \<Rightarrow> int \<Rightarrow> ListObjectsResult" where
  "buildPage rows pre delimiter maxKeys =
    (let (rows, truncated) = TrimPage rows maxKeys;
         (result, last) = fold_rows pre delimiter rows (emptyPage\<lparr>lrIsTruncated := truncated\<rparr>, [])
     in if truncated then result\<lparr>lrNextContinuationToken := last\<rparr> else result)"

definition ListPage ::
  "string \<Rightarrow> string \<Rightarrow> string \<Rightarrow> int \<Rightarrow>
   (string \<Rightarrow> string \<Rightarrow> int \<Rightarrow> error + ObjectLocation list) \<Rightarrow>
   (string \<Rightarrow> string \<Rightarrow> string \<Rightarrow> string \<Rightarrow> int \<Rightarrow> error + ObjectLocation list) \<Rightarrow>
   error + ListObjectsResult" where
  "ListPage pre delimiter startAfter maxKeys flat delimited =
    (if maxKeys \<le> 0 then Inr emptyPage
     else
       let end = PrefixEnd pre;
           from = (case commonPrefix pre delimiter startAfter of
                     Some grp \<Rightarrow> if grp = startAfter then PrefixEnd grp else KeysFrom pre startAfter
                   | None \<Rightarrow> KeysFrom pre startAfter)
       in case (if delimiter = [] then flat from end (maxKeys + 1)
                else delimited pre delimiter from end (maxKeys + 1)) of
            Inl e \<Rightarrow> Inl e
          | Inr rows \<Rightarrow> Inr (buildPage rows pre delimiter maxKeys))"

subsection \<open>The SQLite readers\<close>

text \<open>
  A row of the listing projection; \<open>etag\<close> is the column, the client size is the generated
  column \<open>object_size\<close>. The rows of \<open>object_locations\<close> stand in rowid order, so the
  lowest rowid of a key is its first row.
\<close>

definition emptyLocation :: ObjectLocation where
  "emptyLocation = \<lparr>locForm = zeroForm, locObjectKey = [], locBackendName = [], locStorageKey = [], locSizeBytes = 0,
     locCreatedAt = 0, locProbeSize = 0, locProbeLevel = [], locLastScrubbedAt = None, locUnmanaged = False,
     locIdentity = None, locTagCount = 0\<rparr>"

definition scanSlim :: "ObjectLocation \<Rightarrow> ObjectLocation" where
  "scanSlim l = emptyLocation\<lparr>locObjectKey := locObjectKey l, locBackendName := locBackendName l,
     locStorageKey := locStorageKey l, locSizeBytes := locSizeBytes l, locCreatedAt := locCreatedAt l\<rparr>"

definition scanListed :: "ObjectLocation \<Rightarrow> ObjectLocation" where
  "scanListed l = (scanSlim l)\<lparr>locSizeBytes := sql_object_size (locForm l) (locSizeBytes l),
     locIdentity := ListedIdentity (fst (IdentityColumns (locIdentity l)))\<rparr>"

definition rows_in_range :: "db \<Rightarrow> string \<Rightarrow> string \<Rightarrow> ObjectLocation list" where
  "rows_in_range d lo hi =
     filter (\<lambda>l. lo \<le> locObjectKey l \<and> locObjectKey l < hi \<and> \<not> locUnmanaged l) (dbLocations d)"

definition keys_in_range :: "db \<Rightarrow> string \<Rightarrow> string \<Rightarrow> string list" where
  "keys_in_range d lo hi = sort (remdups (map locObjectKey (rows_in_range d lo hi)))"

definition first_row :: "db \<Rightarrow> string \<Rightarrow> ObjectLocation option" where
  "first_row d k = find (\<lambda>l. locObjectKey l = k \<and> \<not> locUnmanaged l) (dbLocations d)"

definition listFlat :: "db \<Rightarrow> string \<Rightarrow> string \<Rightarrow> int \<Rightarrow> error + ObjectLocation list" where
  "listFlat d from end limit =
     Inr (map scanListed (List.map_filter (first_row d) (take (nat limit) (keys_in_range d from end))))"

text \<open>
  SQLite's text functions count characters, which are the runes of a well-formed key; positions
  start at 1 and \<open>instr\<close> is 0 where there is no match. \<open>char\<close> encodes any code point, a
  surrogate included, and replaces one past the last by U+FFFD.
\<close>

definition sql_length :: "string \<Rightarrow> nat" where
  "sql_length s = length (runes s)"

definition sql_substr :: "string \<Rightarrow> nat \<Rightarrow> nat \<Rightarrow> string" where
  "sql_substr s start n = string_of_runes (take n (drop (start - 1) (runes s)))"

definition sql_substr_from :: "string \<Rightarrow> nat \<Rightarrow> string" where
  "sql_substr_from s start = string_of_runes (drop (start - 1) (runes s))"

definition sql_instr :: "string \<Rightarrow> string \<Rightarrow> nat" where
  "sql_instr s t = (case strings_Cut (runes t) (runes s) of None \<Rightarrow> 0 | Some (before, _) \<Rightarrow> length before + 1)"

definition sql_unicode :: "string \<Rightarrow> nat" where
  "sql_unicode s = hd (runes s)"

definition sql_char :: "nat \<Rightarrow> string" where
  "sql_char c =
    (if is_surrogate c then map unbyte [224 + c div 4096, 128 + c div 64 mod 64, 128 + c mod 64]
     else string_of_runes [c])"

definition delimiter_at :: "string \<Rightarrow> string \<Rightarrow> string \<Rightarrow> nat" where
  "delimiter_at pre delim k = sql_instr (sql_substr_from k (sql_length pre + 1)) delim"

definition walk_bound :: "string \<Rightarrow> string \<Rightarrow> string \<Rightarrow> string" where
  "walk_bound pre delim k =
    (let i = delimiter_at pre delim k; n = sql_length pre + i + sql_length delim in
     if i > 0 then sql_substr k 1 (n - 2) @ sql_char (sql_unicode (sql_substr k (n - 1) 1) + 1)
     else k @ sql_char 1)"

text \<open>The recursive query: the lowest key of the range, then the lowest past each one found, \<open>n\<close> more times.\<close>

definition lowest_key :: "db \<Rightarrow> string \<Rightarrow> string \<Rightarrow> string option" where
  "lowest_key d lo hi = (case keys_in_range d lo hi of [] \<Rightarrow> None | k # _ \<Rightarrow> Some k)"

primrec walk :: "nat \<Rightarrow> db \<Rightarrow> string \<Rightarrow> string \<Rightarrow> string \<Rightarrow> string \<Rightarrow> string list" where
  "walk 0 d pre delim lo hi = (case lowest_key d lo hi of None \<Rightarrow> [] | Some k \<Rightarrow> [k])"
| "walk (Suc n) d pre delim lo hi =
    (case lowest_key d lo hi of None \<Rightarrow> [] | Some k \<Rightarrow> k # walk n d pre delim (walk_bound pre delim k) hi)"

definition unixEpoch :: time where "unixEpoch = 62135596800000000000"

definition walk_row :: "db \<Rightarrow> string \<Rightarrow> string \<Rightarrow> string \<Rightarrow> ObjectLocation" where
  "walk_row d pre delim k =
    (case (if delimiter_at pre delim k = 0 then first_row d k else None) of
       Some l \<Rightarrow> (scanListed l)\<lparr>locObjectKey := k\<rparr>
     | None \<Rightarrow> emptyLocation\<lparr>locObjectKey := k, locCreatedAt := unixEpoch\<rparr>)"

definition listDelimited ::
  "db \<Rightarrow> string \<Rightarrow> string \<Rightarrow> string \<Rightarrow> string \<Rightarrow> int \<Rightarrow> error + ObjectLocation list" where
  "listDelimited d pre delimiter from end limit =
     Inr (map (walk_row d pre delimiter) (sort (walk (nat limit - 1) d pre delimiter from end)))"

definition ListObjects :: "db \<Rightarrow> string \<Rightarrow> string \<Rightarrow> string \<Rightarrow> int \<Rightarrow> error + ListObjectsResult" where
  "ListObjects d pre delimiter startAfter maxKeys =
     ListPage pre delimiter startAfter maxKeys (listFlat d) (listDelimited d)"

definition CountObjectsByPrefix :: "db \<Rightarrow> string \<Rightarrow> int" where
  "CountObjectsByPrefix d pre =
     int (length (remdups (filter (\<lambda>k. pre \<le> k \<and> k < PrefixEnd pre) (map locObjectKey (dbLocations d)))))"

subsection \<open>Where the walk seeks next\<close>

definition raisable :: "string \<Rightarrow> bool" where
  "raisable delim \<longleftrightarrow> is_utf8 delim \<and> (delim = [] \<or> valid_rune (Suc (last (runes delim))))"

lemma PrefixEnd_raised:
  assumes "valid_runes (xs @ [r])" "valid_rune (Suc r)"
  shows "PrefixEnd (string_of_runes (xs @ [r])) = string_of_runes (xs @ [Suc r])"
proof -
  have "r \<noteq> MaxRune" "\<not> is_surrogate (Suc r)"
    using assms(2) by (auto simp: valid_rune_def)
  with runes_string_of_runes [OF assms(1)] show ?thesis
    by (simp add: PrefixEnd_def del: string_of_runes_append) (simp add: Let_def)
qed

text \<open>A key under the prefix, its prefix and a non-empty delimiter, split into runes.\<close>

lemma under_prefix_runes:
  assumes "is_utf8 pre" "raisable delim" "delim \<noteq> []" "is_utf8 k" "prefix pre k"
  obtains ps rs ds r where "pre = string_of_runes ps" "k = string_of_runes (ps @ rs)" "delim = string_of_runes (ds @ [r])"
    "valid_runes (ps @ rs)" "valid_runes (ds @ [r])" "valid_rune (Suc r)"
proof -
  obtain ps ks where ps: "pre = string_of_runes ps" "valid_runes ps" "k = string_of_runes ks" "valid_runes ks"
    using assms is_utf8E by metis
  with assms(5) have "prefix ps ks" by (simp add: prefix_string_of_runes)
  then obtain rs where rs: "ks = ps @ rs" by (auto simp: prefix_def)
  obtain es where es: "delim = string_of_runes es" "valid_runes es" "runes delim = es"
    using assms(2) is_utf8E by (metis raisable_def runes_string_of_runes)
  with assms(3) have "es \<noteq> []" by (auto simp: string_of_runes_def)
  then obtain ds r where "es = ds @ [r]" by (metis append_butlast_last_id)
  with es ps rs assms(2,3) show ?thesis by (intro that [of ps rs ds r]) (auto simp: raisable_def)
qed

lemma commonPrefix_runes:
  assumes "valid_runes (ps @ rs)" "valid_runes ds" "ds \<noteq> []"
  shows "commonPrefix (string_of_runes ps) (string_of_runes ds) (string_of_runes (ps @ rs)) =
    map_option (\<lambda>(a, b). string_of_runes (ps @ a @ ds)) (strings_Cut ds rs)"
proof -
  have ne: "string_of_runes ds \<noteq> []"
    using assms(3) by (cases ds) (auto simp: string_of_runes_def)
  have c: "strings_Cut (string_of_runes ds) (string_of_runes rs) =
      map_option (\<lambda>(a, b). (string_of_runes a, string_of_runes b)) (strings_Cut ds rs)"
    using assms by (intro strings_Cut_string) auto
  show ?thesis
  proof (cases "strings_Cut ds rs")
    case None
    with c ne show ?thesis by (simp add: commonPrefix_def strings_CutPrefix_def)
  next
    case (Some ab)
    obtain a b where ab: "ab = (a, b)" by (cases ab)
    then have "rs = a @ ds @ b" using Some strings_Cut_Some by blast
    with ab Some c ne show ?thesis by (simp add: commonPrefix_def strings_CutPrefix_def)
  qed
qed

lemma delimiter_at_runes:
  assumes "valid_runes (ps @ rs)" "valid_runes ds"
  shows "delimiter_at (string_of_runes ps) (string_of_runes ds) (string_of_runes (ps @ rs)) =
    (case strings_Cut ds rs of None \<Rightarrow> 0 | Some (a, b) \<Rightarrow> length a + 1)"
  using assms runes_string_of_runes [of "ps @ rs"]
  by (simp add: delimiter_at_def sql_instr_def sql_substr_from_def sql_length_def runes_string_of_runes
      del: string_of_runes_append)

lemma walk_bound_eq:
  assumes "is_utf8 pre" "raisable delim" "delim \<noteq> []" "is_utf8 k" "prefix pre k"
  shows "walk_bound pre delim k = (case commonPrefix pre delim k of None \<Rightarrow> k @ keyStep | Some g \<Rightarrow> PrefixEnd g)"
    and "delimiter_at pre delim k = 0 \<longleftrightarrow> commonPrefix pre delim k = None"
proof -
  obtain ps rs ds r where k: "pre = string_of_runes ps" "k = string_of_runes (ps @ rs)" "delim = string_of_runes (ds @ [r])"
    and v: "valid_runes (ps @ rs)" "valid_runes (ds @ [r])" "valid_rune (Suc r)"
    using under_prefix_runes [OF assms] .
  note cp = commonPrefix_runes [OF v(1,2)] delimiter_at_runes [OF v(1,2)]
  show "delimiter_at pre delim k = 0 \<longleftrightarrow> commonPrefix pre delim k = None"
    unfolding k by (cases "strings_Cut (ds @ [r]) rs") (auto simp: cp simp del: string_of_runes_append)
  show "walk_bound pre delim k = (case commonPrefix pre delim k of None \<Rightarrow> k @ keyStep | Some g \<Rightarrow> PrefixEnd g)"
  proof (cases "strings_Cut (ds @ [r]) rs")
    case None
    moreover have "sql_char 1 = keyStep"
      by (simp add: sql_char_def is_surrogate_def string_of_runes_def encode_rune_def valid_rune_def MaxRune_def
          keyStep_def unbyte_def char_of_def bit_0)
    ultimately show ?thesis
      unfolding k walk_bound_def by (simp add: cp Let_def del: string_of_runes_append)
  next
    case (Some ab)
    obtain a b where ab: "ab = (a, b)" by (cases ab)
    then have rs: "rs = a @ (ds @ [r]) @ b" using Some strings_Cut_Some by blast
    have ks: "runes k = (ps @ a @ ds) @ r # b"
      unfolding k using v(1) by (subst runes_string_of_runes) (simp_all add: rs)
    have len: "sql_length pre = length ps" "sql_length delim = length ds + 1"
      unfolding k sql_length_def using v by (simp_all add: runes_string_of_runes del: string_of_runes_append)
    have at: "delimiter_at pre delim k = length a + 1"
      unfolding k using Some ab by (simp add: cp del: string_of_runes_append)
    have g: "commonPrefix pre delim k = Some (string_of_runes ((ps @ a @ ds) @ [r]))"
      unfolding k using Some ab by (simp add: cp del: string_of_runes_append)
    have "PrefixEnd (string_of_runes ((ps @ a @ ds) @ [r])) = string_of_runes ((ps @ a @ ds) @ [Suc r])"
      using v rs by (intro PrefixEnd_raised) auto
    moreover have "sql_substr k 1 (length (ps @ a @ ds)) = string_of_runes (ps @ a @ ds)"
      by (simp add: sql_substr_def ks del: string_of_runes_append)
    moreover have "sql_substr k (Suc (length (ps @ a @ ds))) 1 = string_of_runes [r]"
      by (simp only: sql_substr_def ks diff_Suc_1 append_eq_conv_conj drop_append) simp
    moreover have "sql_unicode (string_of_runes [r]) = r"
      using v(2) by (simp add: sql_unicode_def runes_string_of_runes)
    moreover have "sql_char (Suc r) = string_of_runes [Suc r]"
      using v(3) by (simp add: sql_char_def valid_rune_def)
    moreover have "length ps + (length a + 1) + (length ds + 1) - 2 = length (ps @ a @ ds)"
      "length ps + (length a + 1) + (length ds + 1) - 1 = Suc (length (ps @ a @ ds))"
      by simp_all
    ultimately show ?thesis
      unfolding walk_bound_def g at len Let_def by (simp only: option.case) simp
  qed
qed

subsection \<open>The entries of a listing\<close>

text \<open>
  What a listing is to hold: each managed key under the prefix past the cursor gives one entry, the
  key itself or the group it folds into, in the order of their names. A cursor that names a group is
  past every key of it.
\<close>

definition managed_keys :: "db \<Rightarrow> string list" where
  "managed_keys d = map locObjectKey (filter (\<lambda>l. \<not> locUnmanaged l) (dbLocations d))"

definition beyond :: "string \<Rightarrow> string \<Rightarrow> string \<Rightarrow> string \<Rightarrow> bool" where
  "beyond pre delim after k \<longleftrightarrow>
     after = [] \<or> after < k \<and> \<not> (commonPrefix pre delim after = Some after \<and> prefix after k)"

definition listed_keys :: "db \<Rightarrow> string \<Rightarrow> string \<Rightarrow> string \<Rightarrow> string list" where
  "listed_keys d pre delim after =
     sort (remdups (filter (\<lambda>k. prefix pre k \<and> beyond pre delim after k) (managed_keys d)))"

definition listed :: "db \<Rightarrow> string \<Rightarrow> string \<Rightarrow> string \<Rightarrow> (string \<times> bool) list" where
  "listed d pre delim after = sort (remdups (map (entry pre delim) (listed_keys d pre delim after)))"

definition listed_row :: "db \<Rightarrow> string \<Rightarrow> ObjectLocation" where
  "listed_row d k = (case first_row d k of Some l \<Rightarrow> scanListed l | None \<Rightarrow> emptyLocation\<lparr>locObjectKey := k\<rparr>)"

definition page_of :: "db \<Rightarrow> nat \<Rightarrow> (string \<times> bool) list \<Rightarrow> ListObjectsResult" where
  "page_of d m es =
    \<lparr>lrObjects = map (\<lambda>e. listed_row d (fst e)) (filter (\<lambda>e. \<not> snd e) (take m es)),
     lrCommonPrefixes = map fst (filter snd (take m es)),
     lrIsTruncated = (m < length es),
     lrNextContinuationToken = (if m < length es then fst (es ! (m - 1)) else [])\<rparr>"

text \<open>The keys and the request the statement is about: non-empty well-formed UTF-8 without NUL, and a delimiter whose last character can rise.\<close>

definition listable :: "db \<Rightarrow> string \<Rightarrow> string \<Rightarrow> bool" where
  "listable d pre delim \<longleftrightarrow> is_utf8 pre \<and> raisable delim \<and>
     list_all (\<lambda>k. k \<noteq> [] \<and> is_utf8 k \<and> nul_free k \<and> below_top (runes pre) (runes k)) (managed_keys d)"

lemma listableD:
  assumes "listable d pre delim" "k \<in> set (managed_keys d)"
  shows "is_utf8 pre" "raisable delim" "is_utf8 k" "nul_free k" "below_top (runes pre) (runes k)" "k \<noteq> []"
  using assms by (auto simp: listable_def list_all_iff)

lemma set_keys_in_range: "set (keys_in_range d lo hi) = {k \<in> set (managed_keys d). lo \<le> k \<and> k < hi}"
  by (auto simp: keys_in_range_def rows_in_range_def managed_keys_def)

lemma sorted_keys_in_range: "sorted (keys_in_range d lo hi)" "distinct (keys_in_range d lo hi)"
  by (simp_all add: keys_in_range_def)

lemma group_below_top:
  assumes "is_utf8 pre" "raisable delim" "is_utf8 k" "commonPrefix pre delim k = Some g"
  shows "is_utf8 g" "below_top (runes g) ys"
proof -
  have ne: "delim \<noteq> []" and "prefix pre k" using assms(4) by (auto simp: commonPrefix_Some)
  from under_prefix_runes [OF assms(1,2) ne assms(3) this(2)]
  obtain ps rs ds r where k: "pre = string_of_runes ps" "k = string_of_runes (ps @ rs)" "delim = string_of_runes (ds @ [r])"
    and v: "valid_runes (ps @ rs)" "valid_runes (ds @ [r])" "valid_rune (Suc r)" .
  then obtain a b where c: "strings_Cut (ds @ [r]) rs = Some (a, b)" and g: "g = string_of_runes (ps @ a @ ds @ [r])"
    using assms(4) commonPrefix_runes [OF v(1,2)] by (auto simp del: string_of_runes_append)
  then have "valid_runes (ps @ a @ ds @ [r])" using v strings_Cut_Some by fastforce
  moreover have "r \<noteq> MaxRune" using v(3) by (auto simp: valid_rune_def)
  ultimately show "is_utf8 g" "below_top (runes g) ys"
    unfolding g by (auto simp: is_utf8_string_of_runes runes_string_of_runes below_top_def simp del: string_of_runes_append)
qed

lemma group_end:
  assumes "is_utf8 pre" "raisable delim" "is_utf8 k" "commonPrefix pre delim k = Some g" "is_utf8 k'"
  shows "PrefixEnd g \<le> k' \<longleftrightarrow> g < k' \<and> \<not> prefix g k'"
proof -
  note g = group_below_top [OF assms(1-4)]
  have "g < PrefixEnd g" using PrefixEnd_above [OF g(1) g(1) g(2)] by simp
  moreover have "k' < PrefixEnd g \<longleftrightarrow> prefix g k'" if "g \<le> k'"
    using PrefixEnd_above [OF g(1) assms(5) g(2) that] .
  ultimately show ?thesis by (meson not_le order_le_less order_less_le_trans prefix_order.eq_refl)
qed

text \<open>The lower bound of a page selects the keys past its cursor.\<close>

definition page_from :: "string \<Rightarrow> string \<Rightarrow> string \<Rightarrow> string" where
  "page_from pre delimiter startAfter =
    (case commonPrefix pre delimiter startAfter of
       Some grp \<Rightarrow> if grp = startAfter then PrefixEnd grp else KeysFrom pre startAfter
     | None \<Rightarrow> KeysFrom pre startAfter)"

lemma page_from_beyond:
  assumes "listable d pre delim" "is_utf8 after" "k \<in> set (managed_keys d)" "prefix pre k"
  shows "page_from pre delim after \<le> k \<longleftrightarrow> beyond pre delim after k"
proof (cases "commonPrefix pre delim after = Some after")
  case True
  then have "after \<noteq> []" by (auto simp: commonPrefix_Some)
  with True group_end [OF listableD(1,2) [OF assms(1,3)] assms(2) True listableD(3) [OF assms(1,3)]]
  show ?thesis by (simp add: page_from_def beyond_def)
next
  case False
  have "pre \<le> k" using assms(4) by (rule prefix_le)
  with False above_step [OF listableD(4) [OF assms(1,3)], of after] show ?thesis
    by (auto simp: page_from_def beyond_def KeysFrom_def split: option.splits)
qed

lemma page_from_above:
  assumes "is_utf8 pre" "raisable delim" "is_utf8 after"
  shows "pre \<le> page_from pre delim after"
proof (cases "commonPrefix pre delim after = Some after")
  case True
  note g = group_below_top [OF assms True]
  have "after < PrefixEnd after" using PrefixEnd_above [OF g(1) g(1) g(2)] by simp
  moreover have "pre \<le> after" using True by (intro prefix_le) (auto dest: commonPrefix_prefix)
  ultimately show ?thesis using True by (simp add: page_from_def)
next
  case False
  then show ?thesis by (auto simp: page_from_def KeysFrom_def split: option.splits)
qed

lemma keys_in_page:
  assumes "listable d pre delim" "is_utf8 after"
  shows "keys_in_range d (page_from pre delim after) (PrefixEnd pre) = listed_keys d pre delim after"
proof (rule sorted_distinct_set_unique)
  have "page_from pre delim after \<le> k \<and> k < PrefixEnd pre \<longleftrightarrow> prefix pre k \<and> beyond pre delim after k"
    if k: "k \<in> set (managed_keys d)" for k
  proof -
    note l = listableD [OF assms(1) k]
    have "pre \<le> page_from pre delim after" using l assms by (intro page_from_above)
    with PrefixEnd_range [OF l(1,3,5)] page_from_beyond [OF assms k] show ?thesis by auto
  qed
  then show "set (keys_in_range d (page_from pre delim after) (PrefixEnd pre)) = set (listed_keys d pre delim after)"
    by (auto simp: set_keys_in_range listed_keys_def)
qed (simp_all add: sorted_keys_in_range listed_keys_def)

subsection \<open>The readers find the entries\<close>

text \<open>The first key of each entry, in key order.\<close>

function reps :: "('a \<Rightarrow> 'b) \<Rightarrow> 'a list \<Rightarrow> 'a list" where
  "reps f [] = []"
| "reps f (k # ks) = k # reps f (filter (\<lambda>k'. f k' \<noteq> f k) ks)"
  by pat_completeness auto
termination
  by (relation "measure (\<lambda>(f, ks). length ks)") (auto simp: le_imp_less_Suc)

lemma set_reps: "f ` set (reps f ks) = f ` set ks" "set (reps f ks) \<subseteq> set ks"
  by (induction f ks rule: reps.induct) auto

lemma distinct_reps: "distinct (map f (reps f ks))"
proof (induction f ks rule: reps.induct)
  case (2 f k ks)
  have "f k \<notin> f ` set (reps f (filter (\<lambda>k'. f k' \<noteq> f k) ks))"
    unfolding set_reps by auto
  with 2 show ?case by auto
qed simp

lemma sorted_reps: "sorted ks \<Longrightarrow> sorted (reps f ks)"
proof (induction f ks rule: reps.induct)
  case (2 f k ks)
  then have "sorted (filter (\<lambda>k'. f k' \<noteq> f k) ks)"
    using sorted_filter [of id ks] by simp
  with 2 show ?case using set_reps(2) [of f "filter (\<lambda>k'. f k' \<noteq> f k) ks"] by auto
qed simp

lemma reps_inj: "\<lbrakk>inj f; distinct ks\<rbrakk> \<Longrightarrow> reps f ks = ks"
proof (induction f ks rule: reps.induct)
  case (2 f k ks)
  then have "filter (\<lambda>k'. f k' \<noteq> f k) ks = ks"
    by (intro filter_True) (auto dest: injD)
  with 2 show ?case by simp
qed simp

lemma take_reps_Suc:
  "take (Suc n) (reps f ks) =
    (case ks of [] \<Rightarrow> [] | k # ks \<Rightarrow> k # take n (reps f (filter (\<lambda>k'. f k' \<noteq> f k) ks)))"
  by (cases ks) auto

lemma entry_name_inj:
  assumes "fst (entry pre delim k) = fst (entry pre delim k')"
  shows "entry pre delim k = entry pre delim k'"
proof -
  have "commonPrefix pre delim g = Some g" if "commonPrefix pre delim k = Some g" for k g
    using commonPrefix_stable [OF that] by simp
  with assms show ?thesis by (auto simp: entry_def split: option.splits)
qed

lemma sorted_reps_entry:
  assumes "sorted ks" "list_all (prefix pre) ks"
  shows "sorted (map (entry pre delim) (reps (entry pre delim) ks))"
proof -
  have "entry pre delim k \<le> entry pre delim k'"
    if "k \<le> k'" "k \<in> set ks" "k' \<in> set ks" for k k'
  proof -
    have "fst (entry pre delim k) \<le> fst (entry pre delim k')"
      using that assms(2) by (intro entry_mono) (auto simp: list_all_iff)
    with entry_name_inj [of pre delim k k'] show ?thesis
      by (cases "entry pre delim k = entry pre delim k'") (auto simp: less_eq_prod_def less_le)
  qed
  then show ?thesis
    using sorted_reps [OF assms(1), of "entry pre delim"] set_reps(2) [of "entry pre delim" ks]
    unfolding sorted_map by (auto elim!: sorted_wrt_mono_rel [rotated] dest: subsetD)
qed

lemma listed_eq: "listed d pre delim after = map (entry pre delim) (reps (entry pre delim) (listed_keys d pre delim after))"
proof (rule sorted_distinct_set_unique)
  show "sorted (map (entry pre delim) (reps (entry pre delim) (listed_keys d pre delim after)))"
    by (intro sorted_reps_entry) (auto simp: listed_keys_def list_all_iff)
qed (simp_all add: listed_def distinct_reps set_reps)

text \<open>The bound the walk seeks from skips the rest of the entry and nothing else.\<close>

lemma seek_past_entry:
  assumes "listable d pre delim" "delim \<noteq> []" "k \<in> set (managed_keys d)" "k' \<in> set (managed_keys d)" "prefix pre k"
  shows "walk_bound pre delim k \<le> k' \<longleftrightarrow> k < k' \<and> entry pre delim k' \<noteq> entry pre delim k"
proof (cases "commonPrefix pre delim k")
  case None
  note lk = listableD [OF assms(1,3)] and lk' = listableD [OF assms(1,4)]
  have "entry pre delim k' \<noteq> entry pre delim k" if "k < k'"
    using None that commonPrefix_stable [of pre delim k' k k] by (auto simp: entry_def split: option.splits)
  with None walk_bound_eq(1) [OF lk(1,2) assms(2) lk(3) assms(5)] above_step [OF lk'(4), of k]
  show ?thesis by auto
next
  case (Some g)
  note lk = listableD [OF assms(1,3)] and lk' = listableD [OF assms(1,4)]
  have "g \<le> k" "prefix g k" using Some commonPrefix_prefix prefix_le by blast+
  moreover have "k < k'" if "g < k'" "\<not> prefix g k'"
    using that \<open>prefix g k\<close> prefix_convex [of g k k'] by (meson leI less_imp_le)
  ultimately have "PrefixEnd g \<le> k' \<longleftrightarrow> k < k' \<and> \<not> prefix g k'"
    using group_end [OF lk(1-3) Some lk'(3)] by auto
  with Some walk_bound_eq(1) [OF lk(1,2) assms(2) lk(3) assms(5)] entry_same_group [OF Some, of k']
  show ?thesis by simp
qed

lemma keys_past_entry:
  assumes "listable d pre delim" "delim \<noteq> []" "pre \<le> lo" "keys_in_range d lo (PrefixEnd pre) = k # ks"
  shows "keys_in_range d (walk_bound pre delim k) (PrefixEnd pre) = filter (\<lambda>k'. entry pre delim k' \<noteq> entry pre delim k) ks"
proof (rule sorted_distinct_set_unique)
  have sd: "sorted (k # ks)" "distinct (k # ks)" using sorted_keys_in_range [of d lo] assms(4) by metis+
  have mem: "k' \<in> set (k # ks) \<longleftrightarrow> k' \<in> set (managed_keys d) \<and> lo \<le> k' \<and> k' < PrefixEnd pre" for k'
    using set_keys_in_range [of d lo "PrefixEnd pre"] unfolding assms(4) by auto
  have pre: "prefix pre k'" if "k' \<in> set (managed_keys d)" "lo \<le> k'" "k' < PrefixEnd pre" for k'
    using PrefixEnd_range [OF listableD(1,3,5) [OF assms(1) that(1)]] that assms(3) by auto
  have k: "k \<in> set (managed_keys d)" "lo \<le> k" "k < PrefixEnd pre" using mem [of k] by auto
  show "set (keys_in_range d (walk_bound pre delim k) (PrefixEnd pre)) =
      set (filter (\<lambda>k'. entry pre delim k' \<noteq> entry pre delim k) ks)"
  proof (intro set_eqI)
    fix k'
    have "k' \<in> set ks \<longleftrightarrow> k' \<in> set (managed_keys d) \<and> k < k' \<and> k' < PrefixEnd pre"
      using mem [of k'] k sd by (auto simp: less_le)
    with seek_past_entry [OF assms(1,2) k(1) _ pre [OF k], of k'] show "k' \<in> set (keys_in_range d (walk_bound pre delim k) (PrefixEnd pre)) \<longleftrightarrow>
        k' \<in> set (filter (\<lambda>k'. entry pre delim k' \<noteq> entry pre delim k) ks)"
      by (auto simp: set_keys_in_range)
  qed
  show "sorted (filter (\<lambda>k'. entry pre delim k' \<noteq> entry pre delim k) ks)" using sd by (simp add: sorted_filter [of id, simplified])
  show "distinct (filter (\<lambda>k'. entry pre delim k' \<noteq> entry pre delim k) ks)" using sd by simp
qed (simp_all add: sorted_keys_in_range)

lemma walk_eq:
  assumes "listable d pre delim" "delim \<noteq> []" "pre \<le> lo"
  shows "walk n d pre delim lo (PrefixEnd pre) = take (Suc n) (reps (entry pre delim) (keys_in_range d lo (PrefixEnd pre)))"
  using assms(3)
proof (induction n arbitrary: lo)
  case 0
  then show ?case by (simp add: lowest_key_def take_reps_Suc split: list.splits)
next
  case (Suc n)
  show ?case
  proof (cases "keys_in_range d lo (PrefixEnd pre)")
    case Nil
    then show ?thesis by (simp add: lowest_key_def)
  next
    case (Cons k ks)
    then have k: "k \<in> set (managed_keys d)" "lo \<le> k" "k < PrefixEnd pre"
      using set_keys_in_range [of d lo "PrefixEnd pre"] by auto
    then have "prefix pre k"
      using PrefixEnd_range [OF listableD(1,3,5) [OF assms(1) k(1)]] Suc.prems by auto
    from seek_past_entry [OF assms(1,2) k(1) k(1) this] have "pre \<le> walk_bound pre delim k"
      using k Suc.prems by (simp add: not_le)
    with Suc.IH keys_past_entry [OF assms(1,2) Suc.prems Cons] Cons show ?thesis
      by (simp add: lowest_key_def)
  qed
qed

lemma first_row_managed:
  assumes "k \<in> set (managed_keys d)"
  obtains l where "first_row d k = Some l" "locObjectKey l = k"
proof -
  obtain l where "l \<in> set (dbLocations d)" "locObjectKey l = k" "\<not> locUnmanaged l"
    using assms by (auto simp: managed_keys_def)
  then have "first_row d k \<noteq> None" by (auto simp: first_row_def find_None_iff)
  then obtain l where "first_row d k = Some l" by blast
  moreover from this have "locObjectKey l = k" by (auto simp: first_row_def find_Some_iff)
  ultimately show ?thesis using that by blast
qed

lemma locObjectKey_scanListed [simp]: "locObjectKey (scanListed l) = locObjectKey l"
  by (simp add: scanListed_def scanSlim_def)

lemma locObjectKey_listed_row: "k \<in> set (managed_keys d) \<Longrightarrow> locObjectKey (listed_row d k) = k"
  by (erule first_row_managed) (simp add: listed_row_def)

lemma locObjectKey_walk_row [simp]: "locObjectKey (walk_row d pre delim k) = k"
  by (simp add: walk_row_def split: option.splits)

lemma walk_row_leaf:
  assumes "listable d pre delim" "delim \<noteq> []" "k \<in> set (managed_keys d)" "prefix pre k" "commonPrefix pre delim k = None"
  shows "walk_row d pre delim k = listed_row d k"
proof -
  note l = listableD [OF assms(1,3)]
  obtain r where r: "first_row d k = Some r" "locObjectKey r = k" using first_row_managed [OF assms(3)] .
  have "delimiter_at pre delim k = 0"
    using walk_bound_eq(2) [OF l(1,2) assms(2) l(3) assms(4)] assms(5) by simp
  with r show ?thesis
    by (simp add: walk_row_def listed_row_def)
qed

text \<open>Folding the rows of a page.\<close>

lemma fold_rows_eq:
  "fold_rows pre delim rows (res, l) =
    (res\<lparr>lrObjects := lrObjects res @ filter (\<lambda>r. commonPrefix pre delim (locObjectKey r) = None) rows,
         lrCommonPrefixes := lrCommonPrefixes res @ List.map_filter (\<lambda>r. commonPrefix pre delim (locObjectKey r)) rows\<rparr>,
     if rows = [] then l else fst (entry pre delim (locObjectKey (last rows))))"
proof (induction rows arbitrary: res l)
  case (Cons r rows)
  then show ?case
    by (auto simp: Let_def entry_def map_filter_simps split: option.splits)
qed (simp add: map_filter_simps)

definition reads_keys :: "db \<Rightarrow> string \<Rightarrow> string \<Rightarrow> (string \<Rightarrow> ObjectLocation) \<Rightarrow> string list \<Rightarrow> bool" where
  "reads_keys d pre delim g ks \<longleftrightarrow>
     (\<forall>k \<in> set ks. locObjectKey (g k) = k \<and> (commonPrefix pre delim k = None \<longrightarrow> g k = listed_row d k))"

lemma fold_rows_leaves:
  "reads_keys d pre delim g ks \<Longrightarrow>
   filter (\<lambda>r. commonPrefix pre delim (locObjectKey r) = None) (map g ks) =
     map (\<lambda>e. listed_row d (fst e)) (filter (\<lambda>e. \<not> snd e) (map (entry pre delim) ks))"
  by (induction ks) (auto simp: reads_keys_def entry_def split: option.splits)

lemma fold_rows_groups:
  "reads_keys d pre delim g ks \<Longrightarrow>
   List.map_filter (\<lambda>r. commonPrefix pre delim (locObjectKey r)) (map g ks) =
     map fst (filter snd (map (entry pre delim) ks))"
  by (induction ks) (auto simp: reads_keys_def entry_def map_filter_simps split: option.splits)

lemma TrimPage_take: "0 \<le> m \<Longrightarrow> TrimPage (take (Suc (nat m)) xs) m = (take (nat m) xs, nat m < length xs)"
  by (auto simp: TrimPage_def min_def)

lemma buildPage_eq:
  assumes "reads_keys d pre delim g ks" "0 < m"
  shows "buildPage (map g (take (Suc (nat m)) ks)) pre delim m = page_of d (nat m) (map (entry pre delim) ks)"
proof -
  have r: "reads_keys d pre delim g (take (nat m) ks)"
    using assms(1) by (auto simp: reads_keys_def dest: in_set_takeD)
  have "locObjectKey (last (map g (take (nat m) ks))) = ks ! (nat m - 1)" if "nat m < length ks"
  proof -
    have "last (map g (take (nat m) ks)) = g (ks ! (nat m - 1))"
      using that assms(2) by (subst last_conv_nth) auto
    with that assms show ?thesis by (simp add: reads_keys_def)
  qed
  then show ?thesis
    using assms(2) r TrimPage_take [of m "map g ks"]
    by (auto simp: buildPage_def page_of_def fold_rows_eq emptyPage_def take_map fold_rows_leaves fold_rows_groups
        simp flip: map_append)
qed

lemma listed_keys_managed:
  "k \<in> set (listed_keys d pre delim after) \<Longrightarrow> k \<in> set (managed_keys d) \<and> prefix pre k"
  by (auto simp: listed_keys_def)

lemma listFlat_eq:
  assumes "listable d pre []" "is_utf8 after" "0 < m"
  shows "listFlat d (page_from pre [] after) (PrefixEnd pre) (m + 1) =
    Inr (map (listed_row d) (take (Suc (nat m)) (reps (entry pre []) (listed_keys d pre [] after))))"
proof -
  have "entry pre [] = (\<lambda>k. (k, False))"
    by (auto simp: entry_def commonPrefix_def split: option.splits)
  then have "reps (entry pre []) (listed_keys d pre [] after) = listed_keys d pre [] after"
    by (intro reps_inj) (auto simp: inj_on_def listed_keys_def)
  moreover have "map scanListed (List.map_filter (first_row d) ks) = map (listed_row d) ks"
    if "set ks \<subseteq> set (managed_keys d)" for ks
    using that by (induction ks) (auto simp: map_filter_simps listed_row_def elim!: first_row_managed)
  moreover have "set (take n (listed_keys d pre [] after)) \<subseteq> set (managed_keys d)" for n
    by (auto dest!: in_set_takeD listed_keys_managed)
  ultimately show ?thesis
    using assms(3) by (simp add: listFlat_def keys_in_page [OF assms(1,2)] nat_add_distrib)
qed

lemma listDelimited_eq:
  assumes "listable d pre delim" "delim \<noteq> []" "is_utf8 after" "0 < m"
  shows "listDelimited d pre delim (page_from pre delim after) (PrefixEnd pre) (m + 1) =
    Inr (map (walk_row d pre delim) (take (Suc (nat m)) (reps (entry pre delim) (listed_keys d pre delim after))))"
proof -
  have "pre \<le> page_from pre delim after"
    using assms by (intro page_from_above) (auto simp: listable_def)
  moreover have "sorted (take n (reps (entry pre delim) (listed_keys d pre delim after)))" for n
    by (intro sorted_wrt_take sorted_reps) (simp add: listed_keys_def)
  moreover have "nat (m + 1) - 1 = nat m" using assms(4) by simp
  ultimately show ?thesis
    using assms(1,2) by (simp add: listDelimited_def walk_eq keys_in_page [OF assms(1,3)] sort_key_id_if_sorted)
qed

lemma reads_reps:
  assumes "listable d pre delim"
  shows "reads_keys d pre delim (listed_row d) (reps f (listed_keys d pre delim after))"
    and "delim \<noteq> [] \<Longrightarrow> reads_keys d pre delim (walk_row d pre delim) (reps f (listed_keys d pre delim after))"
  using set_reps(2) [of f "listed_keys d pre delim after"] listed_keys_managed [of _ d pre delim after] assms
  by (auto simp: reads_keys_def locObjectKey_listed_row walk_row_leaf subset_iff)

lemma ListObjects_eq:
  assumes "listable d pre delim" "is_utf8 after" "0 < m"
  shows "ListObjects d pre delim after m = Inr (page_of d (nat m) (listed d pre delim after))"
proof -
  have "ListObjects d pre delim after m =
    (case (if delim = [] then listFlat d (page_from pre delim after) (PrefixEnd pre) (m + 1)
           else listDelimited d pre delim (page_from pre delim after) (PrefixEnd pre) (m + 1)) of
       Inl e \<Rightarrow> Inl e | Inr rows \<Rightarrow> Inr (buildPage rows pre delim m))"
    using assms(3) by (simp only: ListObjects_def ListPage_def page_from_def Let_def not_le [symmetric] if_False simp_thms)
  with assms listFlat_eq [of d pre after m] listDelimited_eq [of d pre delim after m]
    buildPage_eq [OF reads_reps(1) [OF assms(1)] assms(3)] buildPage_eq [OF reads_reps(2) [OF assms(1)] assms(3)]
  show ?thesis
    by (cases "delim = []") (simp_all add: listed_eq)
qed

subsection \<open>Following the continuation tokens\<close>

lemma fst_entry_le: "fst (entry pre delim k) \<le> k"
  by (auto simp: entry_def prefix_le dest: commonPrefix_prefix split: option.splits)

lemma beyond_entry:
  assumes "prefix pre k" "prefix pre k'"
  shows "beyond pre delim (fst (entry pre delim k)) k' \<longleftrightarrow>
    fst (entry pre delim k) = [] \<or> fst (entry pre delim k) < fst (entry pre delim k')"
proof -
  define t where "t = fst (entry pre delim k)"
  have t: "entry pre delim t = entry pre delim k"
  proof (cases "commonPrefix pre delim k")
    case (Some g)
    with commonPrefix_stable [of pre delim k g g] show ?thesis by (simp add: t_def entry_def)
  qed (simp add: t_def entry_def)
  have pt: "prefix pre t" using assms(1) commonPrefix_prefix by (auto simp: t_def entry_def split: option.splits)
  have same: "entry pre delim k' = entry pre delim t" if "fst (entry pre delim k') = t"
    using entry_name_inj [of pre delim k' k] that t by (simp add: t_def)
  have "t < k' \<and> \<not> (commonPrefix pre delim t = Some t \<and> prefix t k') \<longleftrightarrow> t < fst (entry pre delim k')"
  proof (cases "commonPrefix pre delim t = Some t")
    case True
    then show ?thesis
      using entry_same_group [OF True, of k'] same entry_mono [OF _ pt assms(2), of delim] fst_entry_le [of pre delim k'] t
      by (auto simp: t_def [symmetric] less_le)
  next
    case False
    have ft: "fst (entry pre delim t) = t" using t by (simp add: t_def)
    with False have leaf: "entry pre delim t = (t, False)" by (auto simp: entry_def split: option.splits)
    have "k' = t" if "fst (entry pre delim k') = t"
      using same [OF that] unfolding leaf by (simp add: entry_leaf)
    with False ft entry_mono [OF _ pt assms(2), of delim] fst_entry_le [of pre delim k'] show ?thesis
      by (auto simp: less_le)
  qed
  then show ?thesis by (auto simp: beyond_def t_def [symmetric])
qed

lemma listed_names: "sorted_wrt (<) (map fst (listed d pre delim after))"
proof -
  define es where "es = listed d pre delim after"
  have "e = e'" if e: "e \<in> set es" "e' \<in> set es" "fst e = fst e'" for e e'
  proof -
    from e obtain k k' where "e = entry pre delim k" "e' = entry pre delim k'"
      by (auto simp: es_def listed_def)
    with e(3) entry_name_inj [of pre delim k k'] show ?thesis by simp
  qed
  then have "inj_on fst (set es)" by (auto simp: inj_on_def)
  moreover have "sorted es" "distinct es" by (simp_all add: es_def listed_def)
  ultimately have "sorted (map fst es)" "distinct (map fst es)"
    by (simp_all add: distinct_map sorted_map) (auto simp: less_eq_prod_def elim!: sorted_wrt_mono_rel [rotated])
  then show ?thesis by (simp add: strict_sorted_iff es_def)
qed

lemma sorted_filter_drop:
  assumes "sorted_wrt (<) (map f xs)" "n < length xs"
  shows "filter (\<lambda>x. f (xs ! n) < (f x :: 'b :: linorder)) xs = drop (Suc n) xs"
  using assms
proof (induction xs arbitrary: n)
  case (Cons x xs)
  then show ?case
    by (cases n) (auto simp: not_less intro!: filter_True less_imp_le)
qed simp

lemma listed_after_token:
  assumes "n < length (listed d pre delim [])" "fst (listed d pre delim [] ! n) \<noteq> []"
  shows "listed d pre delim (fst (listed d pre delim [] ! n)) = drop (Suc n) (listed d pre delim [])"
proof -
  define es where "es = listed d pre delim []"
  have "es ! n \<in> set es" using assms(1) by (simp add: es_def)
  then obtain k where k: "k \<in> set (managed_keys d)" "prefix pre k" "es ! n = entry pre delim k"
    by (auto simp: es_def listed_def listed_keys_def)
  have "listed d pre delim (fst (es ! n)) = filter (\<lambda>e. fst (es ! n) < fst e) es"
  proof (rule sorted_distinct_set_unique)
    show "set (listed d pre delim (fst (es ! n))) = set (filter (\<lambda>e. fst (es ! n) < fst e) es)"
      using beyond_entry [OF k(2), of _ delim] assms(2) k(3)
      by (auto simp: es_def listed_def listed_keys_def beyond_def [of _ _ "[]"])
  qed (simp_all add: es_def listed_def sorted_filter [of id, simplified])
  with sorted_filter_drop [OF listed_names, of n d pre delim "[]"] assms(1) show ?thesis by (simp add: es_def)
qed

text \<open>
  The loop of a client that follows the tokens: \<open>Some\<close> of all it received once a page is not
  truncated, \<open>None\<close> where a page fails or more than \<open>n\<close> pages are asked for.
\<close>

primrec follow_pages ::
  "nat \<Rightarrow> db \<Rightarrow> string \<Rightarrow> string \<Rightarrow> int \<Rightarrow> string \<Rightarrow> (ObjectLocation list \<times> string list) option" where
  "follow_pages 0 d pre delim m after = None"
| "follow_pages (Suc n) d pre delim m after =
    (case ListObjects d pre delim after m of
       Inl e \<Rightarrow> None
     | Inr r \<Rightarrow>
         if lrIsTruncated r
         then map_option (\<lambda>(objects, groups). (lrObjects r @ objects, lrCommonPrefixes r @ groups))
                (follow_pages n d pre delim m (lrNextContinuationToken r))
         else Some (lrObjects r, lrCommonPrefixes r))"

definition listing_of :: "db \<Rightarrow> (string \<times> bool) list \<Rightarrow> ObjectLocation list \<times> string list" where
  "listing_of d es = (map (\<lambda>e. listed_row d (fst e)) (filter (\<lambda>e. \<not> snd e) es), map fst (filter snd es))"

lemma entry_utf8:
  assumes "listable d pre delim" "e \<in> set (listed d pre delim after)"
  shows "is_utf8 (fst e)" "fst e \<noteq> []"
proof -
  obtain k where k: "k \<in> set (managed_keys d)" "prefix pre k" "e = entry pre delim k"
    using assms(2) by (auto simp: listed_def listed_keys_def)
  note l = listableD [OF assms(1) k(1)]
  show "is_utf8 (fst e)" "fst e \<noteq> []"
    using l group_below_top(1) [OF l(1-3)] k by (auto simp: entry_def commonPrefix_Some split: option.splits)
qed

lemma follow_pages_from:
  assumes "listable d pre delim" "0 < m" "is_utf8 after"
    and "listed d pre delim after = drop i (listed d pre delim [])" "length (listed d pre delim []) - i < n"
  shows "follow_pages n d pre delim m after = Some (listing_of d (drop i (listed d pre delim [])))"
  using assms(3-5)
proof (induction n arbitrary: after i)
  case (Suc n)
  define es where "es = listed d pre delim []"
  define c where "c = nat m"
  have page: "ListObjects d pre delim after m = Inr (page_of d c (drop i es))"
    using ListObjects_eq [OF assms(1) Suc.prems(1) assms(2)] Suc.prems(2) by (simp add: c_def es_def)
  show ?case
  proof (cases "c < length (drop i es)")
    case False
    with page show ?thesis by (simp add: page_of_def listing_of_def es_def)
  next
    case True
    define t where "t = fst (es ! (i + (c - 1)))"
    have c: "0 < c" "i + (c - 1) < length es" "Suc (i + (c - 1)) = c + i" using True assms(2) by (auto simp: c_def)
    then have e: "es ! (i + (c - 1)) \<in> set es" by simp
    have "listed d pre delim t = drop (c + i) es"
      using listed_after_token [of "i + (c - 1)" d pre delim] entry_utf8(2) [OF assms(1)] e c by (simp add: t_def es_def add.commute)
    with Suc.IH [of t "c + i"] entry_utf8(1) [OF assms(1)] e c True Suc.prems(3)
    have "follow_pages n d pre delim m t = Some (listing_of d (drop (c + i) es))"
      by (simp add: t_def es_def)
    moreover have "lrNextContinuationToken (page_of d c (drop i es)) = t" "lrIsTruncated (page_of d c (drop i es))"
      using True c by (simp_all add: page_of_def t_def)
    moreover have "drop i es = take c (drop i es) @ drop (c + i) es"
      by (metis append_take_drop_id drop_drop)
    then have "listing_of d (drop i es) = listing_of d (take c (drop i es) @ drop (c + i) es)" by simp
    ultimately show ?thesis
      by (simp add: page page_of_def listing_of_def flip: es_def)
  qed
qed simp

subsection \<open>Properties\<close>

text \<open>A bucket with a folder of two keys, one of them on two backends, a key, and an unmanaged copy.\<close>

definition sample_listing :: db where
  "sample_listing = empty_db\<lparr>dbQuotas := [(''b1'', 0), (''b2'', 0)],
     dbLocations := [sample_copy ''p/b'' ''b1'' ''1'', sample_copy ''p/a/1'' ''b1'' ''2'', sample_copy ''p/a/1'' ''b2'' ''3'',
       sample_copy ''p/a/2'' ''b2'' ''4'', (sample_copy ''p/c'' ''b2'' ''5'')\<lparr>locUnmanaged := True\<rparr>,
       sample_copy ''q'' ''b1'' ''6'']\<rparr>"

lemma sample_listable: "listable sample_listing ''p/'' ''/''"
proof -
  have k: "managed_keys sample_listing = [''p/b'', ''p/a/1'', ''p/a/1'', ''p/a/2'', ''q'']"
    by code_simp
  have u: "list_all is_utf8 [''p/'', ''/'', ''p/b'', ''p/a/1'', ''p/a/2'', ''q'']"
    by (simp add: ascii_is_utf8 byte_def of_char_def)
  have r: "runes ''p/'' = [112, 47]" "runes ''/'' = [47]"
    by (simp_all add: ascii_runes byte_def of_char_def)
  show ?thesis
    using u by (simp add: listable_def k raisable_def r below_top_def MaxRune_def valid_rune_def is_surrogate_def nul_free_def)
qed

text \<open>C13. One call of \<open>ListObjects\<close> answers exactly the next page: of the keys under the prefix past
  the cursor that a client can read, each alone or folded into the group its delimiter ends, it returns the
  first \<open>maxKeys\<close> in order, each once however many copies it has, and the token that names the last of
  them when there are more. It is the same with the flat reader and with the walk that seeks past each group.\<close>

theorem ListObjects_next_page:
  assumes "listable d pre delim" "is_utf8 startAfter" "0 < maxKeys"
  shows "ListObjects d pre delim startAfter maxKeys = Inr (page_of d (nat maxKeys) (listed d pre delim startAfter))"
  using assms by (rule ListObjects_eq)

theorem ListObjects_next_page_witness:
  "ListObjects sample_listing ''p/'' ''/'' [] 1 = Inr (page_of sample_listing 1 [(''p/a/'', True), (''p/b'', False)])"
proof -
  have "listed sample_listing ''p/'' ''/'' [] = [(''p/a/'', True), (''p/b'', False)]"
    by code_simp
  with ListObjects_next_page [OF sample_listable, of "[]" 1] ascii_is_utf8 [of "[]"] show ?thesis by simp
qed

text \<open>C14. A client that starts without a cursor and follows the continuation tokens receives every readable key
  under the prefix, once and in order, and stops: as many pages as there are entries, and one more, are enough
  for any page size.\<close>

theorem listing_pages_complete:
  assumes "listable d pre delim" "0 < maxKeys" "length (listed d pre delim []) < pages"
  shows "follow_pages pages d pre delim maxKeys [] = Some (listing_of d (listed d pre delim []))"
  using follow_pages_from [OF assms(1,2), of "[]" 0 pages] assms(3) ascii_is_utf8 [of "[]"] by simp

theorem listing_pages_complete_witness:
  "follow_pages 3 sample_listing ''p/'' ''/'' 1 [] = Some (listing_of sample_listing [(''p/a/'', True), (''p/b'', False)])"
proof -
  have "listed sample_listing ''p/'' ''/'' [] = [(''p/a/'', True), (''p/b'', False)]"
    by code_simp
  with listing_pages_complete [OF sample_listable, of 1 3] show ?thesis by simp
qed

end
