(* ===== verification/Envelope.thy ===== *)
theory Envelope
  imports Utf8 StoreTypes
begin

text \<open>
  The chunked AES-GCM envelope of \<open>encryption/chunk.go\<close>: its header, the nonce of a chunk,
  and the two readers that seal and open a stream chunk by chunk. A stream is the bytes a reader
  still yields and how it ends. The lemmas show that reading a sealing or opening reader to its
  end gives, for every sequence of buffer sizes, one fixed stream, and relate the two.

  The AEAD is Go's \<open>cipher.AEAD\<close>, an argument of the definitions; what the code relies on is
  \<open>aead_laws\<close>. Random bytes are arguments too.
\<close>

type_synonym bytes = string

subsection \<open>Streams\<close>

text \<open>\<open>IoErr\<close> is any error that is neither \<open>io.EOF\<close> nor \<open>io.ErrUnexpectedEOF\<close>.\<close>

datatype io_err = IoEOF | IoUnexpectedEOF | IoErr error

type_synonym stream = "bytes \<times> io_err"

definition io_ReadFull :: "stream \<Rightarrow> nat \<Rightarrow> (bytes \<times> io_err option) \<times> stream" where
  "io_ReadFull src n = (case src of (bs, end) \<Rightarrow>
    if n \<le> length bs then ((take n bs, None), (drop n bs, end))
    else ((bs, Some (if end = IoEOF \<and> bs \<noteq> [] then IoUnexpectedEOF else end)), ([], end)))"

definition wrap_io :: "string \<Rightarrow> io_err \<Rightarrow> error" where
  "wrap_io msg e = (case e of IoErr err \<Rightarrow> Wrapped msg err | IoEOF \<Rightarrow> Wrapped msg (Refused ''EOF'')
     | IoUnexpectedEOF \<Rightarrow> Wrapped msg (Refused ''unexpected EOF''))"

subsection \<open>Numbers as bytes\<close>

primrec be_bytes :: "nat \<Rightarrow> nat \<Rightarrow> bytes" where
  "be_bytes 0 x = []"
| "be_bytes (Suc n) x = be_bytes n (x div 256) @ [unbyte (x mod 256)]"

definition be_nat :: "bytes \<Rightarrow> nat" where
  "be_nat bs = foldl (\<lambda>a c. a * 256 + byte c) 0 bs"

lemma length_be_bytes [simp]: "length (be_bytes n x) = n"
  by (induction n arbitrary: x) auto

lemma byte_of_unbyte: "b < 256 \<Longrightarrow> byte (unbyte b) = b"
  by (simp add: byte_def unbyte_def)

lemma be_nat_be_bytes: "x < 256 ^ n \<Longrightarrow> be_nat (be_bytes n x) = x"
proof (induction n arbitrary: x)
  case (Suc n)
  then have "x div 256 < 256 ^ n" by (simp add: less_mult_imp_div_less)
  with Suc.IH show ?case by (simp add: be_nat_def byte_of_unbyte)
qed (simp add: be_nat_def)

subsection \<open>The envelope header\<close>

definition NonceSize :: nat where "NonceSize = 12"
definition TagSize :: nat where "TagSize = 16"
definition ChunkOverhead :: nat where "ChunkOverhead = NonceSize + TagSize"
definition headerLen :: nat where "headerLen = nat HeaderSize"
definition MaxEncryptionChunkSize :: nat where "MaxEncryptionChunkSize = 1048576"

definition headerMagic :: bytes where "headerMagic = ''SENC''"

definition envelope_header :: "nat \<Rightarrow> bytes \<Rightarrow> bytes" where
  "envelope_header chunkSize baseNonce =
     headerMagic @ [CHR 0x01] @ be_bytes 4 chunkSize @ baseNonce @ replicate (headerLen - 21) (CHR 0x00)"

definition HasEnvelopeMagic :: "bytes \<Rightarrow> bool" where
  "HasEnvelopeMagic b \<longleftrightarrow> take (length headerMagic) b = headerMagic"

definition parseHeaderBytes :: "bytes \<Rightarrow> error + nat \<times> bytes" where
  "parseHeaderBytes hdr =
    (if length hdr < headerLen then Inl (Refused ''short encryption header'')
     else if \<not> HasEnvelopeMagic hdr then Inl (Refused ''invalid encryption header magic'')
     else if hdr ! 4 \<noteq> CHR 0x01 then Inl (Refused ''unsupported encryption version'')
     else let cs = be_nat (take 4 (drop 5 hdr)) in
       if cs \<le> 0 \<or> cs > MaxEncryptionChunkSize then Inl (Refused ''invalid chunk size in header'')
       else Inr (cs, take NonceSize (drop 9 hdr)))"

definition parseHeader :: "stream \<Rightarrow> (error + nat \<times> bytes) \<times> stream" where
  "parseHeader r = (case io_ReadFull r headerLen of
     ((hdr, None), r) \<Rightarrow> (parseHeaderBytes hdr, r)
   | ((_, Some e), r) \<Rightarrow> (Inl (wrap_io ''read header'' e), r))"

definition PeekEnvelope :: "stream \<Rightarrow> error + bool \<times> stream" where
  "PeekEnvelope r = (case io_ReadFull r (length headerMagic) of
     ((buf, None), r) \<Rightarrow> Inr (HasEnvelopeMagic buf, (buf @ fst r, snd r))
   | ((buf, Some IoEOF), r) \<Rightarrow> Inr (False, (buf @ fst r, snd r))
   | ((buf, Some IoUnexpectedEOF), r) \<Rightarrow> Inr (False, (buf @ fst r, snd r))
   | ((buf, Some (IoErr e)), r) \<Rightarrow> Inl (Wrapped ''peek encryption header'' e))"

subsection \<open>The nonce of a chunk\<close>

definition xor_byte :: "char \<Rightarrow> char \<Rightarrow> char" where
  "xor_byte a b = unbyte (Bit_Operations.xor (byte a) (byte b))"

lemma byte_bound: "byte c < 256"
  by (cases c) (simp add: byte_def of_char_def)

lemma byte_xor_byte: "byte (xor_byte a b) = Bit_Operations.xor (byte a) (byte b)"
proof -
  have "take_bit 8 (byte c) = byte c" for c
    using byte_bound [of c] by (simp add: take_bit_nat_eq_self)
  then have "take_bit 8 (Bit_Operations.xor (byte a) (byte b)) = Bit_Operations.xor (byte a) (byte b)" by (simp add: take_bit_xor)
  then have "Bit_Operations.xor (byte a) (byte b) < 256"
    using take_bit_nat_less_exp [of 8 "Bit_Operations.xor (byte a) (byte b)"] by simp
  then show ?thesis by (simp add: xor_byte_def byte_of_unbyte)
qed

definition deriveNonce :: "bytes \<Rightarrow> 64 word \<Rightarrow> bytes" where
  "deriveNonce base idx =
     take (NonceSize - 8) base @ map2 xor_byte (take 8 (drop (NonceSize - 8) base)) (be_bytes 8 (unat idx))"

subsection \<open>Readers\<close>

record AEAD =
  aeSeal :: "bytes \<Rightarrow> bytes \<Rightarrow> bytes"
  aeOpen :: "bytes \<Rightarrow> bytes \<Rightarrow> bytes option"

record chunkStream =
  csSrc :: stream
  csGcm :: AEAD
  csBaseNonce :: bytes
  csChunkSize :: nat
  csChunkIdx :: "64 word"
  csHasBufs :: bool
  csBuf :: bytes
  csSrcDone :: bool

record encryptReader = chunkStream +
  erHeader :: bytes

definition returnBufs :: "'a chunkStream_scheme \<Rightarrow> 'a chunkStream_scheme" where
  "returnBufs s = s\<lparr>csHasBufs := False, csBuf := []\<rparr>"

definition emit :: "'a chunkStream_scheme \<Rightarrow> nat \<Rightarrow> (bytes \<times> io_err option) \<times> 'a chunkStream_scheme" where
  "emit s n = ((take n (csBuf s), None), s\<lparr>csBuf := drop n (csBuf s)\<rparr>)"

definition drain ::
  "'a chunkStream_scheme \<Rightarrow> nat \<Rightarrow> ((bytes \<times> io_err option) \<times> 'a chunkStream_scheme) option" where
  "drain s n =
    (if \<not> csHasBufs s then Some (([], Some IoEOF), s)
     else if csBuf s \<noteq> [] then Some (emit s n)
     else if csSrcDone s then Some (([], Some IoEOF), returnBufs s)
     else None)"

definition fill :: "'a chunkStream_scheme \<Rightarrow> nat \<Rightarrow> string \<Rightarrow> (io_err + bytes) \<times> 'a chunkStream_scheme" where
  "fill s want what =
    (case io_ReadFull (csSrc s) want of ((bs, err), src) \<Rightarrow>
      let s = s\<lparr>csSrc := src\<rparr> in
      if bs = [] \<and> err = Some IoEOF then (Inl IoEOF, returnBufs s)
      else case err of
        None \<Rightarrow> (Inr bs, s)
      | Some IoEOF \<Rightarrow> (Inr bs, s\<lparr>csSrcDone := True\<rparr>)
      | Some IoUnexpectedEOF \<Rightarrow> (Inr bs, s\<lparr>csSrcDone := True\<rparr>)
      | Some (IoErr e) \<Rightarrow> (Inl (IoErr (Wrapped (''read '' @ what) e)), s))"

definition newEncryptReader :: "stream \<Rightarrow> AEAD \<Rightarrow> bytes \<Rightarrow> nat \<Rightarrow> encryptReader" where
  "newEncryptReader src gcm baseNonce chunkSize =
     \<lparr>csSrc = src, csGcm = gcm, csBaseNonce = baseNonce, csChunkSize = chunkSize, csChunkIdx = 0,
      csHasBufs = True, csBuf = [], csSrcDone = False, erHeader = envelope_header chunkSize baseNonce\<rparr>"

definition encryptReader_Read :: "encryptReader \<Rightarrow> nat \<Rightarrow> (bytes \<times> io_err option) \<times> encryptReader" where
  "encryptReader_Read r n =
    (if erHeader r \<noteq> [] then ((take n (erHeader r), None), r\<lparr>erHeader := drop n (erHeader r)\<rparr>)
     else case drain r n of
       Some res \<Rightarrow> res
     | None \<Rightarrow>
         (case fill r (csChunkSize r) ''plaintext'' of
            (Inl err, r) \<Rightarrow> (([], Some err), r)
          | (Inr plain, r) \<Rightarrow>
              let nonce = deriveNonce (csBaseNonce r) (csChunkIdx r) in
              emit (r\<lparr>csChunkIdx := csChunkIdx r + 1, csBuf := nonce @ aeSeal (csGcm r) nonce plain\<rparr>) n))"

definition newDecryptReader :: "stream \<Rightarrow> AEAD \<Rightarrow> bytes \<Rightarrow> nat \<Rightarrow> 64 word \<Rightarrow> chunkStream" where
  "newDecryptReader src gcm baseNonce chunkSize startChunk =
     \<lparr>csSrc = src, csGcm = gcm, csBaseNonce = baseNonce, csChunkSize = chunkSize, csChunkIdx = startChunk,
      csHasBufs = True, csBuf = [], csSrcDone = False\<rparr>"

definition decryptReader_Read :: "chunkStream \<Rightarrow> nat \<Rightarrow> (bytes \<times> io_err option) \<times> chunkStream" where
  "decryptReader_Read r n =
    (case drain r n of
       Some res \<Rightarrow> res
     | None \<Rightarrow>
         (case fill r (NonceSize + csChunkSize r + TagSize) ''ciphertext'' of
            (Inl err, r) \<Rightarrow> (([], Some err), r)
          | (Inr chunk, r) \<Rightarrow>
              if length chunk < NonceSize + TagSize
              then (([], Some (IoErr (Refused ''chunk too short''))), r)
              else let nonce = take NonceSize chunk in
                if nonce \<noteq> deriveNonce (csBaseNonce r) (csChunkIdx r)
                then (([], Some (IoErr (Refused ''nonce mismatch''))), r)
                else let r = r\<lparr>csChunkIdx := csChunkIdx r + 1\<rparr> in
                  (case aeOpen (csGcm r) nonce (drop NonceSize chunk) of
                     None \<Rightarrow> (([], Some (IoErr (Wrapped ''decrypt chunk'' (Refused ''cipher: message authentication failed'')))), r)
                   | Some plain \<Rightarrow> emit (r\<lparr>csBuf := plain\<rparr>) n)))"

text \<open>Reading on with the buffer sizes given, until an error or the end.\<close>

fun reads :: "('r \<Rightarrow> nat \<Rightarrow> (bytes \<times> io_err option) \<times> 'r) \<Rightarrow> nat list \<Rightarrow> 'r \<Rightarrow> bytes \<times> io_err option" where
  "reads read [] r = ([], None)"
| "reads read (n # ns) r =
    (case read r n of
       ((out, Some e), _) \<Rightarrow> (out, Some e)
     | ((out, None), r) \<Rightarrow> (case reads read ns r of (rest, e) \<Rightarrow> (out @ rest, e)))"

subsection \<open>What a reader yields\<close>

text \<open>
  A reader denotes the stream it still yields: a read that succeeds takes its bytes off the front
  and makes progress, a read that fails ends it. Reading to the end then gives that stream,
  whatever the buffer sizes, after finitely many reads.
\<close>

locale stream_reader =
  fixes read :: "'r \<Rightarrow> nat \<Rightarrow> (bytes \<times> io_err option) \<times> 'r"
    and ok :: "'r \<Rightarrow> bool"
    and denotes :: "'r \<Rightarrow> stream"
    and work :: "'r \<Rightarrow> nat"
  assumes read_some: "\<lbrakk>ok r; 0 < n; read r n = ((out, None), r')\<rbrakk> \<Longrightarrow>
      ok r' \<and> fst (denotes r) = out @ fst (denotes r') \<and> snd (denotes r) = snd (denotes r') \<and> work r' < work r"
    and read_end: "\<lbrakk>ok r; 0 < n; read r n = ((out, Some e), r')\<rbrakk> \<Longrightarrow> denotes r = (out, e)"
begin

lemma reads_all:
  "\<lbrakk>ok r; list_all ((<) 0) ns; work r < length ns\<rbrakk> \<Longrightarrow> reads read ns r = (fst (denotes r), Some (snd (denotes r)))"
proof (induction ns arbitrary: r)
  case (Cons n ns)
  obtain out e r' where r: "read r n = ((out, e), r')" by (metis prod.exhaust)
  show ?case
  proof (cases e)
    case None
    with r Cons.prems read_some [of r n out r'] have p: "ok r'" "fst (denotes r) = out @ fst (denotes r')"
      "snd (denotes r) = snd (denotes r')" "work r' < work r" by auto
    with Cons show ?thesis by (simp add: r None)
  next
    case (Some e')
    with r Cons.prems read_end [of r n out e' r'] show ?thesis by simp
  qed
qed simp

text \<open>Fewer reads give a part of the stream, and no end but its own.\<close>

lemma reads_end:
  "\<lbrakk>ok r; list_all ((<) 0) ns\<rbrakk> \<Longrightarrow> snd (reads read ns r) \<in> {None, Some (snd (denotes r))}"
proof (induction ns arbitrary: r)
  case (Cons n ns)
  obtain out e r' where r: "read r n = ((out, e), r')" by (metis prod.exhaust)
  show ?case
  proof (cases e)
    case None
    with r Cons.prems read_some [of r n out r'] have "ok r'" "snd (denotes r) = snd (denotes r')" by auto
    with Cons show ?thesis by (simp add: r None split: prod.splits) (metis snd_conv)
  next
    case (Some e')
    with r Cons.prems read_end [of r n out e' r'] show ?thesis by simp
  qed
qed simp

lemma reads_prefix:
  "\<lbrakk>ok r; list_all ((<) 0) ns; reads read ns r = (out, e)\<rbrakk> \<Longrightarrow>
    \<exists>more. fst (denotes r) = out @ more \<and> (e \<noteq> None \<longrightarrow> more = [] \<and> e = Some (snd (denotes r)))"
proof (induction ns arbitrary: r out)
  case (Cons n ns)
  obtain o1 e1 r1 where r: "read r n = ((o1, e1), r1)" by (metis prod.exhaust)
  show ?case
  proof (cases e1)
    case None
    obtain o2 where o2: "reads read ns r1 = (o2, e)" "out = o1 @ o2"
      using Cons.prems(3) by (auto simp: r None split: prod.splits)
    have "ok r1" "fst (denotes r) = o1 @ fst (denotes r1)" "snd (denotes r) = snd (denotes r1)"
      using read_some [of r n o1 r1] Cons.prems r None by auto
    with Cons.IH [OF _ _ o2(1)] Cons.prems(2) show ?thesis by (auto simp: o2(2))
  next
    case (Some e2)
    with r Cons.prems read_end [of r n o1 e2 r1] show ?thesis by auto
  qed
qed simp

end

definition frame :: "AEAD \<Rightarrow> bytes \<Rightarrow> 64 word \<Rightarrow> bytes \<Rightarrow> bytes" where
  "frame gcm base idx plain = deriveNonce base idx @ aeSeal gcm (deriveNonce base idx) plain"

function sealed_stream :: "AEAD \<Rightarrow> bytes \<Rightarrow> nat \<Rightarrow> 64 word \<Rightarrow> stream \<Rightarrow> stream" where
  "sealed_stream gcm base cs idx src =
    (if 0 < cs \<and> cs \<le> length (fst src)
     then let rest = sealed_stream gcm base cs (idx + 1) (drop cs (fst src), snd src) in
       (frame gcm base idx (take cs (fst src)) @ fst rest, snd rest)
     else if src = ([], IoEOF) then ([], IoEOF)
     else case snd src of
       IoErr e \<Rightarrow> ([], IoErr (Wrapped ''read plaintext'' e))
     | _ \<Rightarrow> (frame gcm base idx (fst src), IoEOF))"
  by pat_completeness auto
termination
  by (relation "measure (\<lambda>(_, _, _, _, src). length (fst src))") auto

definition open_chunk :: "AEAD \<Rightarrow> bytes \<Rightarrow> 64 word \<Rightarrow> bytes \<Rightarrow> error + bytes" where
  "open_chunk gcm base idx chunk =
    (if length chunk < ChunkOverhead then Inl (Refused ''chunk too short'')
     else if take NonceSize chunk \<noteq> deriveNonce base idx then Inl (Refused ''nonce mismatch'')
     else case aeOpen gcm (take NonceSize chunk) (drop NonceSize chunk) of
       None \<Rightarrow> Inl (Wrapped ''decrypt chunk'' (Refused ''cipher: message authentication failed''))
     | Some plain \<Rightarrow> Inr plain)"

function opened_stream :: "AEAD \<Rightarrow> bytes \<Rightarrow> nat \<Rightarrow> 64 word \<Rightarrow> stream \<Rightarrow> stream" where
  "opened_stream gcm base cs idx src =
    (if ChunkOverhead + cs \<le> length (fst src)
     then case open_chunk gcm base idx (take (ChunkOverhead + cs) (fst src)) of
       Inl e \<Rightarrow> ([], IoErr e)
     | Inr plain \<Rightarrow>
         let rest = opened_stream gcm base cs (idx + 1) (drop (ChunkOverhead + cs) (fst src), snd src) in
         (plain @ fst rest, snd rest)
     else if src = ([], IoEOF) then ([], IoEOF)
     else case snd src of
       IoErr e \<Rightarrow> ([], IoErr (Wrapped ''read ciphertext'' e))
     | _ \<Rightarrow> (case open_chunk gcm base idx (fst src) of Inl e \<Rightarrow> ([], IoErr e) | Inr plain \<Rightarrow> (plain, IoEOF)))"
  by pat_completeness auto
termination
  by (relation "measure (\<lambda>(_, _, _, _, src). length (fst src))") (auto simp: ChunkOverhead_def NonceSize_def)

declare sealed_stream.simps [simp del] opened_stream.simps [simp del]

text \<open>The rest of a chunk reader's output: what is buffered, then what the source still gives.\<close>

definition enc_denotes :: "encryptReader \<Rightarrow> stream" where
  "enc_denotes r =
    (let rest = (if \<not> csHasBufs r \<or> csSrcDone r then ([], IoEOF)
                 else sealed_stream (csGcm r) (csBaseNonce r) (csChunkSize r) (csChunkIdx r) (csSrc r))
     in (erHeader r @ csBuf r @ fst rest, snd rest))"

definition dec_denotes :: "chunkStream \<Rightarrow> stream" where
  "dec_denotes r =
    (let rest = (if \<not> csHasBufs r \<or> csSrcDone r then ([], IoEOF)
                 else opened_stream (csGcm r) (csBaseNonce r) (csChunkSize r) (csChunkIdx r) (csSrc r))
     in (csBuf r @ fst rest, snd rest))"

definition reader_ok :: "'a chunkStream_scheme \<Rightarrow> bool" where
  "reader_ok r \<longleftrightarrow> 0 < csChunkSize r \<and> length (csBaseNonce r) = NonceSize \<and> (\<not> csHasBufs r \<longrightarrow> csBuf r = [])"

lemma length_deriveNonce: "length base = NonceSize \<Longrightarrow> length (deriveNonce base idx) = NonceSize"
  by (simp add: deriveNonce_def NonceSize_def)

lemma frame_ne: "length base = NonceSize \<Longrightarrow> frame gcm base idx plain \<noteq> []"
  using length_deriveNonce [of base idx] by (auto simp: frame_def NonceSize_def)

lemma sealed_full:
  "\<lbrakk>0 < cs; cs \<le> length bs\<rbrakk> \<Longrightarrow> sealed_stream gcm base cs idx (bs, fin) =
     (frame gcm base idx (take cs bs) @ fst (sealed_stream gcm base cs (idx + 1) (drop cs bs, fin)),
      snd (sealed_stream gcm base cs (idx + 1) (drop cs bs, fin)))"
  by (subst sealed_stream.simps) (simp add: Let_def)

lemma sealed_short:
  "length bs < cs \<Longrightarrow> sealed_stream gcm base cs idx (bs, fin) =
     (case fin of IoErr e \<Rightarrow> ([], IoErr (Wrapped ''read plaintext'' e))
      | _ \<Rightarrow> if (bs, fin) = ([], IoEOF) then ([], IoEOF) else (frame gcm base idx bs, IoEOF))"
  by (subst sealed_stream.simps) (auto split: io_err.splits)

lemma opened_full:
  "ChunkOverhead + cs \<le> length bs \<Longrightarrow> opened_stream gcm base cs idx (bs, fin) =
     (case open_chunk gcm base idx (take (ChunkOverhead + cs) bs) of
        Inl e \<Rightarrow> ([], IoErr e)
      | Inr plain \<Rightarrow> (plain @ fst (opened_stream gcm base cs (idx + 1) (drop (ChunkOverhead + cs) bs, fin)),
                     snd (opened_stream gcm base cs (idx + 1) (drop (ChunkOverhead + cs) bs, fin))))"
  by (subst opened_stream.simps) (simp add: Let_def split: sum.splits)

lemma opened_short:
  "length bs < ChunkOverhead + cs \<Longrightarrow> opened_stream gcm base cs idx (bs, fin) =
     (case fin of IoErr e \<Rightarrow> ([], IoErr (Wrapped ''read ciphertext'' e))
      | _ \<Rightarrow> if (bs, fin) = ([], IoEOF) then ([], IoEOF)
            else (case open_chunk gcm base idx bs of Inl e \<Rightarrow> ([], IoErr e) | Inr plain \<Rightarrow> (plain, IoEOF)))"
  by (subst opened_stream.simps) (auto split: io_err.splits)

text \<open>The chunk a fill delivers, by how the source goes on.\<close>

lemma fill_full: "\<lbrakk>csSrc s = (bs, fin); 0 < want; want \<le> length bs\<rbrakk> \<Longrightarrow>
    fill s want what = (Inr (take want bs), s\<lparr>csSrc := (drop want bs, fin)\<rparr>)"
  by (auto simp: fill_def io_ReadFull_def Let_def)

lemma fill_short: "\<lbrakk>csSrc s = (bs, fin); length bs < want\<rbrakk> \<Longrightarrow>
    fill s want what =
      (case fin of IoErr e \<Rightarrow> (Inl (IoErr (Wrapped (''read '' @ what) e)), s\<lparr>csSrc := ([], fin)\<rparr>)
       | _ \<Rightarrow> if (bs, fin) = ([], IoEOF) then (Inl IoEOF, returnBufs (s\<lparr>csSrc := ([], fin)\<rparr>))
             else (Inr bs, s\<lparr>csSrc := ([], fin), csSrcDone := True\<rparr>))"
  by (auto simp: fill_def io_ReadFull_def Let_def split: io_err.splits)

text \<open>A read that only hands out buffered bytes.\<close>

lemma enc_emit:
  assumes "emit r n = ((out, e), r')" "erHeader r = []" "csHasBufs r" "csBuf r \<noteq> []" "0 < n" "reader_ok r"
  shows "e = None \<and> reader_ok r' \<and> fst (enc_denotes r) = out @ fst (enc_denotes r') \<and>
    snd (enc_denotes r) = snd (enc_denotes r') \<and> out \<noteq> []"
  using assms by (auto simp: emit_def enc_denotes_def reader_ok_def Let_def)

lemma dec_emit:
  assumes "emit r n = ((out, e), r')" "csHasBufs r" "reader_ok r"
  shows "e = None \<and> reader_ok r' \<and> fst (dec_denotes r) = out @ fst (dec_denotes r') \<and>
    snd (dec_denotes r) = snd (dec_denotes r') \<and> csSrc r' = csSrc r \<and> csBuf r' = drop n (csBuf r)"
  using assms by (auto simp: emit_def dec_denotes_def reader_ok_def Let_def)

text \<open>A read that seals the next chunk goes on as a read of the chunk it buffered.\<close>

lemma enc_chunk:
  assumes "reader_ok r" "erHeader r = []" "csHasBufs r" "csBuf r = []" "\<not> csSrcDone r"
  shows "(\<exists>e r1. encryptReader_Read r n = (([], Some e), r1) \<and> enc_denotes r = ([], e)) \<or>
    (\<exists>r1. encryptReader_Read r n = emit r1 n \<and> enc_denotes r1 = enc_denotes r \<and> reader_ok r1 \<and>
       erHeader r1 = [] \<and> csHasBufs r1 \<and> csBuf r1 \<noteq> [])"
proof -
  define cs where "cs = csChunkSize r"
  define f where "f plain = frame (csGcm r) (csBaseNonce r) (csChunkIdx r) plain" for plain
  obtain bs fin where src: "csSrc r = (bs, fin)" by (cases "csSrc r")
  have ne: "f plain \<noteq> []" and cs: "0 < cs" for plain
    using assms(1) by (simp_all add: f_def cs_def reader_ok_def frame_ne)
  have d: "drain r n = None" using assms by (simp add: drain_def)
  have rd: "encryptReader_Read r n = (case fill r cs ''plaintext'' of
      (Inl err, r1) \<Rightarrow> (([], Some err), r1)
    | (Inr plain, r1) \<Rightarrow> emit (r1\<lparr>csChunkIdx := csChunkIdx r1 + 1, csBuf := frame (csGcm r1) (csBaseNonce r1) (csChunkIdx r1) plain\<rparr>) n)"
    using assms(2) by (simp add: encryptReader_Read_def d cs_def frame_def Let_def split: sum.splits prod.splits)
  show ?thesis
  proof (cases "cs \<le> length bs")
    case True
    define r1 where "r1 = r\<lparr>csSrc := (drop cs bs, fin), csChunkIdx := csChunkIdx r + 1, csBuf := f (take cs bs)\<rparr>"
    have "encryptReader_Read r n = emit r1 n"
      using rd fill_full [OF src cs True] by (simp add: r1_def f_def)
    moreover have "enc_denotes r1 = enc_denotes r"
      using assms True src cs by (simp add: enc_denotes_def r1_def f_def cs_def sealed_full Let_def)
    ultimately show ?thesis using assms ne by (intro disjI2 exI [of _ r1]) (simp add: r1_def reader_ok_def)
  next
    case False
    then have short: "length bs < cs" by simp
    note fs = fill_short [OF src short, of "''plaintext''"] sealed_short [OF short]
    show ?thesis
    proof (cases "(bs, fin) = ([], IoEOF) \<or> (\<exists>e. fin = IoErr e)")
      case True
      with assms rd fs src show ?thesis by (auto simp: enc_denotes_def cs_def)
    next
      case ok: False
      define r1 where "r1 = r\<lparr>csSrc := ([], fin), csSrcDone := True, csChunkIdx := csChunkIdx r + 1, csBuf := f bs\<rparr>"
      have "encryptReader_Read r n = emit r1 n"
        using rd fs ok by (cases fin) (auto simp: r1_def f_def)
      moreover have "enc_denotes r1 = enc_denotes r"
        using assms ok src fs by (cases fin) (auto simp: enc_denotes_def r1_def f_def cs_def Let_def)
      ultimately show ?thesis using assms ne by (intro disjI2 exI [of _ r1]) (simp add: r1_def reader_ok_def)
    qed
  qed
qed

lemma enc_read_cases:
  assumes "reader_ok r" "encryptReader_Read r n = ((out, e), r')" "0 < n"
  shows "(e = None \<and> reader_ok r' \<and> fst (enc_denotes r) = out @ fst (enc_denotes r') \<and>
           snd (enc_denotes r) = snd (enc_denotes r') \<and> out \<noteq> []) \<or>
         (\<exists>e'. e = Some e' \<and> enc_denotes r = (out, e'))"
proof -
  consider (header) "erHeader r \<noteq> []" | (buffered) "erHeader r = []" "csHasBufs r" "csBuf r \<noteq> []"
    | (ended) "erHeader r = []" "csBuf r = []" "\<not> csHasBufs r \<or> csSrcDone r"
    | (chunk) "erHeader r = []" "csHasBufs r" "csBuf r = []" "\<not> csSrcDone r"
    using assms(1) by (auto simp: reader_ok_def)
  then show ?thesis
  proof cases
    case header
    with assms show ?thesis by (auto simp: encryptReader_Read_def enc_denotes_def reader_ok_def Let_def)
  next
    case buffered
    with assms have "emit r n = ((out, e), r')" by (simp add: encryptReader_Read_def drain_def)
    from enc_emit [OF this buffered assms(3,1)] show ?thesis by blast
  next
    case ended
    with assms show ?thesis
      by (auto simp: encryptReader_Read_def drain_def enc_denotes_def split: if_splits)
  next
    case chunk
    from enc_chunk [OF assms(1) chunk, of n] show ?thesis
    proof (elim disjE exE conjE)
      fix r1
      assume r1: "encryptReader_Read r n = emit r1 n" "enc_denotes r1 = enc_denotes r" "reader_ok r1"
        "erHeader r1 = []" "csHasBufs r1" "csBuf r1 \<noteq> []"
      with assms(2) have "emit r1 n = ((out, e), r')" by simp
      from enc_emit [OF this r1(4-6) assms(3) r1(3)] r1(2) show ?thesis by simp
    qed (use assms(2) in auto)
  qed
qed

text \<open>The same for the opening reader.\<close>

lemma dec_chunk:
  assumes "reader_ok r" "csHasBufs r" "csBuf r = []" "\<not> csSrcDone r"
  shows "(\<exists>e r1. decryptReader_Read r n = (([], Some e), r1) \<and> dec_denotes r = ([], e)) \<or>
    (\<exists>r1. decryptReader_Read r n = emit r1 n \<and> dec_denotes r1 = dec_denotes r \<and> reader_ok r1 \<and> csHasBufs r1 \<and>
       length (fst (csSrc r1)) < length (fst (csSrc r)))"
proof -
  define want where "want = ChunkOverhead + csChunkSize r"
  define f where "f chunk = open_chunk (csGcm r) (csBaseNonce r) (csChunkIdx r) chunk" for chunk
  obtain bs fin where src: "csSrc r = (bs, fin)" by (cases "csSrc r")
  have w: "0 < want" by (simp add: want_def ChunkOverhead_def NonceSize_def)
  have short_chunk: "f [] = Inl (Refused ''chunk too short'')"
    by (simp add: f_def open_chunk_def ChunkOverhead_def NonceSize_def)
  have d: "drain r n = None" using assms by (simp add: drain_def)
  have rd: "decryptReader_Read r n = (case fill r want ''ciphertext'' of
      (Inl err, r1) \<Rightarrow> (([], Some err), r1)
    | (Inr chunk, r1) \<Rightarrow> (case open_chunk (csGcm r1) (csBaseNonce r1) (csChunkIdx r1) chunk of
         Inl e \<Rightarrow> (([], Some (IoErr e)),
           if length chunk < ChunkOverhead \<or> take NonceSize chunk \<noteq> deriveNonce (csBaseNonce r1) (csChunkIdx r1) then r1
           else r1\<lparr>csChunkIdx := csChunkIdx r1 + 1\<rparr>)
       | Inr plain \<Rightarrow> emit (r1\<lparr>csChunkIdx := csChunkIdx r1 + 1, csBuf := plain\<rparr>) n))"
    by (simp add: decryptReader_Read_def d want_def open_chunk_def ChunkOverhead_def Let_def add.commute add.left_commute
        split: sum.splits prod.splits option.splits)
  show ?thesis
  proof (cases "want \<le> length bs")
    case True
    show ?thesis
    proof (cases "f (take want bs)")
      case (Inl e)
      with True assms rd fill_full [OF src w True] src show ?thesis
        by (auto simp: dec_denotes_def f_def want_def opened_full)
    next
      case (Inr plain)
      define r1 where "r1 = r\<lparr>csSrc := (drop want bs, fin), csChunkIdx := csChunkIdx r + 1, csBuf := plain\<rparr>"
      have "decryptReader_Read r n = emit r1 n"
        using rd fill_full [OF src w True] Inr by (simp add: r1_def f_def)
      moreover have "dec_denotes r1 = dec_denotes r"
        using assms True src Inr by (simp add: dec_denotes_def r1_def f_def want_def opened_full Let_def)
      ultimately show ?thesis
        using assms src True w by (intro disjI2 exI [of _ r1]) (simp add: r1_def reader_ok_def)
    qed
  next
    case False
    then have short: "length bs < want" by simp
    note fs = fill_short [OF src short, of "''ciphertext''"] opened_short [OF short [unfolded want_def]]
    show ?thesis
    proof (cases "(bs, fin) = ([], IoEOF) \<or> (\<exists>e. fin = IoErr e) \<or> (\<exists>e. f bs = Inl e)")
      case True
      with assms rd fs src show ?thesis
        by (cases fin) (auto simp: dec_denotes_def f_def)
    next
      case ok: False
      then obtain plain where plain: "f bs = Inr plain" by (cases "f bs") auto
      define r1 where "r1 = r\<lparr>csSrc := ([], fin), csSrcDone := True, csChunkIdx := csChunkIdx r + 1, csBuf := plain\<rparr>"
      have "decryptReader_Read r n = emit r1 n"
        using rd fs ok plain by (cases fin) (auto simp: r1_def f_def)
      moreover have "dec_denotes r1 = dec_denotes r"
        using assms ok src fs plain by (cases fin) (auto simp: dec_denotes_def r1_def f_def Let_def)
      moreover have "bs \<noteq> []" using plain short_chunk by auto
      ultimately show ?thesis using assms src by (intro disjI2 exI [of _ r1]) (simp add: r1_def reader_ok_def)
    qed
  qed
qed

lemma dec_read_cases:
  assumes "reader_ok r" "decryptReader_Read r n = ((out, e), r')" "0 < n"
  shows "(e = None \<and> reader_ok r' \<and> fst (dec_denotes r) = out @ fst (dec_denotes r') \<and> snd (dec_denotes r) = snd (dec_denotes r') \<and>
           length (fst (csSrc r')) \<le> length (fst (csSrc r)) \<and> (out = [] \<longrightarrow> length (fst (csSrc r')) < length (fst (csSrc r)))) \<or>
         (\<exists>e'. e = Some e' \<and> dec_denotes r = (out, e'))"
proof -
  consider (buffered) "csHasBufs r" "csBuf r \<noteq> []"
    | (ended) "csBuf r = []" "\<not> csHasBufs r \<or> csSrcDone r"
    | (chunk) "csHasBufs r" "csBuf r = []" "\<not> csSrcDone r"
    using assms(1) by (auto simp: reader_ok_def)
  then show ?thesis
  proof cases
    case buffered
    with assms have e: "emit r n = ((out, e), r')" by (simp add: decryptReader_Read_def drain_def)
    then have "out \<noteq> []" using buffered assms(3) by (auto simp: emit_def)
    with dec_emit [OF e buffered(1) assms(1)] show ?thesis by auto
  next
    case ended
    with assms show ?thesis
      by (auto simp: decryptReader_Read_def drain_def dec_denotes_def split: if_splits)
  next
    case chunk
    from dec_chunk [OF assms(1) chunk, of n] show ?thesis
    proof (elim disjE exE conjE)
      fix r1
      assume r1: "decryptReader_Read r n = emit r1 n" "dec_denotes r1 = dec_denotes r" "reader_ok r1" "csHasBufs r1"
        "length (fst (csSrc r1)) < length (fst (csSrc r))"
      with assms(2) have "emit r1 n = ((out, e), r')" by simp
      from dec_emit [OF this r1(4,3)] r1(2,5) show ?thesis by simp
    qed (use assms(2) in auto)
  qed
qed

interpretation sealing: stream_reader encryptReader_Read reader_ok enc_denotes "\<lambda>r. length (fst (enc_denotes r))"
proof
  fix r r' :: encryptReader and out e and n :: nat
  assume r: "reader_ok r" "0 < n"
  show "reader_ok r' \<and> fst (enc_denotes r) = out @ fst (enc_denotes r') \<and> snd (enc_denotes r) = snd (enc_denotes r') \<and>
      length (fst (enc_denotes r')) < length (fst (enc_denotes r))"
    if "encryptReader_Read r n = ((out, None), r')"
    using enc_read_cases [OF r(1) that r(2)] by auto
  show "enc_denotes r = (out, e)" if "encryptReader_Read r n = ((out, Some e), r')"
    using enc_read_cases [OF r(1) that r(2)] by auto
qed

interpretation unsealing: stream_reader decryptReader_Read reader_ok dec_denotes
  "\<lambda>r. length (fst (dec_denotes r)) + length (fst (csSrc r))"
proof
  fix r r' :: chunkStream and out e and n :: nat
  assume r: "reader_ok r" "0 < n"
  show "reader_ok r' \<and> fst (dec_denotes r) = out @ fst (dec_denotes r') \<and> snd (dec_denotes r) = snd (dec_denotes r') \<and>
      length (fst (dec_denotes r')) + length (fst (csSrc r')) < length (fst (dec_denotes r)) + length (fst (csSrc r))"
    if "decryptReader_Read r n = ((out, None), r')"
    using dec_read_cases [OF r(1) that r(2)] by (cases out) auto
  show "dec_denotes r = (out, e)" if "decryptReader_Read r n = ((out, Some e), r')"
    using dec_read_cases [OF r(1) that r(2)] by auto
qed

subsection \<open>Opening what was sealed\<close>

text \<open>What the code relies on of the AEAD: opening inverts sealing and a tag is \<open>TagSize\<close> bytes.\<close>

definition aead_laws :: "AEAD \<Rightarrow> bool" where
  "aead_laws gcm \<longleftrightarrow> (\<forall>nonce plain. length nonce = NonceSize \<longrightarrow>
     length (aeSeal gcm nonce plain) = length plain + TagSize \<and> aeOpen gcm nonce (aeSeal gcm nonce plain) = Some plain)"

lemma length_frame: "\<lbrakk>aead_laws gcm; length base = NonceSize\<rbrakk> \<Longrightarrow> length (frame gcm base idx plain) = ChunkOverhead + length plain"
  by (simp add: frame_def aead_laws_def length_deriveNonce ChunkOverhead_def)

lemma open_frame: "\<lbrakk>aead_laws gcm; length base = NonceSize\<rbrakk> \<Longrightarrow> open_chunk gcm base idx (frame gcm base idx plain) = Inr plain"
  using length_frame [of gcm base idx plain] length_deriveNonce [of base idx]
  by (simp add: open_chunk_def) (simp add: frame_def aead_laws_def)

lemma opened_sealed:
  assumes "aead_laws gcm" "length base = NonceSize" "0 < cs"
  shows "opened_stream gcm base cs idx (sealed_stream gcm base cs idx (plain, IoEOF)) = (plain, IoEOF)"
  using assms(3)
proof (induction "length plain" arbitrary: plain idx rule: less_induct)
  case less
  note frame = length_frame [OF assms(1,2)] open_frame [OF assms(1,2)]
  show ?case
  proof (cases "cs \<le> length plain")
    case True
    define rest where "rest = sealed_stream gcm base cs (idx + 1) (drop cs plain, IoEOF)"
    have "length (frame gcm base idx (take cs plain)) = ChunkOverhead + cs" using frame True by simp
    moreover have "opened_stream gcm base cs (idx + 1) rest = (drop cs plain, IoEOF)"
      using less True assms(3) by (simp add: rest_def)
    ultimately show ?thesis
      using True less.prems frame by (simp add: sealed_full opened_full flip: rest_def)
  next
    case False
    then show ?thesis
      using frame [of idx plain] frame_ne [OF assms(2)] by (simp add: sealed_short opened_short)
  qed
qed

lemma length_header: "length base = NonceSize \<Longrightarrow> length (envelope_header cs base) = headerLen"
  by (simp add: envelope_header_def headerMagic_def headerLen_def HeaderSize_def NonceSize_def)

lemma parse_envelope_header:
  assumes "length base = NonceSize" "0 < cs" "cs \<le> MaxEncryptionChunkSize"
  shows "parseHeaderBytes (envelope_header cs base) = Inr (cs, base)"
proof -
  have "be_nat (be_bytes 4 cs) = cs"
    using assms(3) by (intro be_nat_be_bytes) (simp add: MaxEncryptionChunkSize_def)
  then show ?thesis
    using assms length_header [OF assms(1)]
    by (simp add: parseHeaderBytes_def HasEnvelopeMagic_def envelope_header_def headerMagic_def NonceSize_def nth_append)
qed

end
