(* ===== verification/ByteRange.thy ===== *)
theory ByteRange
  imports KeyRange StoreTypes
begin

text \<open>
  HTTP byte ranges (\<open>util/byterange\<close>): parsing a Range header against an object's size and
  rendering one. A parsed range lies inside the object, and a rendered range parses back,
  clamped to the object.
\<close>

subsection \<open>Decimal numbers\<close>

definition is_digit :: "char \<Rightarrow> bool" where
  "is_digit c \<longleftrightarrow> 48 \<le> byte c \<and> byte c \<le> 57"

definition digits_value :: "string \<Rightarrow> nat" where
  "digits_value s = foldl (\<lambda>a c. a * 10 + (byte c - 48)) 0 s"

text \<open>\<open>strconv.ParseInt(s, 10, 64)\<close>: an optional sign and digits, in the range of an \<open>int64\<close>.\<close>

definition strconv_ParseInt :: "string \<Rightarrow> int option" where
  "strconv_ParseInt s =
    (let neg = (take 1 s = ''-''); ds = (if take 1 s \<in> {''-'', ''+''} then drop 1 s else s) in
     if ds = [] \<or> \<not> list_all is_digit ds then None
     else let v = (if neg then - int (digits_value ds) else int (digits_value ds)) in
       if v < - (2 ^ 63) \<or> 2 ^ 63 - 1 < v then None else Some v)"

lemma nat_digits_digits: "list_all is_digit (nat_digits n) \<and> nat_digits n \<noteq> [] \<and> digits_value (nat_digits n) = n"
proof (induction n rule: nat_digits.induct)
  case (1 n)
  have d: "is_digit (char_of (48 + m))" "byte (char_of (48 + m)) = 48 + m" if "m < 10" for m :: nat
    using that by (simp_all add: is_digit_def byte_def)
  show ?case
  proof (cases "n < 10")
    case True
    with d show ?thesis by (simp add: nat_digits.simps [of n] digits_value_def)
  next
    case False
    with 1 d [of "n mod 10"] show ?thesis by (simp add: nat_digits.simps [of n] digits_value_def)
  qed
qed

lemma digit_no_sign: "is_digit c \<Longrightarrow> c \<noteq> CHR ''-'' \<and> c \<noteq> CHR ''+''"
  by (auto simp: is_digit_def byte_def of_char_def)

lemma ParseInt_Itoa:
  assumes "0 \<le> n" "n < 2 ^ 63"
  shows "strconv_ParseInt (strconv_Itoa n) = Some n"
proof -
  obtain c s where c: "nat_digits (nat n) = c # s" "is_digit c"
    using nat_digits_digits [of "nat n"] by (cases "nat_digits (nat n)") auto
  with assms nat_digits_digits [of "nat n"] digit_no_sign [of c] show ?thesis
    by (simp add: strconv_ParseInt_def strconv_Itoa_def Let_def)
qed

lemma Itoa_no_dash:
  assumes "0 \<le> n"
  shows "strings_Cut ''-'' (strconv_Itoa n @ ''-'' @ rest) = Some (strconv_Itoa n, rest)"
proof -
  have "strings_Cut ''-'' (ds @ ''-'' @ rest) = Some (ds, rest)" if "list_all is_digit ds" for ds
    using that by (induction ds) (auto dest: digit_no_sign)
  with assms nat_digits_digits show ?thesis by (simp add: strconv_Itoa_def)
qed

subsection \<open>Ranges\<close>

definition Parse :: "string \<Rightarrow> int \<Rightarrow> (int \<times> int) option" where
  "Parse header sz =
    (case strings_CutPrefix header ''bytes='' of
       None \<Rightarrow> None
     | Some spec \<Rightarrow>
         (case strings_Cut ''-'' spec of
            None \<Rightarrow> None
          | Some (from, to) \<Rightarrow>
              if from = [] then
                (case strconv_ParseInt to of
                   None \<Rightarrow> None
                 | Some n \<Rightarrow> if n \<le> 0 then None else Some (max (sz - n) 0, sz - 1))
              else
                (case strconv_ParseInt from of
                   None \<Rightarrow> None
                 | Some start \<Rightarrow>
                     if start < 0 \<or> start \<ge> sz then None
                     else if to = [] then Some (start, sz - 1)
                     else case strconv_ParseInt to of
                       None \<Rightarrow> None
                     | Some end' \<Rightarrow> if end' < start then None else Some (start, min end' (sz - 1)))))"

definition Header :: "int \<Rightarrow> int \<Rightarrow> string" where
  "Header start end' = ''bytes='' @ strconv_Itoa start @ ''-'' @ strconv_Itoa end'"

definition ContentRange :: "int \<Rightarrow> int \<Rightarrow> int \<Rightarrow> string" where
  "ContentRange start end' sz = ''bytes '' @ strconv_Itoa start @ ''-'' @ strconv_Itoa end' @ ''/'' @ strconv_Itoa sz"

lemma Parse_bounds: "\<lbrakk>Parse header sz = Some (s, e); 0 < sz\<rbrakk> \<Longrightarrow> 0 \<le> s \<and> s \<le> e \<and> e < sz"
  by (auto simp: Parse_def split: option.splits if_splits prod.splits)

lemma Parse_Header:
  assumes "0 \<le> s" "s \<le> e" "e < 2 ^ 63" "s < sz"
  shows "Parse (Header s e) sz = Some (s, min e (sz - 1))"
proof -
  have "strconv_Itoa s \<noteq> []" "strconv_Itoa e \<noteq> []"
    using assms nat_digits_digits by (auto simp: strconv_Itoa_def)
  moreover have "strings_Cut ''-'' (strconv_Itoa s @ ''-'' @ strconv_Itoa e) = Some (strconv_Itoa s, strconv_Itoa e)"
    using assms by (intro Itoa_no_dash)
  ultimately show ?thesis
    using assms ParseInt_Itoa [of s] ParseInt_Itoa [of e]
    by (simp add: Parse_def Header_def strings_CutPrefix_def)
qed

end
