(* ===== verification/Encryption.thy ===== *)
theory Encryption
  imports Envelope ByteRange
begin

text \<open>
  Envelope encryption of stored objects (\<open>encryption/encryption.go\<close>, \<open>key.go\<close>,
  \<open>range.go\<close>): data keys wrapped under a master key, key rotation, sealing a body, opening it
  whole or over a byte range. A range read fetches only the chunks that hold the range, at offsets
  computed from the sizes the ledger records.

  \<open>newGCM\<close> (AES-256-GCM of Go's library) and the key fingerprint (HMAC-SHA256) are arguments.
\<close>

subsection \<open>Sizes and ranges\<close>

text \<open>Go's integer division, which truncates, by a positive number.\<close>

definition go_div :: "int \<Rightarrow> int \<Rightarrow> int" where
  "go_div a b = (if a < 0 then - ((- a) div b) else a div b)"

fun bits_Len64 :: "nat \<Rightarrow> nat" where
  "bits_Len64 x = (if x = 0 then 0 else Suc (bits_Len64 (x div 2)))"

declare bits_Len64.simps [simp del]

definition ciphertextSizeExact :: "int \<Rightarrow> int \<Rightarrow> int" where
  "ciphertextSizeExact plaintextSize chunkSize =
    (if plaintextSize = 0 then HeaderSize
     else
       let fullChunks = plaintextSize div chunkSize;
           remainder = plaintextSize mod chunkSize;
           total = HeaderSize + fullChunks * (int ChunkOverhead + chunkSize)
       in if remainder > 0 then total + (int ChunkOverhead + remainder) else total)"

definition chunkSizeOf :: "int \<Rightarrow> int \<Rightarrow> error + int" where
  "chunkSizeOf plaintextSize ciphertextSize =
    (let chunks = go_div (ciphertextSize - HeaderSize - plaintextSize) (int ChunkOverhead) in
     if chunks > 0 \<and> plaintextSize > 0 then
       let perChunk = (plaintextSize + chunks - 1) div chunks;
           cs = 2 ^ bits_Len64 (nat (perChunk - 1))
       in if ciphertextSizeExact plaintextSize cs = ciphertextSize then Inr cs
          else Inl (Refused ''no chunk size gives the envelope'')
     else Inl (Refused ''no chunk size gives the envelope''))"

record RangeResult =
  rrBackendRange :: string
  rrChunkSize :: int
  rrStartChunk :: "64 word"
  rrSliceStart :: int
  rrSliceLen :: int

definition CiphertextRange :: "int \<Rightarrow> int \<Rightarrow> int \<Rightarrow> int \<Rightarrow> error + RangeResult" where
  "CiphertextRange start end' plaintextSize ciphertextSize =
    (if start < 0 \<or> end' < start then Inl (Refused ''invalid range'')
     else case chunkSizeOf plaintextSize ciphertextSize of
       Inl err \<Rightarrow> Inl err
     | Inr cs \<Rightarrow>
         let co = int ChunkOverhead;
             startChunk = start div cs;
             endChunk = end' div cs;
             ctStart = HeaderSize + startChunk * (cs + co);
             ctEnd = HeaderSize + (endChunk + 1) * (cs + co) - 1
         in Inr \<lparr>rrBackendRange = Header ctStart ctEnd, rrChunkSize = cs, rrStartChunk = word_of_int startChunk,
                 rrSliceStart = start mod cs, rrSliceLen = end' - start + 1\<rparr>)"

subsection \<open>Key providers\<close>

record KeyProvider =
  kpWrapDEK :: "bytes \<Rightarrow> bytes \<Rightarrow> error + bytes \<times> string"
  kpUnwrapDEK :: "bytes \<Rightarrow> string \<Rightarrow> error + bytes"
  kpKeyID :: string

definition KeySize :: nat where "KeySize = 32"

definition aesGCMWrap :: "(bytes \<Rightarrow> error + AEAD) \<Rightarrow> bytes \<Rightarrow> bytes \<Rightarrow> bytes \<Rightarrow> error + bytes" where
  "aesGCMWrap newGCM masterKey nonce dek =
    (case newGCM masterKey of Inl err \<Rightarrow> Inl err | Inr gcm \<Rightarrow> Inr (nonce @ aeSeal gcm nonce dek))"

definition aesGCMUnwrap :: "(bytes \<Rightarrow> error + AEAD) \<Rightarrow> bytes \<Rightarrow> bytes \<Rightarrow> error + bytes" where
  "aesGCMUnwrap newGCM masterKey wrapped =
    (case newGCM masterKey of
       Inl err \<Rightarrow> Inl err
     | Inr gcm \<Rightarrow>
         if length wrapped < NonceSize then Inl (Refused ''wrapped DEK too short'')
         else case aeOpen gcm (take NonceSize wrapped) (drop NonceSize wrapped) of
           None \<Rightarrow> Inl (Refused ''cipher: message authentication failed'')
         | Some dek \<Rightarrow> Inr dek)"

definition StaticKeyProvider :: "(bytes \<Rightarrow> error + AEAD) \<Rightarrow> (bytes \<Rightarrow> string) \<Rightarrow> bytes \<Rightarrow> KeyProvider" where
  "StaticKeyProvider newGCM fingerprint key =
    \<lparr>kpWrapDEK = (\<lambda>nonce dek. case aesGCMWrap newGCM key nonce dek of Inl err \<Rightarrow> Inl err | Inr w \<Rightarrow> Inr (w, fingerprint key)),
     kpUnwrapDEK = (\<lambda>wrapped _. aesGCMUnwrap newGCM key wrapped),
     kpKeyID = fingerprint key\<rparr>"

definition NewStaticKeyProvider ::
  "(bytes \<Rightarrow> error + AEAD) \<Rightarrow> (bytes \<Rightarrow> string) \<Rightarrow> bytes \<Rightarrow> error + KeyProvider" where
  "NewStaticKeyProvider newGCM fingerprint key =
    (if length key \<noteq> KeySize then Inl (Refused ''master key must be 32 bytes'')
     else Inr (StaticKeyProvider newGCM fingerprint key))"

text \<open>The loop over every configured key, and the lookup by ID, in which a later provider of an ID replaces an earlier one.\<close>

fun unwrap_any :: "KeyProvider list \<Rightarrow> bytes \<Rightarrow> string \<Rightarrow> error + bytes" where
  "unwrap_any [] wrapped keyID = Inl (Refused ''no configured key unwraps key ID'')"
| "unwrap_any (p # ps) wrapped keyID =
    (case kpUnwrapDEK p wrapped keyID of Inr dek \<Rightarrow> Inr dek | Inl _ \<Rightarrow> unwrap_any ps wrapped keyID)"

definition MultiKeyProvider_UnwrapDEK :: "KeyProvider \<Rightarrow> KeyProvider list \<Rightarrow> bytes \<Rightarrow> string \<Rightarrow> error + bytes" where
  "MultiKeyProvider_UnwrapDEK primary previous wrapped keyID =
    (if keyID = kpKeyID primary then kpUnwrapDEK primary wrapped keyID
     else case map_of (rev (map (\<lambda>p. (kpKeyID p, p)) previous)) keyID of
       Some prev \<Rightarrow> kpUnwrapDEK prev wrapped keyID
     | None \<Rightarrow> unwrap_any (primary # previous) wrapped keyID)"

definition NewMultiKeyProvider :: "KeyProvider \<Rightarrow> KeyProvider list \<Rightarrow> KeyProvider" where
  "NewMultiKeyProvider primary previous =
    \<lparr>kpWrapDEK = kpWrapDEK primary, kpUnwrapDEK = MultiKeyProvider_UnwrapDEK primary previous, kpKeyID = kpKeyID primary\<rparr>"

subsection \<open>Packed key data\<close>

definition ErrInvalidKeyData :: error where
  "ErrInvalidKeyData = Refused ''encryption key data too short''"

definition PackKeyData :: "bytes \<Rightarrow> bytes \<Rightarrow> bytes" where
  "PackKeyData baseNonce wrappedDEK = baseNonce @ wrappedDEK"

definition UnpackKeyData :: "bytes \<Rightarrow> error + bytes \<times> bytes" where
  "UnpackKeyData data =
    (if length data \<le> NonceSize then Inl ErrInvalidKeyData else Inr (take NonceSize data, drop NonceSize data))"

definition SameEncryptionOperation :: "bytes \<Rightarrow> bytes \<Rightarrow> bool" where
  "SameEncryptionOperation header packedKey =
    (case parseHeaderBytes header of
       Inl _ \<Rightarrow> False
     | Inr (_, headerNonce) \<Rightarrow>
         (case UnpackKeyData packedKey of Inl _ \<Rightarrow> False | Inr (storedNonce, _) \<Rightarrow> headerNonce = storedNonce))"

subsection \<open>Sealing and opening a body\<close>

record Encryptor =
  encProvider :: KeyProvider
  encChunkSize :: nat

record EncryptResult =
  resBody :: encryptReader
  resCiphertextSize :: int
  resWrappedDEK :: bytes
  resKeyID :: string
  resBaseNonce :: bytes

definition NewEncryptor :: "KeyProvider \<Rightarrow> int \<Rightarrow> error + Encryptor" where
  "NewEncryptor provider chunkSize =
    (if chunkSize \<le> 0 then Inl (Refused ''encryption chunk size must be positive'')
     else Inr \<lparr>encProvider = provider, encChunkSize = nat chunkSize\<rparr>)"

definition EncryptWithDEK ::
  "(bytes \<Rightarrow> error + AEAD) \<Rightarrow> bytes \<Rightarrow> Encryptor \<Rightarrow> stream \<Rightarrow> int \<Rightarrow> bytes \<Rightarrow> bytes \<Rightarrow> string \<Rightarrow> error + EncryptResult" where
  "EncryptWithDEK newGCM baseNonce e body plaintextSize dek wrappedDEK keyID =
    (case newGCM dek of
       Inl err \<Rightarrow> Inl (Wrapped ''encrypt reader'' err)
     | Inr gcm \<Rightarrow>
         Inr \<lparr>resBody = newEncryptReader body gcm baseNonce (encChunkSize e),
              resCiphertextSize = ciphertextSizeExact plaintextSize (int (encChunkSize e)),
              resWrappedDEK = wrappedDEK, resKeyID = keyID, resBaseNonce = baseNonce\<rparr>)"

text \<open>The random bytes of one encryption: the data key, the nonce it is wrapped under and the base nonce.\<close>

record randoms =
  rndDEK :: bytes
  rndWrapNonce :: bytes
  rndBaseNonce :: bytes

definition GenerateAndWrapDEK :: "randoms \<Rightarrow> Encryptor \<Rightarrow> error + bytes \<times> bytes \<times> string" where
  "GenerateAndWrapDEK rnd e =
    (case kpWrapDEK (encProvider e) (rndWrapNonce rnd) (rndDEK rnd) of
       Inl err \<Rightarrow> Inl (Wrapped ''wrap DEK'' err)
     | Inr (wrapped, keyID) \<Rightarrow> Inr (rndDEK rnd, wrapped, keyID))"

definition Encrypt ::
  "(bytes \<Rightarrow> error + AEAD) \<Rightarrow> randoms \<Rightarrow> Encryptor \<Rightarrow> stream \<Rightarrow> int \<Rightarrow> error + EncryptResult" where
  "Encrypt newGCM rnd e body plaintextSize =
    (case GenerateAndWrapDEK rnd e of
       Inl err \<Rightarrow> Inl err
     | Inr (dek, wrapped, keyID) \<Rightarrow> EncryptWithDEK newGCM (rndBaseNonce rnd) e body plaintextSize dek wrapped keyID)"

text \<open>\<open>ioutilx.Window\<close> on the stream a reader denotes: \<open>io.CopyN\<close> skips, \<open>io.LimitReader\<close> cuts.\<close>

definition Window :: "stream \<Rightarrow> int \<Rightarrow> int \<Rightarrow> io_err + stream" where
  "Window r skip n =
    (if skip > 0 \<and> length (fst r) < nat skip then Inl (if snd r = IoEOF then IoUnexpectedEOF else snd r)
     else let rest = drop (nat skip) (fst r) in
       Inr (take (nat n) rest, if nat n \<le> length rest then IoEOF else snd r))"

definition decryptStored ::
  "(bytes \<Rightarrow> error + AEAD) \<Rightarrow> Encryptor \<Rightarrow> stream \<Rightarrow> bytes \<Rightarrow> string \<Rightarrow> int \<Rightarrow> RangeResult option \<Rightarrow> error + stream \<times> int" where
  "decryptStored newGCM e body packedKey keyID fullSize rng =
    (case UnpackKeyData packedKey of
       Inl err \<Rightarrow> Inl err
     | Inr (baseNonce, wrappedDEK) \<Rightarrow>
         (case kpUnwrapDEK (encProvider e) wrappedDEK keyID of
            Inl err \<Rightarrow> Inl (Wrapped ''unwrap DEK'' err)
          | Inr dek \<Rightarrow>
              (case rng of
                 None \<Rightarrow>
                   (case parseHeader body of
                      (Inl err, _) \<Rightarrow> Inl (Wrapped ''parse header'' err)
                    | (Inr (chunkSize, headerNonce), body) \<Rightarrow>
                        (case newGCM dek of
                           Inl err \<Rightarrow> Inl err
                         | Inr gcm \<Rightarrow> Inr (dec_denotes (newDecryptReader body gcm headerNonce chunkSize 0), fullSize)))
               | Some rng \<Rightarrow>
                   (case newGCM dek of
                      Inl err \<Rightarrow> Inl (Wrapped ''decrypt reader'' err)
                    | Inr gcm \<Rightarrow>
                        (case Window (dec_denotes (newDecryptReader body gcm baseNonce (nat (rrChunkSize rng)) (rrStartChunk rng)))
                                (rrSliceStart rng) (rrSliceLen rng) of
                           Inl err \<Rightarrow> Inl (wrap_io ''skip to range start'' err)
                         | Inr r \<Rightarrow> Inr (r, rrSliceLen rng))))))"

definition DecryptStored ::
  "(bytes \<Rightarrow> error + AEAD) \<Rightarrow> Encryptor \<Rightarrow> stream \<Rightarrow> bytes \<Rightarrow> string \<Rightarrow> int \<Rightarrow> RangeResult option \<Rightarrow> error + stream \<times> int" where
  "DecryptStored = decryptStored"

definition CiphertextSize :: "Encryptor \<Rightarrow> int \<Rightarrow> int" where
  "CiphertextSize e plaintextSize = ciphertextSizeExact plaintextSize (int (encChunkSize e))"

subsection \<open>Sizes\<close>

text \<open>The number of chunks of a plaintext.\<close>

definition chunk_count :: "nat \<Rightarrow> nat \<Rightarrow> nat" where
  "chunk_count cs n = (n + cs - 1) div cs"

lemma chunk_count_step: "\<lbrakk>0 < cs; cs \<le> n\<rbrakk> \<Longrightarrow> chunk_count cs n = Suc (chunk_count cs (n - cs))"
proof -
  assume a: "0 < cs" "cs \<le> n"
  then have "n + cs - Suc 0 = (n - Suc 0) + cs" by simp
  then show ?thesis using a by (simp only: chunk_count_def One_nat_def div_add_self2) simp
qed

lemma chunk_count_short: "n < cs \<Longrightarrow> chunk_count cs n = (if n = 0 then 0 else 1)"
  by (auto simp: chunk_count_def div_if)

lemma length_sealed:
  assumes "aead_laws gcm" "length base = NonceSize" "0 < cs"
  shows "length (fst (sealed_stream gcm base cs idx (plain, IoEOF))) = length plain + chunk_count cs (length plain) * ChunkOverhead"
proof (induction "length plain" arbitrary: plain idx rule: less_induct)
  case less
  show ?case
  proof (cases "cs \<le> length plain")
    case True
    with less [of "drop cs plain" "idx + 1"] assms show ?thesis
      by (simp add: sealed_full length_frame [OF assms(1,2)] chunk_count_step)
  next
    case False
    then show ?thesis
      using length_frame [OF assms(1,2), of idx plain] by (simp add: sealed_short chunk_count_short)
  qed
qed

lemma chunk_count_split: "\<lbrakk>0 < cs; r < cs\<rbrakk> \<Longrightarrow> chunk_count cs (q * cs + r) = q + (if r = 0 then 0 else 1)"
proof (induction q)
  case 0
  then show ?case by (simp add: chunk_count_short)
next
  case (Suc q)
  then show ?case by (simp add: chunk_count_step)
qed

lemma ciphertextSizeExact_eq:
  assumes "0 < cs"
  shows "ciphertextSizeExact (int n) (int cs) = HeaderSize + int (n + chunk_count cs n * ChunkOverhead)"
proof -
  define q r where "q = n div cs" and "r = n mod cs"
  have n: "n = q * cs + r" and r: "r < cs" using assms by (simp_all add: q_def r_def)
  have d: "int n div int cs = int q" "int n mod int cs = int r"
    by (simp_all add: q_def r_def zdiv_int zmod_int)
  have "chunk_count cs n = q + (if r = 0 then 0 else 1)"
    unfolding n using assms r by (rule chunk_count_split)
  moreover have "int n = int q * int cs + int r" by (simp add: n)
  ultimately show ?thesis
    unfolding ciphertextSizeExact_def Let_def d using assms by (cases "n = 0") (auto simp: algebra_simps q_def r_def)
qed

lemma bits_Len64_power: "\<lbrakk>2 ^ k \<le> x; x < 2 ^ Suc k\<rbrakk> \<Longrightarrow> bits_Len64 x = Suc k"
proof (induction k arbitrary: x)
  case 0
  then have "x = 1" by simp
  then show ?case by (simp add: bits_Len64.simps)
next
  case (Suc k)
  then have "2 ^ k \<le> x div 2" "x div 2 < 2 ^ Suc k" "0 < x" by auto
  with Suc.IH show ?case by (simp add: bits_Len64.simps [of x])
qed

lemma bits_Len64_bound: "x < 2 ^ bits_Len64 x" "0 < x \<Longrightarrow> 2 ^ (bits_Len64 x - 1) \<le> x"
proof (induction x rule: bits_Len64.induct)
  case (1 x)
  show "x < 2 ^ bits_Len64 x"
    using 1 by (cases "x = 0") (auto simp: bits_Len64.simps [of x])
  show "2 ^ (bits_Len64 x - 1) \<le> x" if "0 < x"
    using 1(2) that by (cases "x div 2 = 0") (auto simp: bits_Len64.simps [of x] bits_Len64.simps [of 0] bits_Len64.simps [of "x div 2"])
qed

lemma chunkSizeOf_eq:
  assumes "0 < n" "0 < cs"
  shows "chunkSizeOf (int n) (ciphertextSizeExact (int n) (int cs)) =
    (let k = chunk_count cs n; m = 2 ^ bits_Len64 ((n + k - 1) div k - 1) in
     if chunk_count m n = k then Inr (int m) else Inl (Refused ''no chunk size gives the envelope''))"
proof -
  define k where "k = chunk_count cs n"
  have k: "0 < k" using assms by (simp add: k_def chunk_count_def div_greater_zero_iff)
  have size: "ciphertextSizeExact (int n) (int cs) - HeaderSize - int n = int k * int ChunkOverhead"
    using ciphertextSizeExact_eq [OF assms(2), of n] by (simp add: k_def)
  have "go_div (int k * int ChunkOverhead) (int ChunkOverhead) = int k"
    by (simp add: go_div_def ChunkOverhead_def NonceSize_def TagSize_def)
  moreover have "nat ((int n + int k - 1) div int k - 1) = (n + k - 1) div k - 1"
  proof -
    have "int n + int k - 1 = int (n + k - 1)" using k by simp
    then have "(int n + int k - 1) div int k = int ((n + k - 1) div k)" by (simp only: zdiv_int)
    then show ?thesis by simp
  qed
  moreover have "ciphertextSizeExact (int n) (2 ^ j) = ciphertextSizeExact (int n) (int cs) \<longleftrightarrow> chunk_count (2 ^ j) n = k" for j
    using ciphertextSizeExact_eq [of "2 ^ j" n] ciphertextSizeExact_eq [OF assms(2), of n]
    by (simp add: k_def ChunkOverhead_def NonceSize_def)
  ultimately show ?thesis
    using k assms(1) unfolding chunkSizeOf_def size by (simp add: Let_def flip: k_def)
qed

text \<open>Several chunks give back the chunk size; a single one gives a size that holds it.\<close>

lemma per_chunk_bounds:
  assumes "0 < cs" "cs < n"
  shows "cs < 2 * ((n + chunk_count cs n - 1) div chunk_count cs n)" "(n + chunk_count cs n - 1) div chunk_count cs n \<le> cs"
proof -
  define q r where "q = (n - 1) div cs" and "r = (n - 1) mod cs"
  have n: "n = q * cs + r + 1" and r: "r < cs" using assms by (simp_all add: q_def r_def)
  have q: "0 < q" using assms by (auto simp: q_def div_greater_zero_iff)
  have k: "chunk_count cs n = q + 1"
  proof (cases "r + 1 < cs")
    case True
    with chunk_count_split [OF assms(1) True, of q] show ?thesis by (simp add: n add.assoc)
  next
    case False
    with r have "n = (q + 1) * cs + 0" by (simp add: n)
    with chunk_count_split [OF assms(1), of 0 "q + 1"] assms(1) show ?thesis by simp
  qed
  define p where "p = (n + (q + 1) - 1) div (q + 1)"
  have p: "p * (q + 1) \<le> n + q" "n + q < (p + 1) * (q + 1)"
    using div_times_less_eq_dividend [of "n + q" "q + 1"] dividend_less_times_div [of "q + 1" "n + q"]
    by (simp_all add: p_def mult.commute)
  have "n + q \<le> q * cs + cs + q" using n r by simp
  also have "\<dots> < (cs + 1) * (q + 1)" by (simp add: algebra_simps)
  finally have "p * (q + 1) < (cs + 1) * (q + 1)" using p(1) by linarith
  then have "p < cs + 1" by (simp only: mult_less_cancel2)
  then show "(n + chunk_count cs n - 1) div chunk_count cs n \<le> cs" unfolding k p_def [symmetric] by simp
  have "q * cs < p * (q + 1)" using p(2) n by (simp add: algebra_simps)
  also have "p * (q + 1) \<le> p * (2 * q)" using q by (intro mult_left_mono) simp_all
  finally have "q * cs < q * (2 * p)" by (simp add: algebra_simps)
  then have "cs < 2 * p" by (simp only: mult_less_cancel1)
  then show "cs < 2 * ((n + chunk_count cs n - 1) div chunk_count cs n)" unfolding k p_def [symmetric] .
qed

lemma chunkSizeOf_many:
  assumes "2 ^ j < n"
  shows "chunkSizeOf (int n) (ciphertextSizeExact (int n) (2 ^ j)) = Inr (2 ^ j)"
proof -
  define cs :: nat where "cs = 2 ^ j"
  define p where "p = (n + chunk_count cs n - 1) div chunk_count cs n"
  have cs: "0 < cs" "cs < n" using assms by (simp_all add: cs_def)
  note b = per_chunk_bounds [OF cs, folded p_def]
  have "bits_Len64 (p - 1) = j"
  proof (cases j)
    case 0
    then have "p - 1 = 0" using b by (simp add: cs_def)
    then show ?thesis by (simp add: 0 bits_Len64.simps)
  next
    case (Suc i)
    then have "2 ^ i \<le> p - 1" "p - 1 < 2 ^ Suc i" using b by (auto simp: cs_def)
    then show ?thesis by (simp add: Suc bits_Len64_power)
  qed
  with chunkSizeOf_eq [of n cs] cs show ?thesis
    by (simp add: Let_def cs_def flip: p_def) (simp add: p_def cs_def)
qed

lemma chunkSizeOf_one:
  assumes "0 < n" "n \<le> cs"
  shows "\<exists>m. chunkSizeOf (int n) (ciphertextSizeExact (int n) (int cs)) = Inr (int m) \<and> n \<le> m \<and> m < 2 * n"
proof -
  define m :: nat where "m = 2 ^ bits_Len64 (n - 1)"
  have le: "n \<le> m" using bits_Len64_bound(1) [of "n - 1"] assms(1) by (simp add: m_def)
  have one: "chunk_count c n = 1" if "n \<le> c" for c
  proof (cases "n = c")
    case True
    with chunk_count_step [of c n] assms(1) show ?thesis by (simp add: chunk_count_short)
  next
    case False
    with that assms(1) show ?thesis by (simp add: chunk_count_short)
  qed
  have "m < 2 * n"
  proof (cases "n - 1 = 0")
    case True
    with assms(1) show ?thesis by (simp add: m_def bits_Len64.simps)
  next
    case False
    then have "2 ^ (bits_Len64 (n - 1) - 1) \<le> n - 1" "0 < bits_Len64 (n - 1)"
      using bits_Len64_bound(2) [of "n - 1"] by (simp_all add: bits_Len64.simps [of "n - Suc 0"])
    then have "m \<le> 2 * (n - 1)" by (cases "bits_Len64 (n - 1)") (simp_all add: m_def)
    with assms(1) show ?thesis by simp
  qed
  with chunkSizeOf_eq [of n cs] assms le one [of cs] one [OF le] show ?thesis
    by (intro exI [of _ m]) (simp add: m_def)
qed

subsection \<open>Slices of an envelope\<close>

lemma sealed_single:
  "\<lbrakk>plain \<noteq> []; length plain \<le> cs\<rbrakk> \<Longrightarrow> sealed_stream gcm base cs idx (plain, IoEOF) = (frame gcm base idx plain, IoEOF)"
  by (cases "length plain = cs") (auto simp: sealed_full sealed_short)

lemma sealed_end: "0 < cs \<Longrightarrow> snd (sealed_stream gcm base cs idx (plain, IoEOF)) = IoEOF"
proof (induction "length plain" arbitrary: plain idx rule: less_induct)
  case less
  then show ?case by (cases "cs \<le> length plain") (auto simp: sealed_full sealed_short)
qed

text \<open>The first chunks of the plaintext are the first chunks of the envelope, and likewise the rest.\<close>

lemma sealed_split:
  assumes "aead_laws gcm" "length base = NonceSize" "0 < cs"
  shows "fst (sealed_stream gcm base cs idx (plain, IoEOF)) =
      fst (sealed_stream gcm base cs idx (take (k * cs) plain, IoEOF)) @
      fst (sealed_stream gcm base cs (idx + of_nat k) (drop (k * cs) plain, IoEOF))"
proof (induction k arbitrary: plain idx)
  case 0
  then show ?case using assms(3) by (simp add: sealed_short)
next
  case (Suc k)
  show ?case
  proof (cases "cs \<le> length plain")
    case True
    have "take (Suc k * cs) plain = take cs plain @ take (k * cs) (drop cs plain)"
      by (simp add: take_add)
    moreover have "drop (Suc k * cs) plain = drop (k * cs) (drop cs plain)"
      by (simp add: add.commute)
    ultimately show ?thesis
      using True assms(3) Suc.IH [of "idx + 1" "drop cs plain"] by (simp add: sealed_full add.assoc)
  next
    case False
    then show ?thesis using assms(3) by (simp add: sealed_short)
  qed
qed

lemma length_sealed_full:
  assumes "aead_laws gcm" "length base = NonceSize" "0 < cs" "length plain = k * cs"
  shows "length (fst (sealed_stream gcm base cs idx (plain, IoEOF))) = k * (ChunkOverhead + cs)"
  using length_sealed [OF assms(1-3), of idx plain] chunk_count_split [of cs 0 k] assms(3,4)
  by (simp add: algebra_simps)

lemma length_sealed_le:
  assumes "aead_laws gcm" "length base = NonceSize" "0 < cs" "length plain \<le> k * cs"
  shows "length (fst (sealed_stream gcm base cs idx (plain, IoEOF))) \<le> k * (ChunkOverhead + cs)"
proof -
  define q r where "q = length plain div cs" and "r = length plain mod cs"
  have n: "length plain = q * cs + r" and r: "r < cs" using assms(3) by (simp_all add: q_def r_def)
  have c: "chunk_count cs (length plain) = q + (if r = 0 then 0 else 1)"
    unfolding n using assms(3) r by (rule chunk_count_split)
  have "chunk_count cs (length plain) \<le> k"
  proof (rule ccontr)
    assume "\<not> ?thesis"
    then have "k < q \<or> k = q \<and> 0 < r" using c by (auto split: if_splits)
    then show False
    proof
      assume "k < q"
      then have "(k + 1) * cs \<le> q * cs" by (intro mult_right_mono) simp_all
      with assms n show False by simp
    qed (use assms n in auto)
  qed
  then have "chunk_count cs (length plain) * ChunkOverhead \<le> k * ChunkOverhead" by (rule mult_right_mono) simp
  with length_sealed [OF assms(1-3), of idx plain] assms(4) show ?thesis
    unfolding add_mult_distrib2 by linarith
qed

text \<open>The bytes of whole chunks, cut out of the envelope's body, are the sealed form of their plaintext.\<close>

lemma sealed_slice:
  assumes "aead_laws gcm" "length base = NonceSize" "0 < cs" "k * cs \<le> length plain"
  shows "take (m * (ChunkOverhead + cs)) (drop (k * (ChunkOverhead + cs)) (fst (sealed_stream gcm base cs idx (plain, IoEOF)))) =
    fst (sealed_stream gcm base cs (idx + of_nat k) (take (m * cs) (drop (k * cs) plain), IoEOF))"
proof -
  define rest where "rest = drop (k * cs) plain"
  have "drop (k * (ChunkOverhead + cs)) (fst (sealed_stream gcm base cs idx (plain, IoEOF))) =
      fst (sealed_stream gcm base cs (idx + of_nat k) (rest, IoEOF))"
    using sealed_split [OF assms(1-3), of idx plain k] length_sealed_full [OF assms(1-3), of "take (k * cs) plain" k idx] assms(4)
    by (simp add: rest_def)
  moreover have "take (m * (ChunkOverhead + cs)) (fst (sealed_stream gcm base cs i (rest, IoEOF))) =
      fst (sealed_stream gcm base cs i (take (m * cs) rest, IoEOF))" for i
  proof (cases "m * cs \<le> length rest")
    case True
    then show ?thesis
      using sealed_split [OF assms(1-3), of i rest m] length_sealed_full [OF assms(1-3), of "take (m * cs) rest" m i] by simp
  next
    case False
    then show ?thesis
      using length_sealed_le [OF assms(1-3), of rest m i] by simp
  qed
  ultimately show ?thesis by (simp add: rest_def)
qed

end
