(* ===== verification/StoredForms.thy ===== *)
theory StoredForms
  imports EncryptionProps
begin

text \<open>
  The layers of a stored copy (\<open>storedform/storedform.go\<close>): sealing and unsealing its envelope,
  encoding and decoding its compression, and \<open>Reform\<close>, which takes a copy from one stored form to
  another. The lemmas show that a reformed copy still reads as what the client wrote.

  The codec (\<open>compression.Codec\<close> over a zstd library) and the ratio test in floating point are
  arguments; a buffered body is the bytes it holds.
\<close>

subsection \<open>Layers\<close>

record Codec =
  cdCompress :: "stream \<Rightarrow> error + bytes"
  cdDecompressStream :: "stream \<Rightarrow> error + stream"

record Encoding =
  encBody :: bytes
  encSize :: int
  encWorth :: bool

record DataKey =
  dkDEK :: bytes
  dkWrappedDEK :: bytes
  dkKeyID :: string

record Sealed =
  slBody :: stream
  slSize :: int
  slForm :: StoredForm

record Layers =
  lyEncryptor :: "Encryptor option"
  lyCodec :: "Codec option"
  lyLevel :: string
  lyWorth :: "int \<Rightarrow> int \<Rightarrow> bool"

record Reformed =
  rfBody :: stream
  rfSize :: int
  rfForm :: StoredForm

definition ErrNoCodec :: error where
  "ErrNoCodec = Refused ''object is compressed but no codec is configured''"

definition ErrNoEncryptor :: error where
  "ErrNoEncryptor = Refused ''object is encrypted but no encryptor is configured''"

definition Declined :: error where
  "Declined = Refused ''encoding did not meet the compression ratio''"

definition Algorithm :: string where "Algorithm = ''zstd''"
definition FormatVersion :: int where "FormatVersion = 1"

definition WorthStoring :: "(int \<Rightarrow> int \<Rightarrow> bool) \<Rightarrow> int \<Rightarrow> int \<Rightarrow> bool" where
  "WorthStoring ratio logicalSize encodedSize \<longleftrightarrow> \<not> logicalSize \<le> 0 \<and> ratio logicalSize encodedSize"

definition Compress :: "Codec \<Rightarrow> (int \<Rightarrow> int \<Rightarrow> bool) \<Rightarrow> stream \<Rightarrow> int \<Rightarrow> error + Encoding" where
  "Compress codec ratio src logicalSize =
    (case cdCompress codec src of
       Inl err \<Rightarrow> Inl (Wrapped ''compress'' err)
     | Inr buf \<Rightarrow> Inr \<lparr>encBody = buf, encSize = int (length buf), encWorth = WorthStoring ratio logicalSize (int (length buf))\<rparr>)"

definition Describe :: "StoredForm option \<Rightarrow> string \<Rightarrow> int \<Rightarrow> StoredForm" where
  "Describe form level logicalSize =
    (case form of None \<Rightarrow> zeroForm | Some f \<Rightarrow> f)
      \<lparr>CompressionAlgorithm := Algorithm, CompressionLevel := level, CompressionFormatVersion := FormatVersion,
       LogicalSize := logicalSize\<rparr>"

definition WithContentHash :: "StoredForm option \<Rightarrow> string \<Rightarrow> StoredForm option" where
  "WithContentHash form digest =
    (if digest = [] then form
     else Some ((case form of None \<Rightarrow> zeroForm | Some f \<Rightarrow> f)\<lparr>ContentHash := digest\<rparr>))"

definition Seal ::
  "(bytes \<Rightarrow> error + AEAD) \<Rightarrow> randoms \<Rightarrow> Encryptor \<Rightarrow> stream \<Rightarrow> int \<Rightarrow> DataKey option \<Rightarrow> error + Sealed" where
  "Seal newGCM rnd enc body plaintextSize key =
    (case (case key of
             Some k \<Rightarrow> EncryptWithDEK newGCM (rndBaseNonce rnd) enc body plaintextSize (dkDEK k) (dkWrappedDEK k) (dkKeyID k)
           | None \<Rightarrow> Encrypt newGCM rnd enc body plaintextSize) of
       Inl err \<Rightarrow> Inl (Wrapped ''encrypt'' err)
     | Inr res \<Rightarrow>
         Inr \<lparr>slBody = enc_denotes (resBody res), slSize = resCiphertextSize res,
              slForm = zeroForm\<lparr>Encrypted := True, EncryptionKey := PackKeyData (resBaseNonce res) (resWrappedDEK res),
                KeyID := resKeyID res, PlaintextSize := plaintextSize\<rparr>\<rparr>)"

definition CheckEnvelope :: "stream \<Rightarrow> StoredForm \<Rightarrow> error + stream" where
  "CheckEnvelope body form =
    (case PeekEnvelope body of
       Inl err \<Rightarrow> Inl (Wrapped ''inspect object header'' err)
     | Inr (isEnvelope, body) \<Rightarrow>
         if isEnvelope \<noteq> Encrypted form then Inl (Wrapped ''row and stored bytes disagree'' ErrEncryptionFlagMismatch)
         else Inr body)"

definition Unseal ::
  "(bytes \<Rightarrow> error + AEAD) \<Rightarrow> Encryptor option \<Rightarrow> stream \<Rightarrow> StoredForm \<Rightarrow> error + stream" where
  "Unseal newGCM enc body form =
    (case CheckEnvelope body form of
       Inl err \<Rightarrow> Inl err
     | Inr body \<Rightarrow>
         if \<not> Encrypted form then Inr body
         else case enc of
           None \<Rightarrow> Inl ErrNoEncryptor
         | Some e \<Rightarrow>
             (case DecryptStored newGCM e body (EncryptionKey form) (KeyID form) (PlaintextSize form) None of
                Inl err \<Rightarrow> Inl (Wrapped ''decrypt'' err)
              | Inr (plain, _) \<Rightarrow> Inr plain))"

definition Decode :: "Codec option \<Rightarrow> stream \<Rightarrow> StoredForm \<Rightarrow> error + stream" where
  "Decode codec r form =
    (if \<not> Has (StoredForm_Form form) StoredCompressed then Inr r
     else case codec of
       None \<Rightarrow> Inl ErrNoCodec
     | Some c \<Rightarrow>
         (case cdDecompressStream c r of Inl err \<Rightarrow> Inl (Wrapped ''decompress'' err) | Inr decoded \<Rightarrow> Inr decoded))"

definition Open ::
  "(bytes \<Rightarrow> error + AEAD) \<Rightarrow> Encryptor option \<Rightarrow> Codec option \<Rightarrow> stream \<Rightarrow> StoredForm \<Rightarrow> error + stream" where
  "Open newGCM enc codec body form =
    (case Unseal newGCM enc body form of Inl err \<Rightarrow> Inl err | Inr unsealed \<Rightarrow> Decode codec unsealed form)"

subsection \<open>Reforming a copy\<close>

definition unsealFor ::
  "(bytes \<Rightarrow> error + AEAD) \<Rightarrow> Layers \<Rightarrow> stream \<Rightarrow> int \<Rightarrow> StoredForm \<Rightarrow> error + stream \<times> int" where
  "unsealFor newGCM l body storedSize from =
    (case Unseal newGCM (lyEncryptor l) body from of
       Inl err \<Rightarrow> Inl err
     | Inr r \<Rightarrow> Inr (r, if Encrypted from then PlaintextSize from else storedSize))"

definition encode :: "Layers \<Rightarrow> stream \<Rightarrow> int \<Rightarrow> StoredForm \<Rightarrow> error + stream \<times> int \<times> StoredForm" where
  "encode l r logical out =
    (case lyCodec l of
       None \<Rightarrow> Inl ErrNoCodec
     | Some codec \<Rightarrow>
         (case Compress codec (lyWorth l) r logical of
            Inl err \<Rightarrow> Inl err
          | Inr enc \<Rightarrow>
              if \<not> encWorth enc then Inl Declined
              else Inr ((encBody enc, IoEOF), encSize enc, Describe (Some out) (lyLevel l) logical)))"

definition recode ::
  "Layers \<Rightarrow> stream \<Rightarrow> int \<Rightarrow> StoredForm \<Rightarrow> 64 word \<Rightarrow> StoredForm \<Rightarrow> error + stream \<times> int \<times> StoredForm" where
  "recode l r n from want out =
    (let have = Has (StoredForm_Form from) StoredCompressed in
     if have \<and> Has want StoredCompressed then
       Inr (r, n, out\<lparr>CompressionAlgorithm := CompressionAlgorithm from, CompressionLevel := CompressionLevel from,
                         CompressionFormatVersion := CompressionFormatVersion from, LogicalSize := LogicalSize from\<rparr>)
     else if have then
       (case Decode (lyCodec l) r from of Inl err \<Rightarrow> Inl err | Inr decoded \<Rightarrow> Inr (decoded, LogicalSize from, out))
     else if Has want StoredCompressed then encode l r n out
     else Inr (r, n, out))"

definition Reform ::
  "(bytes \<Rightarrow> error + AEAD) \<Rightarrow> randoms \<Rightarrow> Layers \<Rightarrow> stream \<Rightarrow> int \<Rightarrow> StoredForm \<Rightarrow> 64 word \<Rightarrow> error + Reformed" where
  "Reform newGCM rnd l body storedSize from want =
    (case unsealFor newGCM l body storedSize from of
       Inl err \<Rightarrow> Inl err
     | Inr (r, n) \<Rightarrow>
         (case recode l r n from want (zeroForm\<lparr>ContentHash := ContentHash from\<rparr>) of
            Inl err \<Rightarrow> Inl err
          | Inr (r, n, form) \<Rightarrow>
              if \<not> Has want StoredEncrypted then Inr \<lparr>rfBody = r, rfSize = n, rfForm = form\<rparr>
              else case lyEncryptor l of
                None \<Rightarrow> Inl ErrNoEncryptor
              | Some enc \<Rightarrow>
                  (case Seal newGCM rnd enc r n None of
                     Inl err \<Rightarrow> Inl err
                   | Inr sealed \<Rightarrow>
                       Inr \<lparr>rfBody = slBody sealed, rfSize = slSize sealed,
                            rfForm = form\<lparr>Encrypted := True, EncryptionKey := EncryptionKey (slForm sealed),
                              KeyID := KeyID (slForm sealed), PlaintextSize := PlaintextSize (slForm sealed)\<rparr>\<rparr>)))"

subsection \<open>A copy and what it holds\<close>

text \<open>What the code relies on of the codec: decoding inverts encoding, and an encoded object starts with its frame's own magic bytes.\<close>

definition codec_laws :: "Codec \<Rightarrow> bool" where
  "codec_laws c \<longleftrightarrow> (\<forall>bs. \<exists>z. cdCompress c (bs, IoEOF) = Inr z \<and> cdDecompressStream c (z, IoEOF) = Inr (bs, IoEOF) \<and> \<not> HasEnvelopeMagic z)"

text \<open>A key provider unwraps what it wrapped.\<close>

definition provider_ok :: "KeyProvider \<Rightarrow> bool" where
  "provider_ok p \<longleftrightarrow> (\<forall>nonce dek. length nonce = NonceSize \<longrightarrow>
     (\<exists>w keyID. kpWrapDEK p nonce dek = Inr (w, keyID) \<and> w \<noteq> [] \<and> kpUnwrapDEK p w keyID = Inr dek))"

definition encryptor_ok :: "Encryptor \<Rightarrow> bool" where
  "encryptor_ok e \<longleftrightarrow> provider_ok (encProvider e) \<and> 0 < encChunkSize e \<and> encChunkSize e \<le> MaxEncryptionChunkSize"

text \<open>A copy whose bytes read as \<open>plain\<close> under its form, with the sizes the form records.\<close>

definition copy_holds ::
  "(bytes \<Rightarrow> error + AEAD) \<Rightarrow> Encryptor option \<Rightarrow> Codec option \<Rightarrow> bytes \<Rightarrow> StoredForm \<Rightarrow> bytes \<Rightarrow> bool" where
  "copy_holds newGCM enc codec body form plain \<longleftrightarrow>
    (\<exists>u. Unseal newGCM enc (body, IoEOF) form = Inr (u, IoEOF) \<and> Decode codec (u, IoEOF) form = Inr (plain, IoEOF) \<and>
      (Encrypted form \<longrightarrow> PlaintextSize form = int (length u)) \<and>
      (Has (StoredForm_Form form) StoredCompressed \<longrightarrow> LogicalSize form = int (length plain) \<and> \<not> HasEnvelopeMagic u))"

lemma copy_holds_Open: "copy_holds newGCM enc codec body form plain \<Longrightarrow> Open newGCM enc codec (body, IoEOF) form = Inr (plain, IoEOF)"
  by (auto simp: copy_holds_def Open_def)

lemma PeekEnvelope_eq: "PeekEnvelope (b, IoEOF) = Inr (HasEnvelopeMagic b, (b, IoEOF))"
proof (cases "length headerMagic \<le> length b")
  case True
  then show ?thesis by (simp add: PeekEnvelope_def io_ReadFull_def HasEnvelopeMagic_def)
next
  case False
  then have "\<not> HasEnvelopeMagic b" by (auto simp: HasEnvelopeMagic_def dest: arg_cong [of _ _ length])
  with False show ?thesis by (cases b) (simp_all add: PeekEnvelope_def io_ReadFull_def)
qed

lemma CheckEnvelope_eq:
  "CheckEnvelope (b, IoEOF) form =
    (if HasEnvelopeMagic b = Encrypted form then Inr (b, IoEOF)
     else Inl (Wrapped ''row and stored bytes disagree'' ErrEncryptionFlagMismatch))"
  by (simp add: CheckEnvelope_def PeekEnvelope_eq)

lemma Has_compressed: "Has (StoredForm_Form f) StoredCompressed \<longleftrightarrow> CompressionAlgorithm f \<noteq> []"
  by (simp add: StoredForm_Form_def Has_def StoredCompressed_def StoredEncrypted_def StoredHashed_def StoredKeyed_def)

lemma provider_ok_static:
  "\<lbrakk>gcm_laws newGCM; length key = KeySize\<rbrakk> \<Longrightarrow> provider_ok (StaticKeyProvider newGCM fp key)"
  unfolding provider_ok_def
proof (intro allI impI)
  fix nonce dek :: bytes
  assume "gcm_laws newGCM" "length key = KeySize" "length nonce = NonceSize"
  then obtain w where "kpWrapDEK (StaticKeyProvider newGCM fp key) nonce dek = Inr (w, fp key)" "w \<noteq> []"
    "aesGCMUnwrap newGCM key w = Inr dek" by (rule static_wrap)
  then show "\<exists>w keyID. kpWrapDEK (StaticKeyProvider newGCM fp key) nonce dek = Inr (w, keyID) \<and> w \<noteq> [] \<and>
      kpUnwrapDEK (StaticKeyProvider newGCM fp key) w keyID = Inr dek"
    by (auto simp: StaticKeyProvider_def)
qed

text \<open>Sealing a body and opening it again.\<close>

lemma Seal_opens:
  assumes "gcm_laws newGCM" "encryptor_ok e" "length (rndDEK rnd) = KeySize" "length (rndWrapNonce rnd) = NonceSize"
    "length (rndBaseNonce rnd) = NonceSize"
    and "Seal newGCM rnd e (u, IoEOF) (int (length u)) None = Inr sealed"
  obtains b where "slBody sealed = (b, IoEOF)" "slSize sealed = int (length b)" "PlaintextSize (slForm sealed) = int (length u)"
    "\<forall>form. Encrypted form \<and> EncryptionKey form = EncryptionKey (slForm sealed) \<and> KeyID form = KeyID (slForm sealed) \<longrightarrow>
      Unseal newGCM (Some e) (b, IoEOF) form = Inr (u, IoEOF)"
proof -
  define base cs where "base = rndBaseNonce rnd" and "cs = encChunkSize e"
  have base: "length base = NonceSize" and cs: "0 < cs" "cs \<le> MaxEncryptionChunkSize"
    using assms(2,5) by (simp_all add: base_def cs_def encryptor_ok_def)
  obtain gcm where g: "newGCM (rndDEK rnd) = Inr gcm" "aead_laws gcm" using assms(1,3) by (auto simp: gcm_laws_def)
  obtain w keyID where w: "kpWrapDEK (encProvider e) (rndWrapNonce rnd) (rndDEK rnd) = Inr (w, keyID)" "w \<noteq> []"
    "kpUnwrapDEK (encProvider e) w keyID = Inr (rndDEK rnd)"
    using assms(2,4) unfolding encryptor_ok_def provider_ok_def by meson
  define b where "b = sealed_body gcm base cs u"
  have magic: "HasEnvelopeMagic b" by (simp add: b_def sealed_body_def envelope_header_def HasEnvelopeMagic_def)
  have sealed: "sealed = \<lparr>slBody = (b, IoEOF), slSize = int (length b), slForm = zeroForm\<lparr>Encrypted := True,
      EncryptionKey := PackKeyData base w, KeyID := keyID, PlaintextSize := int (length u)\<rparr>\<rparr>"
    using assms(6) w g length_sealed_body [OF g(2) base cs(1), of u]
    by (simp add: Seal_def Encrypt_def GenerateAndWrapDEK_def EncryptWithDEK_def enc_denotes_new [OF cs(1)] b_def
        flip: base_def cs_def)
  show ?thesis
  proof (rule that [of b])
    show "\<forall>form. Encrypted form \<and> EncryptionKey form = EncryptionKey (slForm sealed) \<and> KeyID form = KeyID (slForm sealed) \<longrightarrow>
        Unseal newGCM (Some e) (b, IoEOF) form = Inr (u, IoEOF)"
      using w g parse_sealed_body [OF base cs, of gcm u] opened_sealed [OF g(2) base cs(1), of 0 u]
      by (simp add: Unseal_def CheckEnvelope_eq magic sealed DecryptStored_def decryptStored_def unpack_packed [OF base w(2)])
        (simp add: b_def dec_denotes_new)
  qed (simp_all add: sealed)
qed

text \<open>The compression half keeps what the bytes decode to.\<close>

lemma recode_holds:
  assumes "recode l (u, IoEOF) (int (length u)) from want out = Inr (r, n, form)"
    and "Decode (lyCodec l) (u, IoEOF) from = Inr (plain, IoEOF)" "\<And>c. lyCodec l = Some c \<Longrightarrow> codec_laws c"
    and "Has (StoredForm_Form from) StoredCompressed \<Longrightarrow> LogicalSize from = int (length plain) \<and> \<not> HasEnvelopeMagic u"
    and "CompressionAlgorithm out = []"
  obtains v where "r = (v, IoEOF)" "n = int (length v)" "Decode (lyCodec l) (v, IoEOF) form = Inr (plain, IoEOF)"
    "Has (StoredForm_Form form) StoredCompressed \<longleftrightarrow> Has want StoredCompressed"
    "Has (StoredForm_Form form) StoredCompressed \<longrightarrow> LogicalSize form = int (length plain) \<and> \<not> HasEnvelopeMagic v"
    "Has (StoredForm_Form form) StoredCompressed \<or> v = plain"
    "ContentHash form = ContentHash out" "Encrypted form = Encrypted out"
proof -
  define have_it want_it where "have_it = Has (StoredForm_Form from) StoredCompressed" and "want_it = Has want StoredCompressed"
  note flag = Has_compressed
  consider (keep) "have_it" "want_it" | (decode) "have_it" "\<not> want_it" | (encode) "\<not> have_it" "want_it" | (none) "\<not> have_it" "\<not> want_it"
    by blast
  then show ?thesis
  proof cases
    case keep
    with assms show ?thesis
      by (intro that [of u]) (auto simp: recode_def have_it_def want_it_def flag Decode_def Let_def)
  next
    case decode
    with assms show ?thesis
      by (intro that [of plain]) (auto simp: recode_def have_it_def want_it_def flag Decode_def Let_def)
  next
    case none
    with assms show ?thesis
      by (intro that [of plain]) (auto simp: recode_def have_it_def want_it_def flag Decode_def Let_def)
  next
    case encode
    then obtain c where c: "lyCodec l = Some c"
      using assms(1) by (auto simp: recode_def have_it_def want_it_def encode_def split: option.splits)
    then obtain z where z: "cdCompress c (u, IoEOF) = Inr z" "cdDecompressStream c (z, IoEOF) = Inr (u, IoEOF)" "\<not> HasEnvelopeMagic z"
      using assms(3) by (auto simp: codec_laws_def)
    have "u = plain" using assms(2) encode by (simp add: Decode_def have_it_def)
    with assms encode c z show ?thesis
      by (intro that [of z]) (auto simp: recode_def have_it_def want_it_def flag encode_def Compress_def Describe_def
          Decode_def Algorithm_def Let_def split: if_splits)
  qed
qed

text \<open>C21. Rewriting a copy into another stored form keeps the object: whichever layers are added, removed or left alone,
  the new bytes have the size reported for them, open to what the client wrote, carry the same content hash, and the new
  form records the layers asked for with their sizes. The one condition is that bytes stored without an envelope do not
  themselves begin with the envelope's signature.\<close>

theorem Reform_keeps_object:
  assumes "gcm_laws newGCM" "\<forall>e. lyEncryptor l = Some e \<longrightarrow> encryptor_ok e" "\<forall>c. lyCodec l = Some c \<longrightarrow> codec_laws c"
    and "length (rndDEK rnd) = KeySize" "length (rndWrapNonce rnd) = NonceSize" "length (rndBaseNonce rnd) = NonceSize"
    and "copy_holds newGCM (lyEncryptor l) (lyCodec l) body from plain"
    and "Reform newGCM rnd l (body, IoEOF) (int (length body)) from want = Inr out"
    and "Has want StoredEncrypted \<or> \<not> HasEnvelopeMagic plain"
  shows "\<exists>b. rfBody out = (b, IoEOF) \<and> rfSize out = int (length b) \<and>
    copy_holds newGCM (lyEncryptor l) (lyCodec l) b (rfForm out) plain \<and> ContentHash (rfForm out) = ContentHash from \<and>
    Encrypted (rfForm out) = Has want StoredEncrypted \<and>
    Has (StoredForm_Form (rfForm out)) StoredCompressed = Has want StoredCompressed"
proof -
  obtain u where u: "Unseal newGCM (lyEncryptor l) (body, IoEOF) from = Inr (u, IoEOF)"
    "Decode (lyCodec l) (u, IoEOF) from = Inr (plain, IoEOF)" "Encrypted from \<longrightarrow> PlaintextSize from = int (length u)"
    "Has (StoredForm_Form from) StoredCompressed \<longrightarrow> LogicalSize from = int (length plain) \<and> \<not> HasEnvelopeMagic u"
    using assms(7) by (auto simp: copy_holds_def)
  have "\<not> Encrypted from \<longrightarrow> u = body"
    using u(1) by (auto simp: Unseal_def CheckEnvelope_eq split: if_splits)
  then have us: "unsealFor newGCM l (body, IoEOF) (int (length body)) from = Inr ((u, IoEOF), int (length u))"
    using u(1,3) by (simp add: unsealFor_def)
  then obtain r n form where rc: "recode l (u, IoEOF) (int (length u)) from want (zeroForm\<lparr>ContentHash := ContentHash from\<rparr>) = Inr (r, n, form)"
    using assms(8) by (auto simp: Reform_def split: sum.splits prod.splits)
  from recode_holds [OF rc u(2) _ mp [OF u(4)]] assms(3) obtain v where
    v: "r = (v, IoEOF)" "n = int (length v)" "Decode (lyCodec l) (v, IoEOF) form = Inr (plain, IoEOF)"
    "Has (StoredForm_Form form) StoredCompressed \<longleftrightarrow> Has want StoredCompressed"
    "Has (StoredForm_Form form) StoredCompressed \<longrightarrow> LogicalSize form = int (length plain) \<and> \<not> HasEnvelopeMagic v"
    "Has (StoredForm_Form form) StoredCompressed \<or> v = plain" "ContentHash form = ContentHash from" "\<not> Encrypted form"
    by (auto simp: zeroForm_def)
  show ?thesis
  proof (cases "Has want StoredEncrypted")
    case False
    then have "out = \<lparr>rfBody = (v, IoEOF), rfSize = int (length v), rfForm = form\<rparr>"
      using assms(8) us rc v(1,2) by (simp add: Reform_def)
    with False v assms(9) show ?thesis by (auto simp: copy_holds_def Unseal_def CheckEnvelope_eq)
  next
    case True
    then obtain e sealed where e: "lyEncryptor l = Some e" "Seal newGCM rnd e (v, IoEOF) (int (length v)) None = Inr sealed"
      and out: "out = \<lparr>rfBody = slBody sealed, rfSize = slSize sealed, rfForm = form\<lparr>Encrypted := True,
        EncryptionKey := EncryptionKey (slForm sealed), KeyID := KeyID (slForm sealed), PlaintextSize := PlaintextSize (slForm sealed)\<rparr>\<rparr>"
      using assms(8) us rc v(1,2) by (auto simp: Reform_def split: option.splits sum.splits)
    have "encryptor_ok e" using e(1) assms(2) by simp
    from Seal_opens [OF assms(1) this assms(4-6) e(2)] obtain b where
      b: "slBody sealed = (b, IoEOF)" "slSize sealed = int (length b)" "PlaintextSize (slForm sealed) = int (length v)"
      and un: "\<forall>form. Encrypted form \<and> EncryptionKey form = EncryptionKey (slForm sealed) \<and> KeyID form = KeyID (slForm sealed) \<longrightarrow>
        Unseal newGCM (Some e) (b, IoEOF) form = Inr (v, IoEOF)" .
    have "Unseal newGCM (Some e) (b, IoEOF) (rfForm out) = Inr (v, IoEOF)" using un by (simp add: out)
    with True v e(1) b show ?thesis
      by (auto simp: out copy_holds_def Decode_def Has_compressed)
  qed
qed

text \<open>A codec for the witnesses: one byte in front of the plaintext.\<close>

definition toyCodec :: Codec where
  "toyCodec = \<lparr>cdCompress = (\<lambda>s. case s of (bs, IoEOF) \<Rightarrow> Inr (CHR 0x28 # bs) | (_, IoUnexpectedEOF) \<Rightarrow> Inl (Refused ''unexpected EOF'') | (_, IoErr e) \<Rightarrow> Inl e),
     cdDecompressStream = (\<lambda>s. case fst s of [] \<Rightarrow> Inl (Refused ''corrupt'') | _ # bs \<Rightarrow> Inr (bs, snd s))\<rparr>"

lemma toyCodec_laws: "codec_laws toyCodec"
  by (simp add: codec_laws_def toyCodec_def HasEnvelopeMagic_def headerMagic_def)

definition sample_layers :: Layers where
  "sample_layers = \<lparr>lyEncryptor = Some \<lparr>encProvider = StaticKeyProvider toyGCM (\<lambda>k. k) old_key, encChunkSize = 4\<rparr>,
     lyCodec = Some toyCodec, lyLevel = ''default'', lyWorth = (\<lambda>_ _. True)\<rparr>"

theorem Reform_keeps_object_witness:
  "\<exists>out b. Reform toyGCM sample_randoms sample_layers (''hello'', IoEOF) 5 zeroForm (or StoredCompressed StoredEncrypted) = Inr out \<and>
    rfBody out = (b, IoEOF) \<and>
    copy_holds toyGCM (lyEncryptor sample_layers) (lyCodec sample_layers) b (rfForm out) ''hello''"
proof -
  have w: "Has (or StoredCompressed StoredEncrypted) StoredCompressed" "Has (or StoredCompressed StoredEncrypted) StoredEncrypted"
    "\<not> Has (StoredForm_Form zeroForm) StoredCompressed"
    by (simp_all add: Has_def StoredCompressed_def StoredEncrypted_def StoredForm_Form_def zeroForm_def)
  have enc: "\<forall>e. lyEncryptor sample_layers = Some e \<longrightarrow> encryptor_ok e"
    using provider_ok_static [OF toyGCM_laws, of old_key] sample_keys(1)
    by (simp add: sample_layers_def encryptor_ok_def MaxEncryptionChunkSize_def)
  have codec: "\<forall>c. lyCodec sample_layers = Some c \<longrightarrow> codec_laws c" by (simp add: sample_layers_def toyCodec_laws)
  have plain: "\<not> HasEnvelopeMagic ''hello''" by (simp add: HasEnvelopeMagic_def headerMagic_def)
  then have holds: "copy_holds toyGCM (lyEncryptor sample_layers) (lyCodec sample_layers) ''hello'' zeroForm ''hello''"
    using w(3) by (simp add: copy_holds_def Unseal_def CheckEnvelope_eq Decode_def) (simp add: zeroForm_def)
  obtain out where out: "Reform toyGCM sample_randoms sample_layers (''hello'', IoEOF) (int (length ''hello'')) zeroForm
      (or StoredCompressed StoredEncrypted) = Inr out"
    using w plain sample_keys(1)
    by (simp add: Reform_def unsealFor_def Unseal_def CheckEnvelope_eq recode_def encode_def sample_layers_def Compress_def toyCodec_def
        WorthStoring_def Seal_def Encrypt_def GenerateAndWrapDEK_def EncryptWithDEK_def StaticKeyProvider_def aesGCMWrap_def
        toyGCM_def sample_keys old_key_def KeySize_def sample_randoms_def zeroForm_def Let_def)
  from Reform_keeps_object [OF toyGCM_laws enc codec sample_keys(4-6) holds out] w(2) out show ?thesis by auto
qed

text \<open>The condition is needed: a copy stored verbatim whose own bytes begin with the envelope's signature cannot be read
  back. The check that compares the row's flag with the stored bytes takes them for an envelope and refuses.\<close>

theorem signature_bytes_unreadable:
  "Open newGCM enc codec (headerMagic @ rest, IoEOF) zeroForm = Inl (Wrapped ''row and stored bytes disagree'' ErrEncryptionFlagMismatch)"
  by (simp add: Open_def Unseal_def CheckEnvelope_eq HasEnvelopeMagic_def) (simp add: zeroForm_def)

end
