(* ===== verification/Breaker.thy ===== *)
theory Breaker
  imports Backoff "HOL-Library.Word"
begin

text \<open>
  The circuit breaker (\<open>internal/breaker\<close>) that guards the database and the backends: the two-state machine of
  \<open>breaker.go\<close>, the prober of \<open>recovery.go\<close> that checks a dependency while its breaker is open, and the watchdog's
  ticks. Each method holds the breaker's lock, so a method is one step on the record, and a run is a list of steps in
  the order the lock was taken; \<open>PostCheck\<close> takes it twice, and its second look at the state is made directly after the
  first. \<open>time.Now\<close> is the argument \<open>now\<close>; the state-change callbacks are the list of what they were told.
  The dependency's check and the admission test are functions of the time they are asked at.
\<close>

subsection \<open>The breaker\<close>

datatype State = StateClosed | StateOpen

record StateChangeInfo =
  scName :: string
  scFrom :: State
  scTo :: State
  scFailures :: int
  scThreshold :: int
  scOpenDuration :: int

record CircuitBreaker =
  cbState :: State
  cbFailures :: int
  cbOpenedAt :: time
  cbFailThreshold :: int
  cbOpenTimeout :: int
  cbName :: string
  cbIsError :: "error option \<Rightarrow> bool"
  cbSentinel :: error
  cbLastErr :: "error option"
  cbNotified :: "StateChangeInfo list"

record BreakerConfig =
  bkName :: string
  bkThreshold :: int
  bkTimeout :: int
  bkIsError :: "error option \<Rightarrow> bool"
  bkSentinel :: error

definition NewCircuitBreaker :: "BreakerConfig \<Rightarrow> CircuitBreaker" where
  "NewCircuitBreaker cfg =
    \<lparr>cbState = StateClosed, cbFailures = 0, cbOpenedAt = 0, cbFailThreshold = bkThreshold cfg,
     cbOpenTimeout = bkTimeout cfg, cbName = bkName cfg, cbIsError = bkIsError cfg, cbSentinel = bkSentinel cfg,
     cbLastErr = None, cbNotified = []\<rparr>"

definition IsHealthy :: "CircuitBreaker \<Rightarrow> bool" where
  "IsHealthy cb \<longleftrightarrow> cbState cb = StateClosed"

definition OpenDuration :: "time \<Rightarrow> CircuitBreaker \<Rightarrow> int" where
  "OpenDuration now cb = (if cbState cb = StateClosed then 0 else now - cbOpenedAt cb)"

definition PreCheck :: "CircuitBreaker \<Rightarrow> error option" where
  "PreCheck cb = (if cbState cb = StateOpen then Some (cbSentinel cb) else None)"

definition transition :: "time \<Rightarrow> State \<Rightarrow> CircuitBreaker \<Rightarrow> CircuitBreaker" where
  "transition now to cb =
    (let from = cbState cb;
         openFor = (if from \<noteq> StateClosed then now - cbOpenedAt cb else 0);
         cb = cb\<lparr>cbState := to\<rparr>;
         cb = (if to = StateOpen then cb\<lparr>cbOpenedAt := now\<rparr> else cb) in
     cb\<lparr>cbNotified := cbNotified cb @
       [\<lparr>scName = cbName cb, scFrom = from, scTo = to, scFailures = cbFailures cb,
         scThreshold = cbFailThreshold cb, scOpenDuration = openFor\<rparr>]\<rparr>)"

definition onSuccess :: "CircuitBreaker \<Rightarrow> CircuitBreaker" where
  "onSuccess cb = cb\<lparr>cbFailures := 0\<rparr>"

definition onFailure :: "time \<Rightarrow> error option \<Rightarrow> CircuitBreaker \<Rightarrow> CircuitBreaker" where
  "onFailure now err cb =
    (let cb = cb\<lparr>cbFailures := cbFailures cb + 1, cbLastErr := err\<rparr> in
     if cbState cb = StateClosed \<and> cbFailures cb \<ge> cbFailThreshold cb then transition now StateOpen cb else cb)"

text \<open>An error that a guarded call returns: its own, or its own joined to the sentinel, so that both match.\<close>

datatype call_error = Plain error | Joined error "error option"

definition PostCheck :: "time \<Rightarrow> error option \<Rightarrow> CircuitBreaker \<Rightarrow> call_error option \<times> CircuitBreaker" where
  "PostCheck now err cb =
    (if \<not> cbIsError cb err then (map_option Plain err, onSuccess cb)
     else
       let cb = onFailure now err cb in
       (if \<not> IsHealthy cb then Some (Joined (cbSentinel cb) err) else map_option Plain err, cb))"

definition Trip :: "time \<Rightarrow> error \<Rightarrow> CircuitBreaker \<Rightarrow> CircuitBreaker" where
  "Trip now err cb =
    (let cb = cb\<lparr>cbLastErr := Some err\<rparr> in
     if cbState cb \<noteq> StateOpen then transition now StateOpen cb else cb)"

definition Recover :: "time \<Rightarrow> CircuitBreaker \<Rightarrow> CircuitBreaker" where
  "Recover now cb =
    (let cb = cb\<lparr>cbFailures := 0\<rparr> in
     if cbState cb \<noteq> StateClosed then transition now StateClosed cb else cb)"

text \<open>A guarded call: the function acts on a world of its own.\<close>

definition Call ::
  "time \<Rightarrow> ('w \<Rightarrow> ('a \<times> error option) \<times> 'w) \<Rightarrow> 'a \<Rightarrow> CircuitBreaker \<times> 'w \<Rightarrow>
     ('a \<times> call_error option) \<times> CircuitBreaker \<times> 'w" where
  "Call now fn zero s =
    (case s of (cb, w) \<Rightarrow>
       case PreCheck cb of
         Some err \<Rightarrow> ((zero, Some (Plain err)), cb, w)
       | None \<Rightarrow>
           case fn w of ((result, err), w') \<Rightarrow>
             case PostCheck now err cb of (err', cb') \<Rightarrow> ((result, err'), cb', w'))"

text \<open>The error test of the database's breaker (\<open>store/circuitbreaker.go\<close>). Which errors are a caller's cancelled
  context or the absence of rows, and which the driver counts as refusing one request, the model takes as given.\<close>

fun is_S3Error :: "error \<Rightarrow> bool" where
  "is_S3Error (S3Error _ _ _) = True"
| "is_S3Error (Wrapped _ err) = is_S3Error err"
| "is_S3Error _ = False"

definition unavailable :: "(error \<Rightarrow> bool) \<Rightarrow> (error \<Rightarrow> bool) \<Rightarrow> error option \<Rightarrow> bool" where
  "unavailable answered requestError err =
    (case err of
       None \<Rightarrow> False
     | Some e \<Rightarrow> if answered e then False else if is_S3Error e then False else \<not> requestError e)"

definition NewDatabaseBreaker :: "int \<Rightarrow> int \<Rightarrow> (error \<Rightarrow> bool) \<Rightarrow> (error \<Rightarrow> bool) \<Rightarrow> CircuitBreaker" where
  "NewDatabaseBreaker threshold timeout answered requestError =
    NewCircuitBreaker \<lparr>bkName = ''database'', bkThreshold = threshold, bkTimeout = timeout,
      bkIsError = unavailable answered requestError, bkSentinel = ErrDBUnavailable\<rparr>"

subsection \<open>Recovery\<close>

definition DefaultWatchdogInterval :: int where
  "DefaultWatchdogInterval = 5000000000"

record Recovery =
  rcCheck :: "time \<Rightarrow> error option"
  rcMaxBackoff :: int
  rcAdmit :: "(time \<Rightarrow> bool) option"

record RecoveryProber =
  rpRecovery :: Recovery
  rpNextDue :: "time option"
  rpFailures :: "32 word"

definition NewRecoveryProber :: "Recovery \<Rightarrow> RecoveryProber" where
  "NewRecoveryProber r = \<lparr>rpRecovery = r, rpNextDue = None, rpFailures = 0\<rparr>"

definition prober_backoff :: "CircuitBreaker \<Rightarrow> Recovery \<Rightarrow> Exponential" where
  "prober_backoff cb r =
    (let base = max (cbOpenTimeout cb) DefaultWatchdogInterval in
     \<lparr>Base = base, Ceiling = max (rcMaxBackoff r) base\<rparr>)"

definition prober_wait :: "CircuitBreaker \<Rightarrow> RecoveryProber \<Rightarrow> int" where
  "prober_wait cb p = Exponential_For (prober_backoff cb (rpRecovery p)) (sint (rpFailures p))"

definition recovery_admits :: "Recovery \<Rightarrow> time \<Rightarrow> bool" where
  "recovery_admits r now = (case rcAdmit r of None \<Rightarrow> True | Some admit \<Rightarrow> admit now)"

text \<open>One probe. What the callers of the breaker do while the check runs is \<open>during\<close>.\<close>

definition Probe ::
  "time \<Rightarrow> (CircuitBreaker \<Rightarrow> CircuitBreaker) \<Rightarrow> CircuitBreaker \<times> RecoveryProber \<Rightarrow> CircuitBreaker \<times> RecoveryProber" where
  "Probe now during s =
    (case s of (cb, p) \<Rightarrow>
       if cbState cb \<noteq> StateOpen then (cb, p\<lparr>rpNextDue := None, rpFailures := 0\<rparr>)
       else case rpNextDue p of
         None \<Rightarrow> (cb, p\<lparr>rpNextDue := Some (now + prober_wait cb p)\<rparr>)
       | Some nextDue \<Rightarrow>
           if now < nextDue then (cb, p)
           else if \<not> recovery_admits (rpRecovery p) now then (cb, p)
           else
             let cb' = during cb in
             case rcCheck (rpRecovery p) now of
               None \<Rightarrow> (Recover now cb', p\<lparr>rpNextDue := None, rpFailures := 0\<rparr>)
             | Some err \<Rightarrow>
                 let p = p\<lparr>rpFailures := rpFailures p + 1\<rparr> in
                 (cb', p\<lparr>rpNextDue := Some (now + prober_wait cb' p)\<rparr>))"

subsection \<open>Runs\<close>

text \<open>What reaches a breaker: the answer of a guarded call, an owner that trips it, and a recovery.\<close>

datatype breaker_event = Answered "error option" | Tripped error | Recovered

fun breaker_step :: "time \<times> breaker_event \<Rightarrow> CircuitBreaker \<Rightarrow> CircuitBreaker" where
  "breaker_step (now, Answered err) cb = snd (PostCheck now err cb)"
| "breaker_step (now, Tripped err) cb = Trip now err cb"
| "breaker_step (now, Recovered) cb = Recover now cb"

definition breaker_run :: "(time \<times> breaker_event) list \<Rightarrow> CircuitBreaker \<Rightarrow> CircuitBreaker" where
  "breaker_run evs cb = fold breaker_step evs cb"

text \<open>The failures in a row at the end of a history given latest first: trips neither count nor interrupt.\<close>

fun streak :: "(error option \<Rightarrow> bool) \<Rightarrow> breaker_event list \<Rightarrow> int" where
  "streak isErr [] = 0"
| "streak isErr (Answered err # past) = (if isErr err then streak isErr past + 1 else 0)"
| "streak isErr (Tripped _ # past) = streak isErr past"
| "streak isErr (Recovered # past) = 0"

text \<open>An event that opens the circuit after a given past, and the circuit's being open after a history.\<close>

definition opens :: "(error option \<Rightarrow> bool) \<Rightarrow> int \<Rightarrow> breaker_event list \<Rightarrow> breaker_event \<Rightarrow> bool" where
  "opens isErr threshold past ev \<longleftrightarrow>
    (case ev of
       Tripped _ \<Rightarrow> True
     | Recovered \<Rightarrow> False
     | Answered err \<Rightarrow> isErr err \<and> threshold \<le> streak isErr (rev (past @ [ev])))"

definition open_after :: "(error option \<Rightarrow> bool) \<Rightarrow> int \<Rightarrow> breaker_event list \<Rightarrow> bool" where
  "open_after isErr threshold evs \<longleftrightarrow>
    (\<exists>past ev since. evs = past @ ev # since \<and> opens isErr threshold past ev \<and> Recovered \<notin> set since)"

text \<open>The watchdog: before its \<open>k\<close>-th tick the breaker's callers have done \<open>between k\<close>, and while a check
  of that tick runs they do \<open>during k\<close>.\<close>

primrec watch ::
  "(nat \<Rightarrow> time) \<Rightarrow> (nat \<Rightarrow> (time \<times> breaker_event) list) \<Rightarrow> (nat \<Rightarrow> (time \<times> breaker_event) list) \<Rightarrow>
     CircuitBreaker \<times> RecoveryProber \<Rightarrow> nat \<Rightarrow> CircuitBreaker \<times> RecoveryProber" where
  "watch tick between during s 0 =
    Probe (tick 0) (breaker_run (during 0)) (apfst (breaker_run (between 0)) s)"
| "watch tick between during s (Suc k) =
    Probe (tick (Suc k)) (breaker_run (during (Suc k)))
      (apfst (breaker_run (between (Suc k))) (watch tick between during s k))"

subsection \<open>Steps keep the configuration\<close>

lemmas breaker_ops = transition_def onSuccess_def onFailure_def PostCheck_def Trip_def Recover_def IsHealthy_def Let_def

lemma breaker_step_config:
  "cbFailThreshold (breaker_step e cb) = cbFailThreshold cb \<and> cbOpenTimeout (breaker_step e cb) = cbOpenTimeout cb \<and>
   cbIsError (breaker_step e cb) = cbIsError cb \<and> cbSentinel (breaker_step e cb) = cbSentinel cb"
  by (cases "(e, cb)" rule: breaker_step.cases) (simp_all add: breaker_ops)

lemma breaker_run_snoc [simp]: "breaker_run (evs @ [e]) cb = breaker_step e (breaker_run evs cb)"
  by (simp add: breaker_run_def)

lemma breaker_run_config [simp]:
  "cbFailThreshold (breaker_run evs cb) = cbFailThreshold cb" "cbOpenTimeout (breaker_run evs cb) = cbOpenTimeout cb"
  "cbIsError (breaker_run evs cb) = cbIsError cb" "cbSentinel (breaker_run evs cb) = cbSentinel cb"
  by (induction evs rule: rev_induct) (simp_all add: breaker_step_config, simp_all add: breaker_run_def)

subsection \<open>When the circuit is open\<close>

lemma open_after_snoc:
  "open_after isErr threshold (evs @ [ev]) \<longleftrightarrow>
    opens isErr threshold evs ev \<or> open_after isErr threshold evs \<and> ev \<noteq> Recovered"
proof
  assume "open_after isErr threshold (evs @ [ev])"
  then obtain past e since where split: "evs @ [ev] = past @ e # since" and e: "opens isErr threshold past e" "Recovered \<notin> set since"
    by (auto simp: open_after_def)
  show "opens isErr threshold evs ev \<or> open_after isErr threshold evs \<and> ev \<noteq> Recovered"
  proof (cases since rule: rev_cases)
    case Nil
    with split e show ?thesis by simp
  next
    case (snoc ys y)
    then have "evs = past @ e # ys" "y = ev" using split by (simp_all flip: append_Cons append_assoc)
    with snoc e show ?thesis by (auto simp: open_after_def)
  qed
next
  assume "opens isErr threshold evs ev \<or> open_after isErr threshold evs \<and> ev \<noteq> Recovered"
  then show "open_after isErr threshold (evs @ [ev])"
  proof
    assume "opens isErr threshold evs ev"
    then show ?thesis by (fastforce simp: open_after_def)
  next
    assume "open_after isErr threshold evs \<and> ev \<noteq> Recovered"
    then obtain past e since where "evs @ [ev] = past @ e # (since @ [ev])" "opens isErr threshold past e" "Recovered \<notin> set (since @ [ev])"
      by (auto simp: open_after_def)
    then show ?thesis unfolding open_after_def by blast
  qed
qed

lemma breaker_run_failures:
  "cbFailures (breaker_run evs (NewCircuitBreaker cfg)) = streak (bkIsError cfg) (rev (map snd evs))"
proof (induction evs rule: rev_induct)
  case (snoc e evs)
  have "cbIsError (breaker_run evs (NewCircuitBreaker cfg)) = bkIsError cfg" by (simp add: NewCircuitBreaker_def)
  then show ?case using snoc by (cases e; cases "snd e") (auto simp: breaker_ops)
qed (simp add: breaker_run_def NewCircuitBreaker_def)

lemma breaker_run_open:
  "cbState (breaker_run evs (NewCircuitBreaker cfg)) = StateOpen \<longleftrightarrow> open_after (bkIsError cfg) (bkThreshold cfg) (map snd evs)"
proof (induction evs rule: rev_induct)
  case Nil
  show ?case by (simp add: breaker_run_def NewCircuitBreaker_def open_after_def)
next
  case (snoc e evs)
  let ?cb = "breaker_run evs (NewCircuitBreaker cfg)"
  have cfg: "cbIsError ?cb = bkIsError cfg" "cbFailThreshold ?cb = bkThreshold cfg" by (simp_all add: NewCircuitBreaker_def)
  have state: "cbState ?cb \<noteq> StateClosed \<longleftrightarrow> cbState ?cb = StateOpen" by (cases "cbState ?cb") simp_all
  obtain now ev where e: "e = (now, ev)" by (cases e)
  show ?case
    using snoc state cfg breaker_run_failures [of evs cfg]
    by (cases ev) (auto simp: e open_after_snoc opens_def breaker_ops)
qed

subsection \<open>The prober\<close>

text \<open>The longest wait between two checks.\<close>

definition longest_wait :: "int \<Rightarrow> Recovery \<Rightarrow> int" where
  "longest_wait timeout r = max (rcMaxBackoff r) (max timeout DefaultWatchdogInterval)"

lemma prober_wait_bounds:
  "max (cbOpenTimeout cb) DefaultWatchdogInterval \<le> prober_wait cb p"
  "prober_wait cb p \<le> longest_wait (cbOpenTimeout cb) (rpRecovery p)"
proof -
  let ?e = "prober_backoff cb (rpRecovery p)"
  have e: "Base ?e = max (cbOpenTimeout cb) DefaultWatchdogInterval" "Ceiling ?e = longest_wait (cbOpenTimeout cb) (rpRecovery p)"
    by (simp_all add: prober_backoff_def longest_wait_def Let_def)
  have "0 < Base ?e" "Base ?e \<le> Ceiling ?e"
    by (simp_all add: e longest_wait_def DefaultWatchdogInterval_def)
  then show "max (cbOpenTimeout cb) DefaultWatchdogInterval \<le> prober_wait cb p"
    "prober_wait cb p \<le> longest_wait (cbOpenTimeout cb) (rpRecovery p)"
    unfolding prober_wait_def by (simp_all only: Exponential_For_bounds flip: e)
qed

text \<open>A check is due no later than the longest wait after the last tick.\<close>

definition prober_ok :: "int \<Rightarrow> Recovery \<Rightarrow> time \<Rightarrow> CircuitBreaker \<times> RecoveryProber \<Rightarrow> bool" where
  "prober_ok timeout r now s \<longleftrightarrow>
    cbOpenTimeout (fst s) = timeout \<and> rpRecovery (snd s) = r \<and>
    (\<forall>due. rpNextDue (snd s) = Some due \<longrightarrow> due \<le> now + longest_wait timeout r)"

lemma Recover_healthy [simp]: "cbState (Recover now cb) = StateClosed" "cbOpenTimeout (Recover now cb) = cbOpenTimeout cb"
  by (simp_all add: breaker_ops)

lemma prober_ok_mono: "prober_ok timeout r now s \<Longrightarrow> now \<le> now' \<Longrightarrow> prober_ok timeout r now' s"
  by (fastforce simp: prober_ok_def)

lemma prober_ok_between: "prober_ok timeout r now s \<Longrightarrow> prober_ok timeout r now (apfst (breaker_run evs) s)"
  by (simp add: prober_ok_def)

lemma Probe_ok:
  assumes "prober_ok timeout r now s"
  shows "prober_ok timeout r now (Probe now (breaker_run evs) s)"
proof -
  obtain cb p where s: "s = (cb, p)" by (cases s)
  have "prober_wait cb p \<le> longest_wait (cbOpenTimeout cb) (rpRecovery p)"
    "prober_wait (breaker_run evs cb) (p\<lparr>rpFailures := rpFailures p + 1\<rparr>) \<le> longest_wait (cbOpenTimeout cb) (rpRecovery p)"
    using prober_wait_bounds(2) [of cb p] prober_wait_bounds(2) [of "breaker_run evs cb" "p\<lparr>rpFailures := rpFailures p + 1\<rparr>"]
    by simp_all
  with assms show ?thesis
    by (auto simp: s Probe_def prober_ok_def Let_def split: option.splits)
qed

lemma watch_ok:
  assumes "prober_ok timeout r (tick 0) s" "\<forall>k. tick k < tick (Suc k)"
  shows "prober_ok timeout r (tick k) (watch tick between during s k)"
proof (induction k)
  case 0
  show ?case using assms(1) by (simp add: Probe_ok prober_ok_between)
next
  case (Suc k)
  have "prober_ok timeout r (tick (Suc k)) (watch tick between during s k)"
    using Suc assms(2) by (meson prober_ok_mono less_imp_le)
  then show ?case by (simp add: Probe_ok prober_ok_between)
qed

text \<open>A probe of an open circuit schedules a check, keeps the one scheduled, or runs it.\<close>

lemma Probe_passing:
  assumes "rcCheck (rpRecovery (snd s)) now = None" "recovery_admits (rpRecovery (snd s)) now" "rpNextDue (snd s) = Some due"
  shows "IsHealthy (fst (Probe now during s)) \<or> now < due \<and> rpNextDue (snd (Probe now during s)) = Some due"
  using assms by (cases s) (auto simp: Probe_def IsHealthy_def Let_def intro: State.exhaust)

lemma Probe_schedules:
  assumes "\<not> IsHealthy (fst (Probe now during s))"
  shows "\<exists>due. rpNextDue (snd (Probe now during s)) = Some due"
  using assms by (cases s) (auto simp: Probe_def IsHealthy_def Let_def split: option.splits if_splits intro: State.exhaust)

text \<open>While the dependency answers, a check that is scheduled stays scheduled until it closes the circuit.\<close>

lemma watch_until_due:
  assumes answers: "\<And>t. from \<le> t \<Longrightarrow> rcCheck r t = None \<and> recovery_admits r t" "from \<le> tick k"
    and ok: "prober_ok timeout r (tick 0) s" "\<forall>k. tick k < tick (Suc k)"
    and due: "rpNextDue (snd (watch tick between during s k)) = Some due"
  shows "(\<exists>j\<in>{k..k + n}. IsHealthy (fst (watch tick between during s j))) \<or>
    rpNextDue (snd (watch tick between during s (k + n))) = Some due \<and> (0 < n \<longrightarrow> tick (k + n) < due)"
proof (induction n)
  case (Suc n)
  let ?w = "watch tick between during s"
  let ?s = "apfst (breaker_run (between (k + Suc n))) (?w (k + n))"
  show ?case
  proof (cases "\<exists>j\<in>{k..k + n}. IsHealthy (fst (?w j))")
    case True
    then show ?thesis by fastforce
  next
    case False
    have "mono tick" using ok(2) by (simp add: mono_iff_le_Suc less_imp_le)
    then have "tick k \<le> tick (k + Suc n)" by (simp add: monoD)
    moreover have "rpRecovery (snd ?s) = r" using watch_ok [OF ok, of "k + n"] by (simp add: prober_ok_def)
    moreover have "rpNextDue (snd ?s) = Some due" using False Suc by simp
    ultimately have "IsHealthy (fst (?w (k + Suc n))) \<or> tick (k + Suc n) < due \<and> rpNextDue (snd (?w (k + Suc n))) = Some due"
      using Probe_passing [of ?s "tick (k + Suc n)" due] answers by simp
    then show ?thesis by fastforce
  qed
qed (simp add: due)

lemma ticks_reach:
  fixes tick :: "nat \<Rightarrow> int"
  assumes "\<forall>k. tick k < tick (Suc k) \<and> tick (Suc k) \<le> tick k + gap" "tick k < due"
  shows "\<exists>n. due \<le> tick (k + n) \<and> tick (k + n) < due + gap"
proof -
  have "tick k + int n \<le> tick (k + n)" for n
  proof (induction n)
    case (Suc n)
    then show ?case using assms(1) [rule_format, of "k + n"] by simp
  qed simp
  then have "due \<le> tick (k + nat (due - tick k))" using assms(2) by (smt (verit) nat_0_le)
  then have ex: "\<exists>n. due \<le> tick (k + n)" by blast
  define n where "n = (LEAST n. due \<le> tick (k + n))"
  have n: "due \<le> tick (k + n)" unfolding n_def using ex by (rule LeastI_ex)
  then obtain m where m: "n = Suc m" using assms(2) by (cases n) auto
  then have "\<not> due \<le> tick (k + m)" using not_less_Least [of m "\<lambda>n. due \<le> tick (k + n)"] by (simp flip: n_def)
  then have "tick (k + n) < due + gap" using assms(1) [rule_format, of "k + m"] by (simp add: m)
  with n show ?thesis by blast
qed

subsection \<open>Properties\<close>

text \<open>C24. The circuit is open exactly when some event opened it and no recovery has come since: an owner's trip, or a
  failure that made the failures in a row reach the threshold. A guarded call on an open circuit returns the sentinel
  and never runs; on a closed one it runs and its outcome is counted.\<close>

theorem Call_refused_exactly_when_open:
  "Call now fn zero (breaker_run evs (NewCircuitBreaker cfg), w) =
    (if open_after (bkIsError cfg) (bkThreshold cfg) (map snd evs)
     then ((zero, Some (Plain (bkSentinel cfg))), breaker_run evs (NewCircuitBreaker cfg), w)
     else (case fn w of ((result, err), w') \<Rightarrow>
       ((result, fst (PostCheck now err (breaker_run evs (NewCircuitBreaker cfg)))),
        breaker_run (evs @ [(now, Answered err)]) (NewCircuitBreaker cfg), w')))"
  using breaker_run_open [of evs cfg]
  by (auto simp: Call_def PreCheck_def NewCircuitBreaker_def split: prod.splits)

text \<open>C25. An open circuit recovers: once the dependency answers its checks, the watchdog closes the circuit within the
  longest wait and one gap between its ticks, whatever the callers do to the breaker between the ticks and during the
  checks, and however often the check had failed before.\<close>

theorem open_circuit_recovers:
  assumes "\<forall>k. tick k < tick (Suc k) \<and> tick (Suc k) \<le> tick k + gap"
    and "\<forall>t\<ge>from. rcCheck r t = None \<and> recovery_admits r t" "from \<le> tick k"
  shows "\<exists>j\<ge>k. tick j \<le> tick k + longest_wait (cbOpenTimeout cb) r + gap \<and>
    IsHealthy (fst (watch tick between during (cb, NewRecoveryProber r) j))"
proof -
  let ?w = "watch tick between during (cb, NewRecoveryProber r)" and ?W = "longest_wait (cbOpenTimeout cb) r"
  have ok: "prober_ok (cbOpenTimeout cb) r (tick 0) (cb, NewRecoveryProber r)" "\<forall>k. tick k < tick (Suc k)"
    using assms(1) by (simp_all add: prober_ok_def NewRecoveryProber_def)
  have mono: "mono tick" using ok(2) by (simp add: mono_iff_le_Suc less_imp_le)
  have gap: "0 < gap" using assms(1) [rule_format, of 0] by linarith
  have W: "0 < ?W" by (simp add: longest_wait_def DefaultWatchdogInterval_def)
  show ?thesis
  proof (cases "IsHealthy (fst (?w k))")
    case True
    with gap W show ?thesis by (intro exI [of _ k]) simp
  next
    case False
    then obtain due where due: "rpNextDue (snd (?w k)) = Some due"
      by (cases k) (auto dest: Probe_schedules)
    have "due \<le> tick k + ?W" using watch_ok [OF ok, of k] due by (simp add: prober_ok_def)
    moreover have "tick k < max due (tick k + 1)" by simp
    then obtain n where n: "max due (tick k + 1) \<le> tick (k + n)" "tick (k + n) < max due (tick k + 1) + gap"
      using ticks_reach [OF assms(1)] by blast
    ultimately have "tick (k + n) \<le> tick k + ?W + gap" using W by linarith
    moreover have "0 < n" using n(1) by (cases n) auto
    then obtain j where "j \<in> {k..k + n}" "IsHealthy (fst (?w j))"
      using watch_until_due [OF _ assms(3) ok due, of n] assms(2) n(1) by fastforce
    moreover have "tick j \<le> tick (k + n)" using calculation(2) mono by (simp add: monoD)
    ultimately show ?thesis by (intro exI [of _ j]) auto
  qed
qed

text \<open>A database that is down for a minute, its circuit tripped at the start and failing calls in every gap.\<close>

definition sample_recovery :: Recovery where
  "sample_recovery =
    \<lparr>rcCheck = (\<lambda>t. if t < 60000000000 then Some (Refused ''connection refused'') else None),
     rcMaxBackoff = 300000000000, rcAdmit = None\<rparr>"

definition sample_circuit :: CircuitBreaker where
  "sample_circuit = Trip 0 (Refused ''connection refused'')
    (NewDatabaseBreaker 3 15000000000 (\<lambda>_. False) (\<lambda>_. False))"

definition sample_ticks :: "nat \<Rightarrow> time" where
  "sample_ticks k = DefaultWatchdogInterval * int k"

theorem open_circuit_recovers_witness:
  "\<exists>j\<ge>12. sample_ticks j \<le> sample_ticks 12 + longest_wait (cbOpenTimeout sample_circuit) sample_recovery + DefaultWatchdogInterval \<and>
    IsHealthy (fst (watch sample_ticks (\<lambda>k. [(sample_ticks k, Answered (Some (Refused ''connection refused'')))]) (\<lambda>_. [])
      (sample_circuit, NewRecoveryProber sample_recovery) j))"
  by (rule open_circuit_recovers [of _ _ 60000000000])
    (simp_all add: sample_ticks_def sample_recovery_def recovery_admits_def DefaultWatchdogInterval_def)

end
