(* ===== verification/InternalKey.thy ===== *)
theory InternalKey
  imports Prelude "HOL-Library.Sublist"
begin

text \<open>
  The naming of keys and paths (\<open>internal/internalkey\<close>): a bucket and a user's key in one internal key, and the path
  on a backend at which one write of an object stores its bytes.
\<close>

definition Separator :: string where "Separator = ''/''"

definition Make :: "string \<Rightarrow> string \<Rightarrow> string" where
  "Make bucket userKey = bucket @ Separator @ userKey"

definition Prefix :: "string \<Rightarrow> string" where
  "Prefix bucket = bucket @ Separator"

text \<open>\<open>strings.Cut\<close> at the separator, which is one byte.\<close>

definition Split :: "string \<Rightarrow> string \<times> string" where
  "Split internalKey =
    (let bucket = takeWhile (\<lambda>c. [c] \<noteq> Separator) internalKey in (bucket, drop (Suc (length bucket)) internalKey))"

definition WriteSeparator :: string where "WriteSeparator = ''!''"

definition CopyPrefix :: "string \<Rightarrow> string" where
  "CopyPrefix objectKey = objectKey @ WriteSeparator"

definition StorageKey :: "string \<Rightarrow> string \<Rightarrow> string" where
  "StorageKey objectKey intentID = CopyPrefix objectKey @ intentID"

definition writeIDLength :: nat where "writeIDLength = 32"

text \<open>The loop over the id compares code points; on a byte of a longer code point, as on that code point, the
  comparison fails.\<close>

definition is_hex :: "char \<Rightarrow> bool" where
  "is_hex c \<longleftrightarrow> CHR ''0'' \<le> c \<and> c \<le> CHR ''9'' \<or> CHR ''a'' \<le> c \<and> c \<le> CHR ''f''"

definition IsCopyOf :: "string \<Rightarrow> string \<Rightarrow> bool" where
  "IsCopyOf objectKey path \<longleftrightarrow>
    (if path = objectKey then True
     else if \<not> prefix (CopyPrefix objectKey) path then False
     else
       let id = drop (length (CopyPrefix objectKey)) path in
       if length id \<noteq> writeIDLength then False else list_all is_hex id)"

text \<open>Buckets carry no separator, so splitting undoes joining.\<close>

lemma Split_Make:
  assumes "CHR ''/'' \<notin> set bucket"
  shows "Split (Make bucket userKey) = (bucket, userKey)"
proof -
  have "takeWhile (\<lambda>c. c \<noteq> CHR ''/'') (bucket @ CHR ''/'' # userKey) = bucket"
    using assms by (subst takeWhile_append2) auto
  then show ?thesis by (simp add: Split_def Make_def Separator_def)
qed

lemma IsCopyOf_iff:
  "IsCopyOf key path \<longleftrightarrow> path = key \<or> (\<exists>id. path = StorageKey key id \<and> length id = writeIDLength \<and> list_all is_hex id)"
  by (auto simp: IsCopyOf_def StorageKey_def prefix_def Let_def)

text \<open>A path a write made belongs to one object.\<close>

lemma StorageKey_inject:
  assumes "length i = writeIDLength" "length j = writeIDLength"
  shows "StorageKey k i = StorageKey k' j \<longleftrightarrow> k = k' \<and> i = j"
  using assms by (auto simp: StorageKey_def CopyPrefix_def)

end
