(* ===== verification/Cache.thy ===== *)
theory Cache
  imports InternalKey
begin

text \<open>
  The object cache (\<open>internal/cache\<close>): a size-aware LRU list with expiry (\<open>memory.go\<close>) and the invalidations
  that instances carry to each other (\<open>invalidation.go\<close>). An element of the list has an identity, a number drawn
  when it is pushed, and a value that is never changed; the map \<open>items\<close> holds the elements by key. Every method holds
  the cache's lock, so a method is one step. \<open>time.Now\<close> is the argument \<open>now\<close>. Metrics are left out.
\<close>

subsection \<open>Entries\<close>

record EntryMeta =
  emContentType :: string
  emETag :: string
  emLastModified :: time
  emMetadata :: "(string \<times> string) list"

record Entry =
  enData :: string
  enMeta :: EntryMeta

definition Entry_Size :: "Entry \<Rightarrow> int" where
  "Entry_Size e =
    int (length (enData e)) + int (length (emContentType (enMeta e))) + int (length (emETag (enMeta e))) +
    (\<Sum>(k, v) \<leftarrow> emMetadata (enMeta e). int (length k + length v))"

record memoryEntry =
  meKey :: string
  meEntry :: Entry
  meSize :: int
  meExpiresAt :: time

type_synonym element = "nat \<times> memoryEntry"

record MemoryCache =
  mcItems :: "(string \<times> element) list"
  mcOrder :: "element list"
  mcSizeBytes :: int
  mcMaxSize :: int
  mcMaxObjectSize :: int
  mcTTL :: int
  mcHits :: int
  mcMisses :: int
  mcNextElement :: nat

record MemoryConfig =
  cfMaxSize :: int
  cfMaxObjectSize :: int
  cfTTL :: int

record Stats =
  stEntries :: int
  stSizeBytes :: int
  stMaxBytes :: int
  stHits :: int
  stMisses :: int

definition NewMemoryCache :: "MemoryConfig \<Rightarrow> error + MemoryCache" where
  "NewMemoryCache cfg =
    (if cfMaxSize cfg \<le> 0 then Inl (Refused ''cache max_size must be positive'')
     else if cfMaxObjectSize cfg \<le> 0 then Inl (Refused ''cache max_object_size must be positive'')
     else if cfMaxObjectSize cfg > cfMaxSize cfg then Inl (Refused ''cache max_object_size cannot exceed max_size'')
     else if cfTTL cfg \<le> 0 then Inl (Refused ''cache ttl must be positive'')
     else Inr \<lparr>mcItems = [], mcOrder = [], mcSizeBytes = 0, mcMaxSize = cfMaxSize cfg,
       mcMaxObjectSize = cfMaxObjectSize cfg, mcTTL = cfTTL cfg, mcHits = 0, mcMisses = 0, mcNextElement = 0\<rparr>)"

subsection \<open>Operations\<close>

definition removeLocked :: "element \<Rightarrow> MemoryCache \<Rightarrow> MemoryCache" where
  "removeLocked el c =
    c\<lparr>mcOrder := filter (\<lambda>x. fst x \<noteq> fst el) (mcOrder c),
      mcItems := filter (\<lambda>x. fst x \<noteq> meKey (snd el)) (mcItems c),
      mcSizeBytes := mcSizeBytes c - meSize (snd el)\<rparr>"

definition evictLocked :: "MemoryCache \<Rightarrow> MemoryCache" where
  "evictLocked c = (if mcOrder c = [] then c else removeLocked (last (mcOrder c)) c)"

definition MoveToFront :: "element \<Rightarrow> element list \<Rightarrow> element list" where
  "MoveToFront el order = el # filter (\<lambda>x. fst x \<noteq> fst el) order"

definition Get :: "time \<Rightarrow> string \<Rightarrow> MemoryCache \<Rightarrow> Entry option \<times> MemoryCache" where
  "Get now key c =
    (case map_of (mcItems c) key of
       None \<Rightarrow> (None, c\<lparr>mcMisses := mcMisses c + 1\<rparr>)
     | Some el \<Rightarrow>
         if now > meExpiresAt (snd el)
         then (let c = removeLocked el c in (None, c\<lparr>mcMisses := mcMisses c + 1\<rparr>))
         else (Some (meEntry (snd el)), c\<lparr>mcOrder := MoveToFront el (mcOrder c), mcHits := mcHits c + 1\<rparr>))"

definition Admit :: "MemoryCache \<Rightarrow> int \<Rightarrow> bool" where
  "Admit c n \<longleftrightarrow> n > 0 \<and> n \<le> mcMaxObjectSize c"

function evict_for :: "int \<Rightarrow> MemoryCache \<Rightarrow> MemoryCache" where
  "evict_for entrySize c =
    (if mcSizeBytes c + entrySize > mcMaxSize c \<and> length (mcOrder c) > 0
     then evict_for entrySize (evictLocked c) else c)"
  by pat_completeness auto

termination evict_for
proof (relation "measure (\<lambda>(_, c). length (mcOrder c))")
  fix entrySize :: int and c :: MemoryCache
  assume "mcSizeBytes c + entrySize > mcMaxSize c \<and> length (mcOrder c) > 0"
  then have "last (mcOrder c) \<in> set (mcOrder c)" by simp
  then have "length (filter (\<lambda>x. fst x \<noteq> fst (last (mcOrder c))) (mcOrder c)) < length (mcOrder c)"
    by (rule length_filter_less) simp
  then show "((entrySize, evictLocked c), entrySize, c) \<in> measure (\<lambda>(_, c). length (mcOrder c))"
    by (auto simp: evictLocked_def removeLocked_def)
qed simp

declare evict_for.simps [simp del]

definition PutBytes :: "time \<Rightarrow> string \<Rightarrow> string \<Rightarrow> EntryMeta \<Rightarrow> MemoryCache \<Rightarrow> MemoryCache" where
  "PutBytes now key data meta c =
    (let entry = \<lparr>enData = data, enMeta = meta\<rparr>;
         entrySize = Entry_Size entry;
         c = (case map_of (mcItems c) key of Some el \<Rightarrow> removeLocked el c | None \<Rightarrow> c);
         c = evict_for entrySize c in
     if mcSizeBytes c + entrySize > mcMaxSize c then c
     else
       let me = \<lparr>meKey = key, meEntry = entry, meSize = entrySize, meExpiresAt = now + mcTTL c\<rparr>;
           el = (mcNextElement c, me) in
       c\<lparr>mcOrder := el # mcOrder c, mcItems := (key, el) # filter (\<lambda>x. fst x \<noteq> key) (mcItems c),
         mcSizeBytes := mcSizeBytes c + entrySize, mcNextElement := Suc (mcNextElement c)\<rparr>)"

definition removeMatching :: "(string \<Rightarrow> bool) \<Rightarrow> MemoryCache \<Rightarrow> int \<times> MemoryCache" where
  "removeMatching match c =
    (let matches = map snd (filter (\<lambda>x. match (fst x)) (mcItems c)) in
     (int (length matches), fold removeLocked matches c))"

definition Invalidate :: "string \<Rightarrow> MemoryCache \<Rightarrow> MemoryCache" where
  "Invalidate key c = snd (removeMatching (IsCopyOf key) c)"

definition InvalidatePrefix :: "string \<Rightarrow> MemoryCache \<Rightarrow> int \<times> MemoryCache" where
  "InvalidatePrefix pre c = removeMatching (prefix pre) c"

definition Clear :: "MemoryCache \<Rightarrow> int \<times> MemoryCache" where
  "Clear c = (int (length (mcItems c)), c\<lparr>mcItems := [], mcOrder := [], mcSizeBytes := 0\<rparr>)"

definition MemoryCache_Stats :: "MemoryCache \<Rightarrow> Stats" where
  "MemoryCache_Stats c =
    \<lparr>stEntries = int (length (mcItems c)), stSizeBytes = mcSizeBytes c, stMaxBytes = mcMaxSize c,
     stHits = mcHits c, stMisses = mcMisses c\<rparr>"

record Invalidation =
  ivAll :: bool
  ivKey :: string
  ivPrefix :: string

definition Invalidation_Apply :: "Invalidation \<Rightarrow> MemoryCache \<Rightarrow> int \<times> MemoryCache" where
  "Invalidation_Apply iv c =
    (if ivAll iv then Clear c
     else if ivKey iv \<noteq> [] then (0, Invalidate (ivKey iv) c)
     else if ivPrefix iv \<noteq> [] then InvalidatePrefix (ivPrefix iv) c
     else (0, c))"

subsection \<open>Map and list in step\<close>

definition entries_size :: "element list \<Rightarrow> int" where
  "entries_size els = (\<Sum>el \<leftarrow> els. meSize (snd el))"

definition el_key :: "element \<Rightarrow> string" where
  "el_key el = meKey (snd el)"

text \<open>The map holds exactly the elements of the list, each under its key; the size is the sum of the entries' sizes
  and within the limit.\<close>

definition cache_ok :: "MemoryCache \<Rightarrow> bool" where
  "cache_ok c \<longleftrightarrow>
    distinct (map fst (mcOrder c)) \<and> distinct (map el_key (mcOrder c)) \<and>
    distinct (map fst (mcItems c)) \<and> set (mcItems c) = (\<lambda>el. (el_key el, el)) ` set (mcOrder c) \<and>
    (\<forall>el \<in> set (mcOrder c). fst el < mcNextElement c \<and> meSize (snd el) = Entry_Size (meEntry (snd el))) \<and>
    mcSizeBytes c = entries_size (mcOrder c) \<and> mcSizeBytes c \<le> mcMaxSize c"

lemma entries_size_simps [simp]:
  "entries_size [] = 0" "entries_size (el # els) = meSize (snd el) + entries_size els" "entries_size (xs @ ys) = entries_size xs + entries_size ys"
  by (simp_all add: entries_size_def)

lemma Entry_Size_nonneg: "0 \<le> Entry_Size e"
  by (auto simp: Entry_Size_def intro!: add_nonneg_nonneg sum_list_nonneg)

lemma entries_size_remove:
  "\<lbrakk>distinct (map fst els); el \<in> set els\<rbrakk> \<Longrightarrow> entries_size (filter (\<lambda>x. fst x \<noteq> fst el) els) = entries_size els - meSize (snd el)"
proof (induction els)
  case (Cons x els)
  have "filter (\<lambda>y. fst y \<noteq> fst x) els = els" using Cons.prems(1) by (auto simp: filter_id_conv rev_image_eqI)
  moreover have "fst x = fst el \<longleftrightarrow> x = el" using Cons.prems by (auto simp: rev_image_eqI)
  ultimately show ?case using Cons by auto
qed simp

lemma cache_size_nonneg:
  assumes "cache_ok c"
  shows "0 \<le> mcSizeBytes c"
proof -
  have "\<forall>n \<in> set (map (\<lambda>el. meSize (snd el)) (mcOrder c)). 0 \<le> n"
    using assms by (simp add: cache_ok_def Entry_Size_nonneg)
  then have "0 \<le> entries_size (mcOrder c)" unfolding entries_size_def by (intro sum_list_nonneg) blast
  then show ?thesis using assms by (simp add: cache_ok_def)
qed

lemma items_lookup:
  assumes "cache_ok c"
  shows "map_of (mcItems c) key = Some el \<longleftrightarrow> el \<in> set (mcOrder c) \<and> el_key el = key"
  using assms by (auto simp: cache_ok_def)

lemma size_nonneg:
  assumes "cache_ok c" "el \<in> set (mcOrder c)"
  shows "0 \<le> meSize (snd el)"
  using assms by (simp add: cache_ok_def Entry_Size_nonneg)

text \<open>Removing an element by its identity and by its key is the same.\<close>

lemma same_element:
  assumes "cache_ok c" "x \<in> set (mcOrder c)" "el \<in> set (mcOrder c)"
  shows "el_key x = el_key el \<longleftrightarrow> x = el" "fst x = fst el \<longleftrightarrow> x = el"
  using assms by (auto simp: cache_ok_def distinct_map dest: inj_onD)

lemma removeLocked_ok:
  assumes "cache_ok c" "el \<in> set (mcOrder c)"
  shows "cache_ok (removeLocked el c)"
proof -
  let ?o = "filter (\<lambda>x. fst x \<noteq> fst el) (mcOrder c)" and ?i = "filter (\<lambda>x. fst x \<noteq> el_key el) (mcItems c)"
  have "set ?i = (\<lambda>el. (el_key el, el)) ` set ?o"
    using assms same_element [OF assms(1) _ assms(2)] by (auto simp: cache_ok_def)
  moreover have "entries_size ?o \<le> mcMaxSize c"
    using assms size_nonneg [OF assms] by (simp add: cache_ok_def entries_size_remove)
  ultimately show ?thesis
    using assms by (auto simp: cache_ok_def removeLocked_def el_key_def entries_size_remove distinct_map_filter)
qed

lemma removeLocked_config [simp]:
  "mcMaxSize (removeLocked el c) = mcMaxSize c" "mcTTL (removeLocked el c) = mcTTL c"
  "mcNextElement (removeLocked el c) = mcNextElement c"
  by (simp_all add: removeLocked_def)

subsection \<open>What the cache holds\<close>

definition held :: "MemoryCache \<Rightarrow> string \<Rightarrow> (Entry \<times> time) option" where
  "held c key = map_option (\<lambda>el. (meEntry (snd el), meExpiresAt (snd el))) (map_of (mcItems c) key)"

lemma map_of_remove: "map_of (filter (\<lambda>x. fst x \<noteq> k) xs) = (map_of xs)(k := None)"
  by (induction xs) auto

lemma held_removeLocked: "held (removeLocked el c) = (held c)(el_key el := None)"
  by (auto simp: held_def removeLocked_def map_of_remove el_key_def)

lemma held_removed_le: "held (removeLocked el c) \<subseteq>\<^sub>m held c"
  by (auto simp: held_removeLocked map_le_def)

lemma evictLocked_last:
  assumes "cache_ok c" "mcOrder c = xs @ [x]"
  shows "mcOrder (evictLocked c) = xs" "cache_ok (evictLocked c)" "held (evictLocked c) \<subseteq>\<^sub>m held c"
    "mcMaxSize (evictLocked c) = mcMaxSize c" "mcTTL (evictLocked c) = mcTTL c" "mcNextElement (evictLocked c) = mcNextElement c"
proof -
  have ev: "evictLocked c = removeLocked x c" by (simp add: evictLocked_def assms(2))
  have "fst x \<notin> fst ` set xs" using assms by (simp add: cache_ok_def)
  then have "filter (\<lambda>y. fst y \<noteq> fst x) xs = xs" by (metis (mono_tags, lifting) filter_True image_eqI)
  then show "mcOrder (evictLocked c) = xs" by (simp add: ev removeLocked_def assms(2))
qed (use assms in \<open>simp_all add: evictLocked_def removeLocked_ok held_removed_le\<close>)

text \<open>Eviction keeps the longest stretch of most recently used entries that leaves the room asked for.\<close>

definition evicts_to :: "int \<Rightarrow> int \<Rightarrow> element list \<Rightarrow> element list \<Rightarrow> bool" where
  "evicts_to maxSize room els kept \<longleftrightarrow>
    (\<exists>gone. els = kept @ gone \<and> (gone \<noteq> [] \<longrightarrow> entries_size (kept @ [hd gone]) + room > maxSize)) \<and>
    (kept = [] \<or> entries_size kept + room \<le> maxSize)"

lemma evict_for_ok:
  "cache_ok c \<Longrightarrow>
    cache_ok (evict_for room c) \<and> held (evict_for room c) \<subseteq>\<^sub>m held c \<and>
    mcMaxSize (evict_for room c) = mcMaxSize c \<and> mcTTL (evict_for room c) = mcTTL c \<and>
    evicts_to (mcMaxSize c) room (mcOrder c) (mcOrder (evict_for room c))"
proof (induction room c rule: evict_for.induct)
  case (1 room c)
  show ?case
  proof (cases "mcSizeBytes c + room > mcMaxSize c \<and> length (mcOrder c) > 0")
    case False
    then have "evict_for room c = c" by (subst evict_for.simps) (rule if_not_P)
    moreover have "evicts_to (mcMaxSize c) room (mcOrder c) (mcOrder c)"
      using False 1(2) by (auto simp: evicts_to_def cache_ok_def)
    ultimately show ?thesis using 1(2) by simp
  next
    case True
    then obtain xs x where o: "mcOrder c = xs @ [x]" by (cases "mcOrder c" rule: rev_cases) auto
    note ev = evictLocked_last [OF 1(2) o]
    note IH = 1(1) [OF True ev(2)]
    have step: "evict_for room c = evict_for room (evictLocked c)" using True by (simp add: evict_for.simps [of room c])
    let ?k = "mcOrder (evict_for room (evictLocked c))"
    obtain gone where g: "xs = ?k @ gone" "gone \<noteq> [] \<longrightarrow> entries_size (?k @ [hd gone]) + room > mcMaxSize c"
      and fits: "?k = [] \<or> entries_size ?k + room \<le> mcMaxSize c"
      using IH ev by (auto simp: evicts_to_def)
    have "mcOrder c = ?k @ (gone @ [x])" using o g(1) by simp
    moreover have "entries_size (?k @ [hd (gone @ [x])]) + room > mcMaxSize c"
    proof (cases "gone = []")
      case True': True
      then have "mcOrder c = ?k @ [x]" using o g(1) by simp
      then show ?thesis using True True' 1(2) by (simp add: cache_ok_def)
    qed (use g(2) in simp)
    ultimately have "evicts_to (mcMaxSize c) room (mcOrder c) ?k"
      unfolding evicts_to_def using fits by blast
    moreover have "held (evict_for room (evictLocked c)) \<subseteq>\<^sub>m held c" using IH ev(3) map_le_trans by blast
    ultimately show ?thesis using IH ev by (simp add: step)
  qed
qed

lemma cache_ok_counters [simp]:
  "cache_ok (c\<lparr>mcMisses := n\<rparr>) = cache_ok c" "cache_ok (c\<lparr>mcHits := n\<rparr>) = cache_ok c"
  by (simp_all add: cache_ok_def)

lemma held_counters [simp]:
  "held (c\<lparr>mcMisses := n\<rparr>) = held c" "held (c\<lparr>mcHits := n\<rparr>) = held c" "held (c\<lparr>mcOrder := els\<rparr>) = held c"
  by (simp_all add: held_def fun_eq_iff)

lemma cache_ok_reorder:
  assumes "cache_ok c" "set els = set (mcOrder c)" "distinct els"
  shows "cache_ok (c\<lparr>mcOrder := els\<rparr>)"
proof -
  have "distinct (mcOrder c)" using assms(1) by (simp add: cache_ok_def distinct_map)
  then have "entries_size els = entries_size (mcOrder c)"
    using assms(2,3) by (simp add: entries_size_def sum_list_distinct_conv_sum_set)
  moreover have "distinct (map fst els)" "distinct (map el_key els)"
    using assms unfolding cache_ok_def distinct_map by simp_all
  ultimately show ?thesis using assms(1) unfolding cache_ok_def by (simp add: assms(2))
qed

lemma MoveToFront_ok:
  assumes "cache_ok c" "el \<in> set (mcOrder c)"
  shows "cache_ok (c\<lparr>mcOrder := MoveToFront el (mcOrder c)\<rparr>)"
proof (rule cache_ok_reorder [OF assms(1)])
  show "set (MoveToFront el (mcOrder c)) = set (mcOrder c)"
  proof (rule set_eqI)
    fix x
    show "x \<in> set (MoveToFront el (mcOrder c)) \<longleftrightarrow> x \<in> set (mcOrder c)"
      using assms(2) same_element(2) [OF assms(1) _ assms(2), of x] by (cases "x = el") (auto simp: MoveToFront_def)
  qed
  show "distinct (MoveToFront el (mcOrder c))"
    using assms(1) by (simp add: MoveToFront_def cache_ok_def distinct_map)
qed

lemma Get_ok:
  assumes "cache_ok c"
  shows "cache_ok (snd (Get now key c))" "held (snd (Get now key c)) \<subseteq>\<^sub>m held c"
    "mcTTL (snd (Get now key c)) = mcTTL c" "mcMaxSize (snd (Get now key c)) = mcMaxSize c"
proof -
  have "el \<in> set (mcOrder c)" if "map_of (mcItems c) key = Some el" for el
    using that items_lookup [OF assms] by blast
  then show "cache_ok (snd (Get now key c))"
    using assms by (auto simp: Get_def Let_def removeLocked_ok MoveToFront_ok split: option.split)
qed (simp_all add: Get_def Let_def held_removed_le split: option.split)

lemma Get_hit:
  assumes "fst (Get now key c) = Some e"
  shows "\<exists>expires. held c key = Some (e, expires) \<and> now \<le> expires"
  using assms by (auto simp: Get_def held_def Let_def split: option.splits if_splits)

text \<open>Before a put its key is forgotten.\<close>

definition without :: "string \<Rightarrow> MemoryCache \<Rightarrow> MemoryCache" where
  "without key c = (case map_of (mcItems c) key of Some el \<Rightarrow> removeLocked el c | None \<Rightarrow> c)"

lemma without_ok:
  assumes "cache_ok c"
  shows "cache_ok (without key c)" "held (without key c) = (held c)(key := None)"
    "mcOrder (without key c) = filter (\<lambda>el. el_key el \<noteq> key) (mcOrder c)"
    "mcTTL (without key c) = mcTTL c" "mcMaxSize (without key c) = mcMaxSize c"
proof -
  have "cache_ok (without key c) \<and> held (without key c) = (held c)(key := None) \<and>
    mcOrder (without key c) = filter (\<lambda>el. el_key el \<noteq> key) (mcOrder c)"
  proof (cases "map_of (mcItems c) key")
    case None
    then have "el_key el \<noteq> key" if "el \<in> set (mcOrder c)" for el using items_lookup [OF assms, of key el] that by auto
    then have "filter (\<lambda>el. el_key el \<noteq> key) (mcOrder c) = mcOrder c" by (rule filter_True [OF ballI])
    then show ?thesis using assms None by (simp add: without_def held_def fun_eq_iff)
  next
    case (Some el)
    then have el: "el \<in> set (mcOrder c)" "el_key el = key" using items_lookup [OF assms] by blast+
    then have "filter (\<lambda>x. fst x \<noteq> fst el) (mcOrder c) = filter (\<lambda>x. el_key x \<noteq> key) (mcOrder c)"
      using same_element [OF assms _ el(1)] by (intro filter_cong refl) metis
    then show ?thesis using Some el removeLocked_ok [OF assms el(1)]
      by (simp add: without_def held_removeLocked) (simp add: removeLocked_def)
  qed
  then show "cache_ok (without key c)" "held (without key c) = (held c)(key := None)"
    "mcOrder (without key c) = filter (\<lambda>el. el_key el \<noteq> key) (mcOrder c)" by blast+
qed (simp_all add: without_def split: option.split)

lemma cache_ok_push:
  assumes "cache_ok c" "key \<notin> el_key ` set (mcOrder c)" "mcSizeBytes c + Entry_Size e \<le> mcMaxSize c"
    and "el = (mcNextElement c, \<lparr>meKey = key, meEntry = e, meSize = Entry_Size e, meExpiresAt = t\<rparr>)"
  shows "cache_ok (c\<lparr>mcOrder := el # mcOrder c, mcItems := (key, el) # filter (\<lambda>x. fst x \<noteq> key) (mcItems c),
    mcSizeBytes := mcSizeBytes c + Entry_Size e, mcNextElement := Suc (mcNextElement c)\<rparr>)"
proof -
  have el: "el_key el = key" "fst el = mcNextElement c" "snd el = \<lparr>meKey = key, meEntry = e, meSize = Entry_Size e, meExpiresAt = t\<rparr>"
    by (simp_all add: assms(4) el_key_def)
  have "fst x \<noteq> key" if "x \<in> set (mcItems c)" for x
    using that assms(1,2) by (auto simp: cache_ok_def)
  then have items: "filter (\<lambda>x. fst x \<noteq> key) (mcItems c) = mcItems c" by (rule filter_True [OF ballI])
  have "key \<notin> fst ` set (mcItems c)" "mcNextElement c \<notin> fst ` set (mcOrder c)"
    using assms(1,2) by (force simp: cache_ok_def)+
  with assms(1-3) show ?thesis
    unfolding cache_ok_def by (simp add: el items) (metis less_Suc_eq)
qed

definition pushed :: "time \<Rightarrow> string \<Rightarrow> Entry \<Rightarrow> MemoryCache \<Rightarrow> element" where
  "pushed now key e c = (mcNextElement c, \<lparr>meKey = key, meEntry = e, meSize = Entry_Size e, meExpiresAt = now + mcTTL c\<rparr>)"

lemma Put_cases:
  fixes c :: MemoryCache and now :: time and key data :: string and meta :: EntryMeta
  defines "e \<equiv> \<lparr>enData = data, enMeta = meta\<rparr>"
  defines "v \<equiv> evict_for (Entry_Size e) (without key c)"
  shows "PutBytes now key data meta c =
    (if mcSizeBytes v + Entry_Size e > mcMaxSize v then v
     else v\<lparr>mcOrder := pushed now key e v # mcOrder v, mcItems := (key, pushed now key e v) # filter (\<lambda>x. fst x \<noteq> key) (mcItems v),
       mcSizeBytes := mcSizeBytes v + Entry_Size e, mcNextElement := Suc (mcNextElement v)\<rparr>)"
  by (simp add: PutBytes_def Let_def without_def pushed_def e_def v_def)

text \<open>A put keeps the most recently used of the other entries, as many as leave room for it.\<close>

lemma Put_ok:
  fixes c :: MemoryCache and now :: time and key data :: string and meta :: EntryMeta
  assumes "cache_ok c"
  defines "e \<equiv> \<lparr>enData = data, enMeta = meta\<rparr>" and "c' \<equiv> PutBytes now key data meta c"
  shows "cache_ok c'" "held c' \<subseteq>\<^sub>m (held c)(key \<mapsto> (e, now + mcTTL c))" "mcTTL c' = mcTTL c" "mcMaxSize c' = mcMaxSize c"
    "\<exists>kept. evicts_to (mcMaxSize c) (Entry_Size e) (filter (\<lambda>el. el_key el \<noteq> key) (mcOrder c)) kept \<and>
       map (meEntry \<circ> snd) (mcOrder c') = (if Entry_Size e \<le> mcMaxSize c then [e] else []) @ map (meEntry \<circ> snd) kept"
proof -
  define v where "v = evict_for (Entry_Size e) (without key c)"
  note w = without_ok [OF assms(1), of key]
  have v: "cache_ok v" "held v \<subseteq>\<^sub>m (held c)(key := None)" "mcTTL v = mcTTL c" "mcMaxSize v = mcMaxSize c"
    "evicts_to (mcMaxSize c) (Entry_Size e) (filter (\<lambda>el. el_key el \<noteq> key) (mcOrder c)) (mcOrder v)"
    using evict_for_ok [OF w(1), of "Entry_Size e"] w by (simp_all add: v_def)
  have c': "c' = (if mcSizeBytes v + Entry_Size e > mcMaxSize c then v
     else v\<lparr>mcOrder := pushed now key e v # mcOrder v, mcItems := (key, pushed now key e v) # filter (\<lambda>x. fst x \<noteq> key) (mcItems v),
       mcSizeBytes := mcSizeBytes v + Entry_Size e, mcNextElement := Suc (mcNextElement v)\<rparr>)"
    using Put_cases [of now key data meta c] v(4) by (simp add: v_def e_def c'_def)
  have "set (mcOrder v) \<subseteq> set (filter (\<lambda>el. el_key el \<noteq> key) (mcOrder c))"
    using v(5) unfolding evicts_to_def by (metis set_append Un_upper1)
  then have "key \<notin> el_key ` set (mcOrder v)" by auto
  then have "mcSizeBytes v + Entry_Size e \<le> mcMaxSize c \<Longrightarrow> cache_ok c'"
    using cache_ok_push [OF v(1)] v(4) by (simp add: c' pushed_def)
  then show "cache_ok c'" using v(1) by (cases "mcSizeBytes v + Entry_Size e \<le> mcMaxSize c") (simp_all add: c')
  have "held c' = (if mcSizeBytes v + Entry_Size e > mcMaxSize c then held v else (held v)(key \<mapsto> (e, now + mcTTL c)))"
    by (auto simp: c' held_def pushed_def map_of_remove v(3) fun_eq_iff)
  then show "held c' \<subseteq>\<^sub>m (held c)(key \<mapsto> (e, now + mcTTL c))"
    using v(2) by (auto simp: map_le_def dom_def split: if_splits)
  show "mcTTL c' = mcTTL c" "mcMaxSize c' = mcMaxSize c" using v(3,4) by (simp_all add: c')
  have "mcSizeBytes v = entries_size (mcOrder v)" using v(1) by (simp add: cache_ok_def)
  moreover have "mcOrder v = [] \<or> entries_size (mcOrder v) + Entry_Size e \<le> mcMaxSize c" using v(5) by (simp add: evicts_to_def)
  ultimately have "mcSizeBytes v + Entry_Size e \<le> mcMaxSize c \<longleftrightarrow> Entry_Size e \<le> mcMaxSize c"
    using cache_size_nonneg [OF v(1)] by auto
  then show "\<exists>kept. evicts_to (mcMaxSize c) (Entry_Size e) (filter (\<lambda>el. el_key el \<noteq> key) (mcOrder c)) kept \<and>
       map (meEntry \<circ> snd) (mcOrder c') = (if Entry_Size e \<le> mcMaxSize c then [e] else []) @ map (meEntry \<circ> snd) kept"
    using v(5) by (intro exI [of _ "mcOrder v"]) (simp add: c' pushed_def, linarith)
qed

subsection \<open>Removing what matches\<close>

lemma remove_all_ok:
  "\<lbrakk>cache_ok c; distinct els; set els \<subseteq> set (mcOrder c)\<rbrakk> \<Longrightarrow>
    cache_ok (fold removeLocked els c) \<and>
    held (fold removeLocked els c) = (\<lambda>k. if k \<in> el_key ` set els then None else held c k) \<and>
    mcTTL (fold removeLocked els c) = mcTTL c \<and> mcMaxSize (fold removeLocked els c) = mcMaxSize c"
proof (induction els arbitrary: c)
  case (Cons el els)
  have el: "el \<in> set (mcOrder c)" using Cons.prems(3) by simp
  have "x \<in> set (mcOrder (removeLocked el c))" if x: "x \<in> set els" for x
  proof -
    have "x \<noteq> el" "x \<in> set (mcOrder c)" using x Cons.prems by auto
    then show ?thesis using same_element(2) [OF Cons.prems(1) _ el, of x] by (simp add: removeLocked_def)
  qed
  then have "set els \<subseteq> set (mcOrder (removeLocked el c))" by blast
  then show ?case
    using Cons.IH [of "removeLocked el c"] Cons.prems(2) removeLocked_ok [OF Cons.prems(1) el]
    by (simp add: held_removeLocked fun_eq_iff)
qed simp

lemma keyed_matches: "snd ` {x \<in> (\<lambda>a. (g a, a)) ` A. P (fst x)} = {a \<in> A. P (g a)}"
  by (auto simp: image_iff)

lemma keyed_distinct:
  assumes "distinct (map fst xs)" "set xs = (\<lambda>a. (g a, a)) ` A"
  shows "distinct (map snd (filter P xs))"
proof -
  have "inj_on snd (set xs)" by (simp add: assms(2) inj_on_def)
  then have "inj_on snd {x \<in> set xs. P x}" by (rule inj_on_subset) blast
  moreover have "distinct xs" using assms(1) by (simp add: distinct_map)
  ultimately show ?thesis by (simp add: distinct_map)
qed

lemma removeMatching_ok:
  assumes "cache_ok c"
  shows "cache_ok (snd (removeMatching match c))"
    "held (snd (removeMatching match c)) = (\<lambda>k. if match k then None else held c k)"
    "mcTTL (snd (removeMatching match c)) = mcTTL c" "mcMaxSize (snd (removeMatching match c)) = mcMaxSize c"
proof -
  define els where "els = map snd (filter (\<lambda>x. match (fst x)) (mcItems c))"
  have items: "distinct (map fst (mcItems c))" "set (mcItems c) = (\<lambda>el. (el_key el, el)) ` set (mcOrder c)"
    using assms by (simp_all add: cache_ok_def)
  have set: "set els = {el \<in> set (mcOrder c). match (el_key el)}"
    unfolding els_def set_map set_filter items(2) by (rule keyed_matches)
  have "distinct els" unfolding els_def by (rule keyed_distinct [OF items])
  moreover have "set els \<subseteq> set (mcOrder c)" unfolding set by (rule Collect_restrict)
  ultimately have r: "cache_ok (fold removeLocked els c)"
    "held (fold removeLocked els c) = (\<lambda>k. if k \<in> el_key ` set els then None else held c k)"
    "mcTTL (fold removeLocked els c) = mcTTL c" "mcMaxSize (fold removeLocked els c) = mcMaxSize c"
    using remove_all_ok [OF assms, of els] by simp_all
  have s: "snd (removeMatching match c) = fold removeLocked els c" by (simp add: removeMatching_def els_def)
  have "held c k = None" if "match k" "k \<notin> el_key ` set els" for k
  proof (cases "map_of (mcItems c) k")
    case (Some el)
    then have "el \<in> set els" "k = el_key el" using items_lookup [OF assms, of k el] that(1) by (simp_all add: set)
    then have "k \<in> el_key ` set els" by (rule rev_image_eqI)
    then show ?thesis using that(2) by contradiction
  qed (simp add: held_def)
  moreover have "match k" if "k \<in> el_key ` set els" for k using that by (elim imageE) (simp add: set)
  ultimately show "held (snd (removeMatching match c)) = (\<lambda>k. if match k then None else held c k)"
    unfolding s r(2) by (intro ext) meson
  show "cache_ok (snd (removeMatching match c))" "mcTTL (snd (removeMatching match c)) = mcTTL c"
    "mcMaxSize (snd (removeMatching match c)) = mcMaxSize c" using r by (simp_all add: s)
qed

text \<open>The keys an invalidation names.\<close>

definition invalidates :: "Invalidation \<Rightarrow> string \<Rightarrow> bool" where
  "invalidates iv k \<longleftrightarrow>
    ivAll iv \<or> (if ivKey iv \<noteq> [] then IsCopyOf (ivKey iv) k else ivPrefix iv \<noteq> [] \<and> prefix (ivPrefix iv) k)"

lemma Clear_ok:
  assumes "cache_ok c"
  shows "cache_ok (snd (Clear c))" "held (snd (Clear c)) = Map.empty"
    "mcTTL (snd (Clear c)) = mcTTL c" "mcMaxSize (snd (Clear c)) = mcMaxSize c"
proof -
  have "0 \<le> mcMaxSize c" using cache_size_nonneg [OF assms] assms unfolding cache_ok_def by linarith
  then show "cache_ok (snd (Clear c))" by (simp add: Clear_def cache_ok_def)
qed (simp_all add: Clear_def held_def fun_eq_iff)

lemma Apply_ok:
  assumes "cache_ok c"
  shows "cache_ok (snd (Invalidation_Apply iv c))"
    "held (snd (Invalidation_Apply iv c)) = (\<lambda>k. if invalidates iv k then None else held c k)"
    "mcTTL (snd (Invalidation_Apply iv c)) = mcTTL c" "mcMaxSize (snd (Invalidation_Apply iv c)) = mcMaxSize c"
  using assms removeMatching_ok [OF assms] Clear_ok [OF assms]
  by (auto simp: Invalidation_Apply_def Invalidate_def InvalidatePrefix_def invalidates_def fun_eq_iff)

subsection \<open>The contract of an object cache\<close>

datatype cache_op = OpGet string | OpPut string string EntryMeta | OpInvalidate Invalidation

fun step_with ::
  "(time \<Rightarrow> string \<Rightarrow> 'c \<Rightarrow> Entry option \<times> 'c) \<Rightarrow> (time \<Rightarrow> string \<Rightarrow> string \<Rightarrow> EntryMeta \<Rightarrow> 'c \<Rightarrow> 'c) \<Rightarrow>
     (Invalidation \<Rightarrow> 'c \<Rightarrow> int \<times> 'c) \<Rightarrow> time \<times> cache_op \<Rightarrow> 'c \<Rightarrow> 'c" where
  "step_with get put inval (now, OpGet key) c = snd (get now key c)"
| "step_with get put inval (now, OpPut key data meta) c = put now key data meta c"
| "step_with get put inval (now, OpInvalidate iv) c = snd (inval iv c)"

text \<open>An operation after which an entry put earlier under a key is no longer the one to serve.\<close>

fun displaces :: "string \<Rightarrow> cache_op \<Rightarrow> bool" where
  "displaces key (OpGet _) = False"
| "displaces key (OpPut k _ _) = (k = key)"
| "displaces key (OpInvalidate iv) = invalidates iv key"

definition last_put :: "int \<Rightarrow> (time \<times> cache_op) list \<Rightarrow> string \<Rightarrow> Entry \<Rightarrow> time \<Rightarrow> bool" where
  "last_put life ops key e expires \<longleftrightarrow>
    (\<exists>past t since. ops = past @ (t, OpPut key (enData e) (enMeta e)) # since \<and> expires = t + life \<and>
      (\<forall>st \<in> set since. \<not> displaces key (snd st)))"

text \<open>The interface \<open>ObjectCache\<close> (\<open>cache.go\<close>): a cache may forget an entry at any time, and never holds one under
  a key but the last that was put there and not invalidated since.\<close>

locale object_cache =
  fixes ok :: "'c \<Rightarrow> bool"
    and holds :: "'c \<Rightarrow> string \<Rightarrow> (Entry \<times> time) option"
    and ttl :: "'c \<Rightarrow> int"
    and get :: "time \<Rightarrow> string \<Rightarrow> 'c \<Rightarrow> Entry option \<times> 'c"
    and put :: "time \<Rightarrow> string \<Rightarrow> string \<Rightarrow> EntryMeta \<Rightarrow> 'c \<Rightarrow> 'c"
    and inval :: "Invalidation \<Rightarrow> 'c \<Rightarrow> int \<times> 'c"
  assumes step_ok: "ok c \<Longrightarrow> ok (step_with get put inval st c)"
    and step_ttl: "ok c \<Longrightarrow> ttl (step_with get put inval st c) = ttl c"
    and get_hit: "\<lbrakk>ok c; fst (get now key c) = Some e\<rbrakk> \<Longrightarrow> \<exists>expires. holds c key = Some (e, expires) \<and> now \<le> expires"
    and get_holds: "ok c \<Longrightarrow> holds (snd (get now key c)) \<subseteq>\<^sub>m holds c"
    and put_holds: "ok c \<Longrightarrow>
      holds (put now key data meta c) \<subseteq>\<^sub>m (holds c)(key \<mapsto> (\<lparr>enData = data, enMeta = meta\<rparr>, now + ttl c))"
    and inval_holds: "ok c \<Longrightarrow> holds (snd (inval iv c)) \<subseteq>\<^sub>m (\<lambda>k. if invalidates iv k then None else holds c k)"
begin

lemma run_ok: "ok c \<Longrightarrow> ok (fold (step_with get put inval) ops c) \<and> ttl (fold (step_with get put inval) ops c) = ttl c"
  by (induction ops arbitrary: c) (simp_all add: step_ok step_ttl)

lemma last_put_keep:
  assumes "last_put life ops key e x" "\<not> displaces key (snd st)"
  shows "last_put life (ops @ [st]) key e x"
proof -
  obtain past t since where "ops = past @ (t, OpPut key (enData e) (enMeta e)) # since" "x = t + life"
    "\<forall>st \<in> set since. \<not> displaces key (snd st)"
    using assms(1) unfolding last_put_def by blast
  then show ?thesis
    using assms(2) unfolding last_put_def by (intro exI [of _ past] exI [of _ t] exI [of _ "since @ [st]"]) simp
qed

lemma step_holds:
  assumes "ok c" "holds (step_with get put inval st c) key = Some (e, x)"
  shows "holds c key = Some (e, x) \<and> \<not> displaces key (snd st) \<or>
    (\<exists>now. st = (now, OpPut key (enData e) (enMeta e)) \<and> x = now + ttl c)"
proof (cases "(get, put, inval, st, c)" rule: step_with.cases)
  case (1 _ _ _ now k)
  then show ?thesis using assms get_holds [of c now k] by (auto simp: map_le_def dom_def)
next
  case (2 _ _ _ now k data meta)
  then have "((holds c)(k \<mapsto> (\<lparr>enData = data, enMeta = meta\<rparr>, now + ttl c))) key = Some (e, x)"
    using assms put_holds [of c now k data meta] by (fastforce simp: map_le_def dom_def)
  then show ?thesis using 2 by (auto split: if_splits)
next
  case (3 _ _ _ now iv)
  then have "(if invalidates iv key then None else holds c key) = Some (e, x)"
    using assms inval_holds [of c iv] by (fastforce simp: map_le_def dom_def)
  then show ?thesis using 3 by (simp split: if_splits)
qed

lemma run_holds:
  assumes "ok c" "holds c = Map.empty"
  shows "holds (fold (step_with get put inval) ops c) key = Some (e, x) \<Longrightarrow> last_put (ttl c) ops key e x"
proof (induction ops arbitrary: e x rule: rev_induct)
  case (snoc st ops)
  let ?c = "fold (step_with get put inval) ops c"
  have c: "ok ?c" "ttl ?c = ttl c" using run_ok [OF assms(1)] by blast+
  from step_holds [OF c(1), of st key e x] snoc.prems
  consider "holds ?c key = Some (e, x)" "\<not> displaces key (snd st)"
    | now where "st = (now, OpPut key (enData e) (enMeta e))" "x = now + ttl c"
    using c(2) by auto
  then show ?case
  proof cases
    case 1
    then show ?thesis using snoc.IH last_put_keep by blast
  next
    case 2
    then show ?thesis unfolding last_put_def by (intro exI [of _ ops] exI [of _ now] exI [of _ "[]"]) simp
  qed
qed (simp add: assms(2))

lemma hit_is_last_put:
  assumes "ok c" "holds c = Map.empty" "fst (get now key (fold (step_with get put inval) ops c)) = Some e"
  shows "\<exists>past t since. ops = past @ (t, OpPut key (enData e) (enMeta e)) # since \<and> now \<le> t + ttl c \<and>
    (\<forall>st \<in> set since. \<not> displaces key (snd st))"
proof -
  have "ok (fold (step_with get put inval) ops c)" using run_ok [OF assms(1)] by blast
  then obtain x where "holds (fold (step_with get put inval) ops c) key = Some (e, x)" "now \<le> x"
    using get_hit assms(3) by blast
  then show ?thesis using run_holds [OF assms(1,2)] unfolding last_put_def by blast
qed

end

lemma memory_step_ok:
  assumes "cache_ok c"
  shows "cache_ok (step_with Get PutBytes Invalidation_Apply st c)"
    "mcTTL (step_with Get PutBytes Invalidation_Apply st c) = mcTTL c"
    "mcMaxSize (step_with Get PutBytes Invalidation_Apply st c) = mcMaxSize c"
  using assms by (cases st; cases "snd st"; simp add: Get_ok Put_ok Apply_ok)+

interpretation memory: object_cache cache_ok held mcTTL Get PutBytes Invalidation_Apply
  by unfold_locales (simp_all add: memory_step_ok Get_hit Get_ok Put_ok Apply_ok)

definition cache_run :: "(time \<times> cache_op) list \<Rightarrow> MemoryCache \<Rightarrow> MemoryCache" where
  "cache_run ops c = fold (step_with Get PutBytes Invalidation_Apply) ops c"

lemma new_cache_ok:
  assumes "NewMemoryCache cfg = Inr c"
  shows "cache_ok c" "held c = Map.empty" "mcTTL c = cfTTL cfg" "mcMaxSize c = cfMaxSize cfg"
  using assms by (auto simp: NewMemoryCache_def cache_ok_def held_def fun_eq_iff split: if_splits)

lemma cache_run_ok: "cache_ok c \<Longrightarrow> cache_ok (cache_run ops c) \<and> mcMaxSize (cache_run ops c) = mcMaxSize c"
  unfolding cache_run_def by (induction ops arbitrary: c) (simp_all add: memory_step_ok)

subsection \<open>Properties\<close>

text \<open>C26. A hit serves the last entry put under the key: after any operations on a new cache, what \<open>Get\<close> returns was
  put under exactly that key, no later operation replaced or invalidated it, and it is not past its time to live.\<close>

theorem Get_serves_last_put:
  assumes "NewMemoryCache cfg = Inr c" "fst (Get now key (cache_run ops c)) = Some e"
  shows "\<exists>past t since. ops = past @ (t, OpPut key (enData e) (enMeta e)) # since \<and> now \<le> t + cfTTL cfg \<and>
    (\<forall>st \<in> set since. \<not> displaces key (snd st))"
  using memory.hit_is_last_put [OF new_cache_ok(1,2) [OF assms(1)]] assms new_cache_ok(3) [OF assms(1)]
  unfolding cache_run_def by simp

text \<open>C27. The cache stays within its size: after any operations the bytes reported are the sizes of the entries held,
  never above the limit, one entry per key; and a put evicts only the least recently used, no more of them than it needs
  room for, and is then at the front itself, unless it is larger than the whole cache.\<close>

theorem PutBytes_evicts_least_recent:
  assumes "NewMemoryCache cfg = Inr c" "before = cache_run ops c" "after = PutBytes now key data meta before"
    and "e = \<lparr>enData = data, enMeta = meta\<rparr>"
  shows "stSizeBytes (MemoryCache_Stats after) = (\<Sum>el \<leftarrow> mcOrder after. Entry_Size (meEntry (snd el))) \<and>
    stSizeBytes (MemoryCache_Stats after) \<le> cfMaxSize cfg \<and> distinct (map (meKey \<circ> snd) (mcOrder after)) \<and>
    (\<exists>kept. evicts_to (cfMaxSize cfg) (Entry_Size e) (filter (\<lambda>el. meKey (snd el) \<noteq> key) (mcOrder before)) kept \<and>
       map (meEntry \<circ> snd) (mcOrder after) = (if Entry_Size e \<le> cfMaxSize cfg then [e] else []) @ map (meEntry \<circ> snd) kept)"
proof (intro conjI)
  note new = new_cache_ok [OF assms(1)]
  have b: "cache_ok before" "mcMaxSize before = cfMaxSize cfg"
    using cache_run_ok [OF new(1), of ops] new(4) by (simp_all add: assms(2))
  note put = Put_ok [OF b(1), where now = now and key = key and data = data and meta = meta]
  have ok: "cache_ok after" using put(1) by (simp add: assms(3))
  then have "map (\<lambda>el. meSize (snd el)) (mcOrder after) = map (\<lambda>el. Entry_Size (meEntry (snd el))) (mcOrder after)"
    by (simp add: cache_ok_def)
  then have "entries_size (mcOrder after) = (\<Sum>el \<leftarrow> mcOrder after. Entry_Size (meEntry (snd el)))"
    unfolding entries_size_def by (rule arg_cong)
  then show "stSizeBytes (MemoryCache_Stats after) = (\<Sum>el \<leftarrow> mcOrder after. Entry_Size (meEntry (snd el)))"
    using ok by (simp add: MemoryCache_Stats_def cache_ok_def)
  show "stSizeBytes (MemoryCache_Stats after) \<le> cfMaxSize cfg"
    using ok put(4) b(2) by (simp add: assms(3) MemoryCache_Stats_def cache_ok_def)
  have key: "el_key = (\<lambda>el. meKey (snd el))" by (simp add: el_key_def fun_eq_iff)
  show "distinct (map (meKey \<circ> snd) (mcOrder after))" using ok by (simp add: cache_ok_def key comp_def)
  show "\<exists>kept. evicts_to (cfMaxSize cfg) (Entry_Size e) (filter (\<lambda>el. meKey (snd el) \<noteq> key) (mcOrder before)) kept \<and>
       map (meEntry \<circ> snd) (mcOrder after) = (if Entry_Size e \<le> cfMaxSize cfg then [e] else []) @ map (meEntry \<circ> snd) kept"
    using put(5) unfolding assms(3,4) b(2) key .
qed

text \<open>A cache of ten bytes in which the third object needs the room of the first.\<close>

definition sample_meta :: EntryMeta where
  "sample_meta = \<lparr>emContentType = [], emETag = ''e'', emLastModified = 0, emMetadata = []\<rparr>"

definition sample_config :: MemoryConfig where
  "sample_config = \<lparr>cfMaxSize = 10, cfMaxObjectSize = 8, cfTTL = 60\<rparr>"

definition sample_cache :: MemoryCache where
  "sample_cache = (case NewMemoryCache sample_config of Inr c \<Rightarrow> c)"

definition sample_ops :: "(time \<times> cache_op) list" where
  "sample_ops = [(0, OpPut ''b/x'' ''abc'' sample_meta), (1, OpPut ''b/y'' ''de'' sample_meta), (2, OpGet ''b/x'')]"

lemma evict_for_eval:
  "mcSizeBytes c + n \<le> mcMaxSize c \<Longrightarrow> evict_for n c = c"
  "\<lbrakk>mcSizeBytes c + n > mcMaxSize c; mcOrder c \<noteq> []\<rbrakk> \<Longrightarrow> evict_for n c = evict_for n (removeLocked (last (mcOrder c)) c)"
  by (subst evict_for.simps, simp add: evictLocked_def)+

lemma PutBytes_new_key:
  "\<lbrakk>map_of (mcItems c) key = None; v = evict_for (Entry_Size \<lparr>enData = data, enMeta = meta\<rparr>) c;
    mcSizeBytes v + Entry_Size \<lparr>enData = data, enMeta = meta\<rparr> \<le> mcMaxSize v;
    el = pushed now key \<lparr>enData = data, enMeta = meta\<rparr> v\<rbrakk> \<Longrightarrow>
   PutBytes now key data meta c =
    v\<lparr>mcOrder := el # mcOrder v, mcItems := (key, el) # filter (\<lambda>x. fst x \<noteq> key) (mcItems v),
      mcSizeBytes := mcSizeBytes v + Entry_Size \<lparr>enData = data, enMeta = meta\<rparr>, mcNextElement := Suc (mcNextElement v)\<rparr>"
  by (simp add: PutBytes_def pushed_def Let_def)

lemmas cache_eval = evict_for_eval PutBytes_new_key pushed_def removeLocked_def MoveToFront_def Entry_Size_def sample_meta_def

definition sample_warm :: MemoryCache where
  "sample_warm = cache_run sample_ops sample_cache"

lemma sample_warm_eq:
  "sample_warm =
    (let x = (0, \<lparr>meKey = ''b/x'', meEntry = \<lparr>enData = ''abc'', enMeta = sample_meta\<rparr>, meSize = 4, meExpiresAt = 60\<rparr>);
         y = (1, \<lparr>meKey = ''b/y'', meEntry = \<lparr>enData = ''de'', enMeta = sample_meta\<rparr>, meSize = 3, meExpiresAt = 61\<rparr>) in
     \<lparr>mcItems = [(''b/y'', y), (''b/x'', x)], mcOrder = [x, y], mcSizeBytes = 7, mcMaxSize = 10, mcMaxObjectSize = 8,
      mcTTL = 60, mcHits = 1, mcMisses = 0, mcNextElement = 2\<rparr>)"
  by (simp add: sample_warm_def cache_run_def sample_ops_def sample_cache_def NewMemoryCache_def sample_config_def
      cache_eval Get_def Let_def)

lemma sample_new: "NewMemoryCache sample_config = Inr sample_cache"
  by (simp add: sample_cache_def NewMemoryCache_def sample_config_def)

theorem Get_serves_last_put_witness:
  "\<exists>past t since. sample_ops = past @ (t, OpPut ''b/x'' ''abc'' sample_meta) # since \<and> 5 \<le> t + 60 \<and>
    (\<forall>st \<in> set since. \<not> displaces ''b/x'' (snd st))"
proof -
  have "fst (Get 5 ''b/x'' sample_warm) = Some \<lparr>enData = ''abc'', enMeta = sample_meta\<rparr>"
    by (simp add: sample_warm_eq Get_def Let_def)
  from Get_serves_last_put [OF sample_new this [unfolded sample_warm_def]] show ?thesis by (simp add: sample_config_def)
qed

theorem PutBytes_evicts_least_recent_witness:
  "stSizeBytes (MemoryCache_Stats (PutBytes 3 ''b/z'' ''fghi'' sample_meta sample_warm)) \<le> 10 \<and>
   map (meKey \<circ> snd) (mcOrder (PutBytes 3 ''b/z'' ''fghi'' sample_meta sample_warm)) = [''b/z'', ''b/x'']"
proof -
  have "map (meKey \<circ> snd) (mcOrder (PutBytes 3 ''b/z'' ''fghi'' sample_meta sample_warm)) = [''b/z'', ''b/x'']"
    by (simp add: sample_warm_eq cache_eval Let_def)
  then show ?thesis
    using PutBytes_evicts_least_recent [OF sample_new sample_warm_def refl refl, where now = 3 and key = "''b/z''" and data = "''fghi''" and meta = sample_meta]
    by (simp add: sample_config_def)
qed

end
