(* ===== verification/GoText.thy ===== *)
theory GoText
  imports ByteRange
begin

text \<open>
  Parts of Go's standard library on text that the request layer uses: \<open>strings.TrimSpace\<close>, \<open>strings.ToLower\<close>,
  \<open>strings.EqualFold\<close> against an ASCII word, \<open>strings.Split\<close>, \<open>strconv.ParseInt\<close> in base 16,
  \<open>encoding/hex\<close> and \<open>encoding/base64\<close>; and the comma-separated lists of \<open>util/commalist\<close>. The lower case of a
  code point above ASCII is Unicode's case table, an argument of \<open>strings_ToLower\<close>.
\<close>

subsection \<open>White space\<close>

text \<open>\<open>unicode.IsSpace\<close> as the encodings of its code points: a string starts (ends) with a space exactly when it
  starts (ends) with one of them.\<close>

definition space_runes :: "nat list" where
  "space_runes = [9, 10, 11, 12, 13, 32, 133, 160, 5760] @ [8192..<8203] @ [8232, 8233, 8239, 8287, 12288]"

definition space_encodings :: "string list" where
  "space_encodings = map (\<lambda>r. string_of_runes [r]) space_runes"

function trim_front :: "string list \<Rightarrow> string \<Rightarrow> string" where
  "trim_front spaces s =
    (case find (\<lambda>e. e \<noteq> [] \<and> prefix e s) spaces of
       None \<Rightarrow> s
     | Some e \<Rightarrow> trim_front spaces (drop (length e) s))"
  by pat_completeness auto

termination trim_front
  by (relation "measure (\<lambda>(_, s). length s)") (auto simp: find_Some_iff prefix_def)

declare trim_front.simps [simp del]

definition strings_TrimSpace :: "string \<Rightarrow> string" where
  "strings_TrimSpace s = rev (trim_front (map rev space_encodings) (rev (trim_front space_encodings s)))"

subsection \<open>Case\<close>

definition lower_ascii :: "nat \<Rightarrow> nat" where
  "lower_ascii r = (if 65 \<le> r \<and> r \<le> 90 then r + 32 else r)"

definition strings_ToLower :: "(nat \<Rightarrow> nat) \<Rightarrow> string \<Rightarrow> string" where
  "strings_ToLower lowerRune s =
    (if list_all (\<lambda>c. byte c < 128) s then map (\<lambda>c. unbyte (lower_ascii (byte c))) s
     else string_of_runes (map (\<lambda>r. if r < 128 then lower_ascii r else lowerRune r) (runes s)))"

text \<open>Simple folding takes two code points above ASCII into it: the Kelvin sign and the long s.\<close>

definition fold_rune :: "nat \<Rightarrow> nat" where
  "fold_rune r = (if r = 8490 then 107 else if r = 383 then 115 else lower_ascii r)"

definition strings_EqualFold_ascii :: "string \<Rightarrow> string \<Rightarrow> bool" where
  "strings_EqualFold_ascii s word \<longleftrightarrow> map fold_rune (runes s) = map (lower_ascii \<circ> byte) word"

subsection \<open>Lists in one string\<close>

function strings_Split :: "string \<Rightarrow> string \<Rightarrow> string list" where
  "strings_Split sep s =
    (if sep = [] then [s]
     else case strings_Cut sep s of None \<Rightarrow> [s] | Some (before, after) \<Rightarrow> before # strings_Split sep after)"
  by pat_completeness auto

lemma strings_Cut_shorter:
  "strings_Cut sep s = Some (before, after) \<Longrightarrow> length before + length sep + length after = length s"
  by (induction sep s arbitrary: before rule: strings_Cut.induct) (auto split: if_splits option.splits dest: prefix_length_le)

lemma strings_Cut_less:
  assumes "sep \<noteq> []" "strings_Cut sep s = Some (before, after)"
  shows "length after < length s"
proof -
  have "0 < length sep" using assms(1) by simp
  then show ?thesis using strings_Cut_shorter [OF assms(2)] by linarith
qed

termination strings_Split
  by (relation "measure (\<lambda>(_, s). length s)") (auto dest: strings_Cut_less)

declare strings_Split.simps [simp del]

definition commalist_Split :: "string \<Rightarrow> string list" where
  "commalist_Split v = filter (\<lambda>e. e \<noteq> []) (map strings_TrimSpace (strings_Split '','' v))"

subsection \<open>Hexadecimal and base 64\<close>

definition hex_value :: "char \<Rightarrow> nat option" where
  "hex_value c =
    (let b = byte c in
     if 48 \<le> b \<and> b \<le> 57 then Some (b - 48)
     else if 97 \<le> b \<and> b \<le> 102 then Some (b - 87)
     else if 65 \<le> b \<and> b \<le> 70 then Some (b - 55) else None)"

definition isHexByte :: "char \<Rightarrow> bool" where
  "isHexByte c \<longleftrightarrow> hex_value c \<noteq> None"

definition hex_number :: "string \<Rightarrow> nat" where
  "hex_number s = foldl (\<lambda>a c. a * 16 + the (hex_value c)) 0 s"

text \<open>\<open>strconv.ParseInt(s, 16, 64)\<close>.\<close>

definition strconv_ParseHex :: "string \<Rightarrow> int option" where
  "strconv_ParseHex s =
    (let neg = (take 1 s = ''-''); ds = (if take 1 s \<in> {''-'', ''+''} then drop 1 s else s) in
     if ds = [] \<or> \<not> list_all isHexByte ds then None
     else let v = (if neg then - int (hex_number ds) else int (hex_number ds)) in
       if v < - (2 ^ 63) \<or> 2 ^ 63 - 1 < v then None else Some v)"

definition hexDigit :: "nat \<Rightarrow> char" where
  "hexDigit n = unbyte (if n < 10 then 48 + n else 87 + n)"

definition hex_EncodeToString :: "string \<Rightarrow> string" where
  "hex_EncodeToString bs = concat (map (\<lambda>c. [hexDigit (byte c div 16), hexDigit (byte c mod 16)]) bs)"

definition base64_digit :: "nat \<Rightarrow> char" where
  "base64_digit n = unbyte (if n < 26 then 65 + n else if n < 52 then 71 + n else if n < 62 then n - 4
     else if n = 62 then 43 else 47)"

fun base64_EncodeToString :: "string \<Rightarrow> string" where
  "base64_EncodeToString [] = []"
| "base64_EncodeToString [a] =
    [base64_digit (byte a div 4), base64_digit (byte a mod 4 * 16), CHR ''='', CHR ''='']"
| "base64_EncodeToString [a, b] =
    [base64_digit (byte a div 4), base64_digit (byte a mod 4 * 16 + byte b div 16),
     base64_digit (byte b mod 16 * 4), CHR ''='']"
| "base64_EncodeToString (a # b # c # s) =
    [base64_digit (byte a div 4), base64_digit (byte a mod 4 * 16 + byte b div 16),
     base64_digit (byte b mod 16 * 4 + byte c div 64), base64_digit (byte c mod 64)] @ base64_EncodeToString s"

subsection \<open>Numbers in hexadecimal\<close>

fun hex_digits :: "nat \<Rightarrow> string" where
  "hex_digits n = (if n < 16 then [hexDigit n] else hex_digits (n div 16) @ [hexDigit (n mod 16)])"

declare hex_digits.simps [simp del]

lemma hex_value_digit: "n < 16 \<Longrightarrow> hex_value (hexDigit n) = Some n"
  by (auto simp: hex_value_def hexDigit_def byte_def unbyte_def)

lemma hex_digits_value:
  "list_all isHexByte (hex_digits n) \<and> hex_digits n \<noteq> [] \<and> hex_number (hex_digits n) = n"
proof (induction n rule: hex_digits.induct)
  case (1 n)
  show ?case
  proof (cases "n < 16")
    case True
    then show ?thesis by (simp add: hex_digits.simps [of n] isHexByte_def hex_number_def hex_value_digit)
  next
    case False
    with 1 show ?thesis by (simp add: hex_digits.simps [of n] isHexByte_def hex_number_def hex_value_digit)
  qed
qed

lemma hex_EncodeToString_props:
  "length (hex_EncodeToString bs) = 2 * length bs" "list_all isHexByte (hex_EncodeToString bs)"
proof -
  have "byte c div 16 < 16" for c by (simp add: byte_def div_less_iff_less_mult)
  then show "list_all isHexByte (hex_EncodeToString bs)"
    by (auto simp: hex_EncodeToString_def list_all_iff isHexByte_def hex_value_digit)
qed (simp add: hex_EncodeToString_def length_concat sum_list_triv comp_def)

text \<open>Text that begins and ends with a visible ASCII character is left alone by \<open>TrimSpace\<close>.\<close>

definition visible :: "char \<Rightarrow> bool" where
  "visible c \<longleftrightarrow> 33 \<le> byte c \<and> byte c < 127"

lemma space_encodings_invisible: "\<forall>e \<in> set space_encodings. e \<noteq> [] \<and> \<not> visible (hd e) \<and> \<not> visible (last e)"
  by (simp add: space_encodings_def space_runes_def string_of_runes_def encode_rune_def visible_def byte_def
      unbyte_def upt_rec Let_def valid_rune_def is_surrogate_def MaxRune_def)

lemma trim_front_id:
  assumes "\<forall>e \<in> set spaces. e \<noteq> [] \<and> \<not> visible (hd e)" "visible (hd s)"
  shows "trim_front spaces s = s"
proof -
  have "\<not> (e \<noteq> [] \<and> prefix e s)" if "e \<in> set spaces" for e
    using assms that by (cases e; cases s) auto
  then have "find (\<lambda>e. e \<noteq> [] \<and> prefix e s) spaces = None" by (simp add: find_None_iff)
  then show ?thesis by (simp add: trim_front.simps)
qed

lemma TrimSpace_visible:
  assumes "s \<noteq> []" "visible (hd s)" "visible (last s)"
  shows "strings_TrimSpace s = s"
  using assms space_encodings_invisible by (simp add: strings_TrimSpace_def trim_front_id hd_rev)

lemma hex_visible: "isHexByte c \<Longrightarrow> visible c"
  by (auto simp: isHexByte_def hex_value_def visible_def Let_def split: if_splits)

lemma TrimSpace_hex:
  assumes "s \<noteq> []" "list_all isHexByte s"
  shows "strings_TrimSpace s = s"
  using assms by (intro TrimSpace_visible) (auto simp: list_all_iff hex_visible)

lemma ParseHex_digits:
  assumes "n < 2 ^ 63"
  shows "strconv_ParseHex (hex_digits n) = Some (int n)"
proof -
  obtain c s where c: "hex_digits n = c # s" "isHexByte c"
    using hex_digits_value [of n] by (cases "hex_digits n") auto
  then have "c \<noteq> CHR ''-''" "c \<noteq> CHR ''+''" by (auto simp: isHexByte_def hex_value_def byte_def)
  then show ?thesis
    using c(1) assms hex_digits_value [of n] by (simp add: strconv_ParseHex_def Let_def)
qed

lemma ToLower_id:
  assumes "list_all (\<lambda>c. byte c < 128 \<and> \<not> (65 \<le> byte c \<and> byte c \<le> 90)) s"
  shows "strings_ToLower lowerRune s = s"
proof -
  have "unbyte (lower_ascii (byte c)) = c" if "c \<in> set s" for c
    using assms that by (auto simp: list_all_iff lower_ascii_def unbyte_def byte_def)
  moreover have "list_all (\<lambda>c. byte c < 128) s" using assms by (auto simp: list_all_iff)
  ultimately show ?thesis by (simp add: strings_ToLower_def map_idI)
qed

end
