(* ===== verification/Hmac.thy ===== *)
theory Hmac
  imports GoText Envelope
begin

text \<open>
  HMAC-SHA256 as \<open>transport/auth/auth.go\<close> computes it: one digest and one pad reused for a chain of keys, which
  \<open>crypto/hmac\<close> does not allow. SHA-256 is an argument. \<open>sum\<close> is the HMAC of RFC 2104 whatever was computed with the
  same state before, so a derived key is the chain of four HMACs.
\<close>

definition BlockSize :: nat where "BlockSize = 64"

record hmacSHA256State =
  hsPad :: bytes

definition hmac_sum :: "(bytes \<Rightarrow> bytes) \<Rightarrow> hmacSHA256State \<Rightarrow> bytes \<Rightarrow> string \<Rightarrow> bytes \<times> hmacSHA256State" where
  "hmac_sum sha256 m key msg =
    (let key = (if length key > BlockSize then sha256 key else key);
         pad = replicate BlockSize (unbyte 0);
         pad = take BlockSize key @ drop (length key) pad;
         pad = map (\<lambda>c. xor_byte c (unbyte 0x36)) pad;
         out = sha256 (pad @ msg);
         pad = map (\<lambda>c. xor_byte c (unbyte (Bit_Operations.xor 0x36 0x5C))) pad;
         out = sha256 (pad @ out) in
     (out, m\<lparr>hsPad := pad\<rparr>))"

definition hmacSHA256 :: "(bytes \<Rightarrow> bytes) \<Rightarrow> bytes \<Rightarrow> string \<Rightarrow> bytes" where
  "hmacSHA256 sha256 key msg = fst (hmac_sum sha256 \<lparr>hsPad = replicate BlockSize (unbyte 0)\<rparr> key msg)"

definition deriveSigningKey :: "(bytes \<Rightarrow> bytes) \<Rightarrow> string \<Rightarrow> string \<Rightarrow> string \<Rightarrow> string \<Rightarrow> bytes" where
  "deriveSigningKey sha256 secret dateStamp region service =
    (let m = \<lparr>hsPad = replicate BlockSize (unbyte 0)\<rparr>;
         (key, m) = hmac_sum sha256 m (''AWS4'' @ secret) dateStamp;
         (key, m) = hmac_sum sha256 m key region;
         (key, m) = hmac_sum sha256 m key service;
         (key, m) = hmac_sum sha256 m key ''aws4_request'' in
     key)"

definition hashSHA256 :: "(bytes \<Rightarrow> bytes) \<Rightarrow> bytes \<Rightarrow> string" where
  "hashSHA256 sha256 data = hex_EncodeToString (sha256 data)"

text \<open>RFC 2104: the key filled up with zeros to a block, \<open>opad\<close> and \<open>ipad\<close>.\<close>

definition rfc2104 :: "(bytes \<Rightarrow> bytes) \<Rightarrow> bytes \<Rightarrow> bytes \<Rightarrow> bytes" where
  "rfc2104 sha256 key msg =
    (let k = (if length key > BlockSize then sha256 key else key);
         k0 = k @ replicate (BlockSize - length k) (unbyte 0) in
     sha256 (map (\<lambda>c. xor_byte c (unbyte 0x5C)) k0 @ sha256 (map (\<lambda>c. xor_byte c (unbyte 0x36)) k0 @ msg)))"

lemma repad: "xor_byte (xor_byte c (unbyte 0x36)) (unbyte 106) = xor_byte c (unbyte 0x5C)"
proof -
  have "byte (xor_byte (xor_byte c (unbyte 0x36)) (unbyte 106)) = byte (xor_byte c (unbyte 0x5C))"
    by (simp add: byte_xor_byte byte_of_unbyte xor.assoc)
  then show ?thesis by (simp add: byte_def)
qed

lemma hmac_sum_rfc2104:
  assumes "\<forall>bs. length (sha256 bs) \<le> BlockSize"
  shows "fst (hmac_sum sha256 m key msg) = rfc2104 sha256 key msg"
proof -
  define k where "k = (if length key > BlockSize then sha256 key else key)"
  have "length k \<le> BlockSize" using assms by (simp add: k_def)
  then have "take BlockSize k @ drop (length k) (replicate BlockSize (unbyte 0)) = k @ replicate (BlockSize - length k) (unbyte 0)" by simp
  then show ?thesis by (simp add: hmac_sum_def rfc2104_def Let_def comp_def repad flip: k_def)
qed

lemma deriveSigningKey_chain:
  assumes "\<forall>bs. length (sha256 bs) \<le> BlockSize"
  shows "deriveSigningKey sha256 secret date region service =
    rfc2104 sha256 (rfc2104 sha256 (rfc2104 sha256 (rfc2104 sha256 (''AWS4'' @ secret) date) region) service) ''aws4_request''"
  using hmac_sum_rfc2104 [OF assms] unfolding deriveSigningKey_def Let_def
  by (simp add: case_prod_beta)

lemma length_hmacSHA256: "\<forall>bs. length (sha256 bs) = 32 \<Longrightarrow> length (hmacSHA256 sha256 key msg) = 32"
  by (simp add: hmacSHA256_def hmac_sum_def Let_def)

end
