(* ===== verification/ChunkReader.thy ===== *)
theory ChunkReader
  imports Hmac
begin

text \<open>
  The verifying decoder of AWS streaming uploads (\<open>transport/auth/streaming.go\<close>). The body of such a request is a
  sequence of chunks, each a size line, that many bytes and a line end, closed by a chunk of size zero. In the signed
  variants every chunk carries a signature over its bytes and the signature before it; in the trailer variants header
  lines follow the last chunk, signed in one variant and checked as checksums of the body in the other. The reader
  yields the bytes of the chunks and nothing else.

  SHA-256, the checksum algorithms, Unicode's case table and the order in which \<open>slices.SortFunc\<close> leaves headers
  of equal names are fields of \<open>Primitives\<close>. A hash in progress is what was written to it. An error ends the reader,
  so an operation that fails returns the error alone. \<open>decoded\<close> never exceeds the bytes received and is kept as an integer.
\<close>

subsection \<open>Constants, variants and errors\<close>

definition MaxChunkBytes :: int where "MaxChunkBytes = 16777216"
definition maxHeaderLineBytes :: nat where "maxHeaderLineBytes = 1024"
definition maxTrailerBlockBytes :: nat where "maxTrailerBlockBytes = 8192"
definition maxTrailerHeaders :: nat where "maxTrailerHeaders = 16"
definition emptyStringSHA256 :: string where
  "emptyStringSHA256 = ''e3b0c44298fc1c149afbf4c8996fb92427ae41e4649b934ca495991b7852b855''"
definition trailerSignatureHeader :: string where "trailerSignatureHeader = ''x-amz-trailer-signature''"

datatype StreamingVariant = StreamingNone | StreamingSigned | StreamingSignedTrailer | StreamingUnsignedTrailer

definition ErrChunkSignatureMismatch :: error where "ErrChunkSignatureMismatch = Refused ''chunk signature mismatch''"
definition ErrTrailerSignatureMismatch :: error where "ErrTrailerSignatureMismatch = Refused ''trailer signature mismatch''"
definition ErrChunkMalformed :: error where "ErrChunkMalformed = Refused ''malformed chunk framing''"
definition ErrChunkTooLarge :: error where "ErrChunkTooLarge = Refused ''chunk size exceeds limit''"
definition ErrDecodedLengthMismatch :: error where "ErrDecodedLengthMismatch = Refused ''decoded length does not match declared''"
definition ErrTrailerMalformed :: error where "ErrTrailerMalformed = Refused ''malformed trailer block''"
definition ErrChecksumMismatch :: error where "ErrChecksumMismatch = Refused ''checksum mismatch''"

definition trailerMalformed :: "string \<Rightarrow> error" where
  "trailerMalformed msg = Wrapped msg ErrTrailerMalformed"

record trailerKV =
  tkName :: string
  tkValue :: string

record Primitives =
  pmSHA256 :: "bytes \<Rightarrow> bytes"
  pmCRC32 :: "bytes \<Rightarrow> bytes"
  pmCRC32C :: "bytes \<Rightarrow> bytes"
  pmCRC64NVME :: "bytes \<Rightarrow> bytes"
  pmSHA1 :: "bytes \<Rightarrow> bytes"
  pmLowerRune :: "nat \<Rightarrow> nat"
  pmSortTrailers :: "trailerKV list \<Rightarrow> trailerKV list"

definition checksumHashes :: "Primitives \<Rightarrow> (string \<times> (bytes \<Rightarrow> bytes)) list" where
  "checksumHashes pm =
    [(''x-amz-checksum-crc32'', pmCRC32 pm), (''x-amz-checksum-crc32c'', pmCRC32C pm),
     (''x-amz-checksum-crc64nvme'', pmCRC64NVME pm), (''x-amz-checksum-sha1'', pmSHA1 pm),
     (''x-amz-checksum-sha256'', pmSHA256 pm)]"

subsection \<open>The request's headers\<close>

record StreamingMaterial =
  smVariant :: StreamingVariant
  smSeedSig :: string
  smSigningKey :: bytes
  smCredScope :: string
  smAmzDate :: string
  smDecodedLen :: int
  smTrailerNames :: "string list"

definition DetectStreamingVariant :: "string \<Rightarrow> StreamingVariant" where
  "DetectStreamingVariant payloadHash =
    (if payloadHash = ''STREAMING-AWS4-HMAC-SHA256-PAYLOAD'' then StreamingSigned
     else if payloadHash = ''STREAMING-AWS4-HMAC-SHA256-PAYLOAD-TRAILER'' then StreamingSignedTrailer
     else if payloadHash = ''STREAMING-UNSIGNED-PAYLOAD-TRAILER'' then StreamingUnsignedTrailer
     else StreamingNone)"

definition hasAwsChunkedEncoding :: "string \<Rightarrow> bool" where
  "hasAwsChunkedEncoding value \<longleftrightarrow>
    list_ex (\<lambda>part. strings_EqualFold_ascii (strings_TrimSpace part) ''aws-chunked'') (strings_Split '','' value)"

definition parseTrailerNames :: "Primitives \<Rightarrow> string \<Rightarrow> string list" where
  "parseTrailerNames pm value = sort (map (strings_ToLower (pmLowerRune pm)) (commalist_Split value))"

definition streamingMaterialFromRequest ::
  "Primitives \<Rightarrow> (string \<Rightarrow> string) \<Rightarrow> string \<Rightarrow> bytes \<Rightarrow> string \<Rightarrow> string \<Rightarrow> error + StreamingMaterial option" where
  "streamingMaterialFromRequest pm header seedSig signingKey credScope amzDate =
    (let variant = DetectStreamingVariant (header ''X-Amz-Content-Sha256'') in
     if variant = StreamingNone then Inr None
     else if \<not> hasAwsChunkedEncoding (header ''Content-Encoding'')
     then Inl (Refused ''streaming payload requires Content-Encoding: aws-chunked'')
     else case strconv_ParseInt (header ''X-Amz-Decoded-Content-Length'') of
       None \<Rightarrow> Inl (Refused ''invalid x-amz-decoded-content-length'')
     | Some decoded \<Rightarrow>
         if decoded < 0 then Inl (Refused ''invalid x-amz-decoded-content-length'')
         else
           let trailers = (variant = StreamingSignedTrailer \<or> variant = StreamingUnsignedTrailer);
               trailerNames = (if trailers then parseTrailerNames pm (header ''X-Amz-Trailer'') else []) in
           if trailers \<and> trailerNames = [] then Inl (Refused ''trailer streaming requires x-amz-trailer header'')
           else Inr (Some \<lparr>smVariant = variant, smSeedSig = seedSig, smSigningKey = signingKey, smCredScope = credScope,
             smAmzDate = amzDate, smDecodedLen = decoded, smTrailerNames = trailerNames\<rparr>))"

subsection \<open>The reader\<close>

record chunkReader =
  crSrc :: stream
  crVariant :: StreamingVariant
  crPrevSig :: string
  crSigningKey :: bytes
  crCredScope :: string
  crAmzDate :: string
  crDecodedTarget :: int
  crTrailerNames :: "string list"
  crTrailerChecksums :: "(string \<times> bytes) list"
  crChecksumInitErr :: "error option"
  crBuf :: bytes
  crDecoded :: int
  crEof :: bool
  crErr :: "error option"

text \<open>A map keyed by name: a name declared twice has one hash.\<close>

fun newTrailerChecksums :: "Primitives \<Rightarrow> string list \<Rightarrow> error + (string \<times> bytes) list" where
  "newTrailerChecksums pm [] = Inr []"
| "newTrailerChecksums pm (name # names) =
    (case map_of (checksumHashes pm) name of
       None \<Rightarrow> Inl (trailerMalformed ''unsupported unsigned trailer checksum'')
     | Some _ \<Rightarrow>
         case newTrailerChecksums pm names of
           Inl err \<Rightarrow> Inl err
         | Inr checksums \<Rightarrow> Inr ((name, []) # filter (\<lambda>x. fst x \<noteq> name) checksums))"

definition NewChunkReader :: "Primitives \<Rightarrow> stream \<Rightarrow> StreamingMaterial \<Rightarrow> chunkReader" where
  "NewChunkReader pm body mat =
    (let checksums = (if smVariant mat = StreamingUnsignedTrailer then newTrailerChecksums pm (smTrailerNames mat) else Inr []) in
     \<lparr>crSrc = body, crVariant = smVariant mat, crPrevSig = smSeedSig mat, crSigningKey = smSigningKey mat,
      crCredScope = smCredScope mat, crAmzDate = smAmzDate mat, crDecodedTarget = smDecodedLen mat,
      crTrailerNames = smTrailerNames mat,
      crTrailerChecksums = (case checksums of Inl _ \<Rightarrow> [] | Inr cs \<Rightarrow> cs),
      crChecksumInitErr = (case checksums of Inl err \<Rightarrow> Some err | Inr _ \<Rightarrow> None),
      crBuf = [], crDecoded = 0, crEof = False, crErr = None\<rparr>)"

text \<open>Reading a line byte by byte into a buffer, and the line without its end.\<close>

fun read_line :: "nat \<Rightarrow> bytes \<Rightarrow> bytes \<Rightarrow> error + bytes \<times> bytes" where
  "read_line maxLen buf bs =
    (if length buf > maxLen then Inl (Wrapped ''header line too long'' ErrChunkMalformed)
     else case bs of
       [] \<Rightarrow> Inl ErrChunkMalformed
     | b # bs \<Rightarrow>
         if b = CHR 0x0D then
           (case bs of
              [] \<Rightarrow> Inl ErrChunkMalformed
            | c # bs \<Rightarrow> if c \<noteq> CHR 0x0A then Inl ErrChunkMalformed else Inr (buf, bs))
         else if b = CHR 0x0A then Inl ErrChunkMalformed
         else read_line maxLen (buf @ [b]) bs)"

declare read_line.simps [simp del]

definition readBoundedLine :: "stream \<Rightarrow> nat \<Rightarrow> error + string \<times> stream" where
  "readBoundedLine src maxLen =
    (case read_line maxLen [] (fst src) of Inl err \<Rightarrow> Inl err | Inr (line, rest) \<Rightarrow> Inr (line, (rest, snd src)))"

definition isHex :: "string \<Rightarrow> bool" where
  "isHex s \<longleftrightarrow> s \<noteq> [] \<and> list_all isHexByte s"

definition parseChunkHeader :: "StreamingVariant \<Rightarrow> string \<Rightarrow> error + int \<times> string" where
  "parseChunkHeader variant line =
    (let (hexSize, ext, hasExt) =
           (case strings_Cut '';'' line of Some (before, after) \<Rightarrow> (before, after, True) | None \<Rightarrow> (line, [], False)) in
     case strconv_ParseHex (strings_TrimSpace hexSize) of
       None \<Rightarrow> Inl ErrChunkMalformed
     | Some n \<Rightarrow>
         if n < 0 then Inl ErrChunkMalformed
         else
           let signed = (variant = StreamingSigned \<or> variant = StreamingSignedTrailer) in
           if signed \<and> \<not> hasExt then Inl ErrChunkMalformed
           else if \<not> signed \<and> hasExt then Inl ErrChunkMalformed
           else if signed then
             (if \<not> prefix ''chunk-signature='' ext then Inl ErrChunkMalformed
              else
                let sig = drop (length ''chunk-signature='') ext in
                if length sig \<noteq> 64 \<or> \<not> isHex sig then Inl ErrChunkMalformed else Inr (n, sig))
           else Inr (n, []))"

definition readChunkHeader :: "chunkReader \<Rightarrow> error + (int \<times> string) \<times> chunkReader" where
  "readChunkHeader r =
    (case readBoundedLine (crSrc r) maxHeaderLineBytes of
       Inl err \<Rightarrow> Inl err
     | Inr (line, src) \<Rightarrow>
         case parseChunkHeader (crVariant r) line of Inl err \<Rightarrow> Inl err | Inr h \<Rightarrow> Inr (h, r\<lparr>crSrc := src\<rparr>))"

definition expectCRLF :: "chunkReader \<Rightarrow> error + chunkReader" where
  "expectCRLF r =
    (case io_ReadFull (crSrc r) 2 of
       ((pair, Some _), _) \<Rightarrow> Inl ErrChunkMalformed
     | ((pair, None), src) \<Rightarrow> if pair \<noteq> [CHR 0x0D, CHR 0x0A] then Inl ErrChunkMalformed else Inr (r\<lparr>crSrc := src\<rparr>))"

definition link_signature :: "Primitives \<Rightarrow> bytes \<Rightarrow> string \<Rightarrow> string \<Rightarrow> string \<Rightarrow> string \<Rightarrow> string list \<Rightarrow> string" where
  "link_signature pm signingKey amzDate credScope prevSig algorithm hashes =
    hex_EncodeToString (hmacSHA256 (pmSHA256 pm) signingKey (strings_Join ([algorithm, amzDate, credScope, prevSig] @ hashes) [CHR 0x0A]))"

definition verifyLink :: "Primitives \<Rightarrow> chunkReader \<Rightarrow> string \<Rightarrow> error \<Rightarrow> string \<Rightarrow> string list \<Rightarrow> error + chunkReader" where
  "verifyLink pm r provided mismatch algorithm hashes =
    (let expected = link_signature pm (crSigningKey r) (crAmzDate r) (crCredScope r) (crPrevSig r) algorithm hashes in
     if expected \<noteq> provided then Inl mismatch else Inr (r\<lparr>crPrevSig := expected\<rparr>))"

definition chunk_hashes :: "Primitives \<Rightarrow> bytes \<Rightarrow> string list" where
  "chunk_hashes pm body = [emptyStringSHA256, hex_EncodeToString (pmSHA256 pm body)]"

definition verifyChunk :: "Primitives \<Rightarrow> chunkReader \<Rightarrow> bytes \<Rightarrow> string \<Rightarrow> error + chunkReader" where
  "verifyChunk pm r body provided =
    verifyLink pm r provided ErrChunkSignatureMismatch ''AWS4-HMAC-SHA256-PAYLOAD'' (chunk_hashes pm body)"

subsection \<open>Trailers\<close>

definition splitTrailerLine :: "Primitives \<Rightarrow> string \<Rightarrow> (string \<times> string) option" where
  "splitTrailerLine pm line =
    (case strings_Cut '':'' line of
       None \<Rightarrow> None
     | Some (rawName, rawValue) \<Rightarrow> Some (strings_ToLower (pmLowerRune pm) (strings_TrimSpace rawName), strings_TrimSpace rawValue))"

definition appendTrailerLine ::
  "Primitives \<Rightarrow> string \<Rightarrow> trailerKV list \<Rightarrow> string \<Rightarrow> (trailerKV list \<times> string) option" where
  "appendTrailerLine pm line headers trailerSig =
    (case splitTrailerLine pm line of
       None \<Rightarrow> None
     | Some (name, value) \<Rightarrow>
         if name = trailerSignatureHeader then (if trailerSig \<noteq> [] then None else Some (headers, value))
         else if length headers \<ge> maxTrailerHeaders then None
         else Some (headers @ [\<lparr>tkName = name, tkValue = value\<rparr>], trailerSig))"

definition CRLF :: string where "CRLF = [CHR 0x0D, CHR 0x0A]"

definition no_line_end :: "string \<Rightarrow> bool" where
  "no_line_end s \<longleftrightarrow> CHR 0x0D \<notin> set s \<and> CHR 0x0A \<notin> set s"

lemma read_line_iff:
  "read_line maxLen buf bs = Inr (line, rest) \<longleftrightarrow>
    (\<exists>s. line = buf @ s \<and> bs = s @ CRLF @ rest \<and> no_line_end s \<and> length line \<le> maxLen)"
proof (induction bs arbitrary: buf)
  case Nil
  show ?case by (simp add: read_line.simps [of maxLen buf "[]"] CRLF_def)
next
  case (Cons b bs)
  show ?case
  proof (cases "b = CHR 0x0D \<or> b = CHR 0x0A \<or> length buf > maxLen")
    case True
    then show ?thesis
      by (auto simp: read_line.simps [of maxLen buf "b # bs"] CRLF_def no_line_end_def Cons_eq_append_conv split: list.splits)
  next
    case False
    then have "read_line maxLen buf (b # bs) = read_line maxLen (buf @ [b]) bs"
      by (simp add: read_line.simps [of maxLen buf "b # bs"])
    moreover have "(\<exists>s. line = (buf @ [b]) @ s \<and> bs = s @ CRLF @ rest \<and> no_line_end s \<and> length line \<le> maxLen) \<longleftrightarrow>
      (\<exists>s. line = buf @ s \<and> b # bs = s @ CRLF @ rest \<and> no_line_end s \<and> length line \<le> maxLen)"
      using False by (auto simp: Cons_eq_append_conv no_line_end_def CRLF_def)
    ultimately show ?thesis using Cons.IH by simp
  qed
qed

lemma readBoundedLine_iff:
  "readBoundedLine src maxLen = Inr (line, src') \<longleftrightarrow>
    fst src = line @ CRLF @ fst src' \<and> snd src' = snd src \<and> no_line_end line \<and> length line \<le> maxLen"
proof -
  have "readBoundedLine src maxLen = Inr (line, src') \<longleftrightarrow>
    read_line maxLen [] (fst src) = Inr (line, fst src') \<and> snd src' = snd src"
    by (cases src'; cases "read_line maxLen [] (fst src)") (auto simp: readBoundedLine_def)
  then show ?thesis by (auto simp: read_line_iff)
qed

function trailer_lines ::
  "Primitives \<Rightarrow> stream \<Rightarrow> trailerKV list \<Rightarrow> string \<Rightarrow> nat \<Rightarrow> error + (trailerKV list \<times> string) \<times> stream" where
  "trailer_lines pm src headers trailerSig consumed =
    (case readBoundedLine src maxHeaderLineBytes of
       Inl err \<Rightarrow> Inl (trailerMalformed ''failed reading trailer line'')
     | Inr (line, src') \<Rightarrow>
         let consumed = consumed + (length line + 2) in
         if consumed > maxTrailerBlockBytes then Inl (trailerMalformed ''trailer block too large'')
         else if line = [] then Inr ((headers, trailerSig), src')
         else case appendTrailerLine pm line headers trailerSig of
           None \<Rightarrow> Inl (trailerMalformed ''invalid trailer header framing'')
         | Some (headers, trailerSig) \<Rightarrow> trailer_lines pm src' headers trailerSig consumed)"
  by pat_completeness auto

termination trailer_lines
  by (relation "measure (\<lambda>(_, src, _). length (fst src))")
    (auto simp: readBoundedLine_iff CRLF_def)

declare trailer_lines.simps [simp del]

definition parseTrailerLines :: "Primitives \<Rightarrow> chunkReader \<Rightarrow> error + (trailerKV list \<times> string) \<times> chunkReader" where
  "parseTrailerLines pm r =
    (case trailer_lines pm (crSrc r) [] [] 0 of Inl err \<Rightarrow> Inl err | Inr (res, src) \<Rightarrow> Inr (res, r\<lparr>crSrc := src\<rparr>))"

definition missingDeclaredTrailers :: "string list \<Rightarrow> trailerKV list \<Rightarrow> string list" where
  "missingDeclaredTrailers declared headers = filter (\<lambda>name. \<not> list_ex (\<lambda>h. tkName h = name) headers) declared"

definition readTrailerBlock :: "Primitives \<Rightarrow> chunkReader \<Rightarrow> bool \<Rightarrow> error + (trailerKV list \<times> string) \<times> chunkReader" where
  "readTrailerBlock pm r requireSignature =
    (case parseTrailerLines pm r of
       Inl err \<Rightarrow> Inl err
     | Inr ((headers, trailerSig), r') \<Rightarrow>
         if requireSignature \<and> trailerSig = [] then Inl (trailerMalformed ''missing signature'')
         else if \<not> requireSignature \<and> trailerSig \<noteq> [] then Inl (trailerMalformed ''unexpected signature'')
         else if missingDeclaredTrailers (crTrailerNames r) headers \<noteq> []
         then Inl (trailerMalformed ''declared trailer headers missing'')
         else Inr ((headers, trailerSig), r'))"

definition canonicalizeTrailers :: "Primitives \<Rightarrow> trailerKV list \<Rightarrow> string" where
  "canonicalizeTrailers pm headers = concat (map (\<lambda>h. tkName h @ '':'' @ tkValue h @ [CHR 0x0A]) (pmSortTrailers pm headers))"

definition verifyUnsignedTrailerChecksums :: "Primitives \<Rightarrow> chunkReader \<Rightarrow> trailerKV list \<Rightarrow> error option" where
  "verifyUnsignedTrailerChecksums pm r headers =
    (let values = map_of (rev (map (\<lambda>h. (tkName h, tkValue h)) headers));
         provided = (\<lambda>name. case values name of None \<Rightarrow> [] | Some v \<Rightarrow> v);
         expected = (\<lambda>name written. base64_EncodeToString (the (map_of (checksumHashes pm) name) written)) in
     case find (\<lambda>(name, written). expected name written \<noteq> provided name) (crTrailerChecksums r) of
       None \<Rightarrow> None
     | Some (name, _) \<Rightarrow> Some (Wrapped name ErrChecksumMismatch))"

subsection \<open>The end of the body\<close>

definition finalizeSigned :: "Primitives \<Rightarrow> chunkReader \<Rightarrow> string \<Rightarrow> error + chunkReader" where
  "finalizeSigned pm r finalChunkSig =
    (case verifyChunk pm r [] finalChunkSig of Inl err \<Rightarrow> Inl err | Inr r \<Rightarrow> expectCRLF r)"

definition finalizeSignedTrailer :: "Primitives \<Rightarrow> chunkReader \<Rightarrow> string \<Rightarrow> error + chunkReader" where
  "finalizeSignedTrailer pm r finalChunkSig =
    (case verifyChunk pm r [] finalChunkSig of
       Inl err \<Rightarrow> Inl err
     | Inr r \<Rightarrow>
         case readTrailerBlock pm r True of
           Inl err \<Rightarrow> Inl err
         | Inr ((headers, providedSig), r) \<Rightarrow>
             verifyLink pm r providedSig ErrTrailerSignatureMismatch ''AWS4-HMAC-SHA256-TRAILER''
               [hex_EncodeToString (pmSHA256 pm (canonicalizeTrailers pm headers))])"

definition finalizeUnsignedTrailer :: "Primitives \<Rightarrow> chunkReader \<Rightarrow> error + chunkReader" where
  "finalizeUnsignedTrailer pm r =
    (case crChecksumInitErr r of
       Some err \<Rightarrow> Inl err
     | None \<Rightarrow>
         case readTrailerBlock pm r False of
           Inl err \<Rightarrow> Inl err
         | Inr ((headers, _), r) \<Rightarrow>
             case verifyUnsignedTrailerChecksums pm r headers of Some err \<Rightarrow> Inl err | None \<Rightarrow> Inr r)"

definition finalize :: "Primitives \<Rightarrow> chunkReader \<Rightarrow> string \<Rightarrow> error + chunkReader" where
  "finalize pm r finalChunkSig =
    (case (case crVariant r of
             StreamingSigned \<Rightarrow> finalizeSigned pm r finalChunkSig
           | StreamingSignedTrailer \<Rightarrow> finalizeSignedTrailer pm r finalChunkSig
           | StreamingUnsignedTrailer \<Rightarrow> finalizeUnsignedTrailer pm r
           | StreamingNone \<Rightarrow> Inr r) of
       Inl err \<Rightarrow> Inl err
     | Inr r \<Rightarrow> if crDecoded r \<noteq> crDecodedTarget r then Inl ErrDecodedLengthMismatch else Inr (r\<lparr>crEof := True\<rparr>))"

definition write_checksums :: "bytes \<Rightarrow> chunkReader \<Rightarrow> chunkReader" where
  "write_checksums body r = r\<lparr>crTrailerChecksums := map (\<lambda>(name, written). (name, written @ body)) (crTrailerChecksums r)\<rparr>"

definition advance :: "Primitives \<Rightarrow> chunkReader \<Rightarrow> error + chunkReader" where
  "advance pm r =
    (case readChunkHeader r of
       Inl err \<Rightarrow> Inl err
     | Inr ((n, chunkSig), r) \<Rightarrow>
         if n = 0 then finalize pm r chunkSig
         else if n > MaxChunkBytes then Inl ErrChunkTooLarge
         else if crDecoded r + n > crDecodedTarget r then Inl ErrDecodedLengthMismatch
         else case io_ReadFull (crSrc r) (nat n) of
           ((_, Some _), _) \<Rightarrow> Inl ErrChunkMalformed
         | ((body, None), src) \<Rightarrow>
             case expectCRLF (r\<lparr>crSrc := src\<rparr>) of
               Inl err \<Rightarrow> Inl err
             | Inr r \<Rightarrow>
                 case (if crVariant r = StreamingSigned \<or> crVariant r = StreamingSignedTrailer
                       then verifyChunk pm r body chunkSig else Inr r) of
                   Inl err \<Rightarrow> Inl err
                 | Inr r \<Rightarrow>
                     case (if crVariant r = StreamingUnsignedTrailer
                           then (case crChecksumInitErr r of Some err \<Rightarrow> Inl err | None \<Rightarrow> Inr (write_checksums body r))
                           else Inr r) of
                       Inl err \<Rightarrow> Inl err
                     | Inr r \<Rightarrow> Inr (r\<lparr>crBuf := body, crDecoded := crDecoded r + n\<rparr>))"

subsection \<open>What a step of the reader consumes\<close>

definition signed_variant :: "StreamingVariant \<Rightarrow> bool" where
  "signed_variant v \<longleftrightarrow> v = StreamingSigned \<or> v = StreamingSignedTrailer"

text \<open>The signature of a chunk under a request's key, after the signature before it.\<close>

definition chunk_signature :: "Primitives \<Rightarrow> chunkReader \<Rightarrow> string \<Rightarrow> bytes \<Rightarrow> string" where
  "chunk_signature pm r prevSig body =
    link_signature pm (crSigningKey r) (crAmzDate r) (crCredScope r) prevSig ''AWS4-HMAC-SHA256-PAYLOAD'' (chunk_hashes pm body)"

text \<open>What no step changes.\<close>

definition same_request :: "chunkReader \<Rightarrow> chunkReader \<Rightarrow> bool" where
  "same_request r r' \<longleftrightarrow>
    crVariant r' = crVariant r \<and> crSigningKey r' = crSigningKey r \<and> crAmzDate r' = crAmzDate r \<and> crCredScope r' = crCredScope r \<and>
    crDecodedTarget r' = crDecodedTarget r \<and> crTrailerNames r' = crTrailerNames r \<and>
    crChecksumInitErr r' = crChecksumInitErr r \<and> crErr r' = crErr r"

lemma same_request_trans: "same_request r r' \<Longrightarrow> same_request r' r'' \<Longrightarrow> same_request r r''"
  by (simp add: same_request_def)

lemma chunk_signature_same: "same_request r r' \<Longrightarrow> chunk_signature pm r' = chunk_signature pm r"
  by (simp add: same_request_def chunk_signature_def fun_eq_iff)

lemma expectCRLF_iff:
  "expectCRLF r = Inr r' \<longleftrightarrow> (\<exists>rest. fst (crSrc r) = CRLF @ rest \<and> r' = r\<lparr>crSrc := (rest, snd (crSrc r))\<rparr>)"
proof -
  obtain bs e where src: "crSrc r = (bs, e)" by (cases "crSrc r")
  show ?thesis
  proof (cases "2 \<le> length bs")
    case True
    then obtain a b rest where "bs = a # b # rest" by (cases bs; cases "tl bs") auto
    then show ?thesis using src by (auto simp: expectCRLF_def io_ReadFull_def CRLF_def)
  next
    case False
    then show ?thesis using src by (auto simp: expectCRLF_def io_ReadFull_def CRLF_def)
  qed
qed

lemma verifyChunk_iff:
  "verifyChunk pm r body sig = Inr r' \<longleftrightarrow> sig = chunk_signature pm r (crPrevSig r) body \<and> r' = r\<lparr>crPrevSig := sig\<rparr>"
  by (auto simp: verifyChunk_def verifyLink_def chunk_signature_def Let_def)

lemma readChunkHeader_iff:
  "readChunkHeader r = Inr (h, r') \<longleftrightarrow>
    (\<exists>line rest. fst (crSrc r) = line @ CRLF @ rest \<and> no_line_end line \<and> length line \<le> maxHeaderLineBytes \<and>
      parseChunkHeader (crVariant r) line = Inr h \<and> r' = r\<lparr>crSrc := (rest, snd (crSrc r))\<rparr>)"
proof
  assume a: "readChunkHeader r = Inr (h, r')"
  then obtain line src where l: "readBoundedLine (crSrc r) maxHeaderLineBytes = Inr (line, src)"
    "parseChunkHeader (crVariant r) line = Inr h" "r' = r\<lparr>crSrc := src\<rparr>"
    by (auto simp: readChunkHeader_def split: sum.splits)
  moreover have "src = (fst src, snd (crSrc r))" using l(1) by (simp add: readBoundedLine_iff prod_eq_iff)
  ultimately show "\<exists>line rest. fst (crSrc r) = line @ CRLF @ rest \<and> no_line_end line \<and> length line \<le> maxHeaderLineBytes \<and>
      parseChunkHeader (crVariant r) line = Inr h \<and> r' = r\<lparr>crSrc := (rest, snd (crSrc r))\<rparr>"
    by (metis readBoundedLine_iff)
next
  assume "\<exists>line rest. fst (crSrc r) = line @ CRLF @ rest \<and> no_line_end line \<and> length line \<le> maxHeaderLineBytes \<and>
      parseChunkHeader (crVariant r) line = Inr h \<and> r' = r\<lparr>crSrc := (rest, snd (crSrc r))\<rparr>"
  then obtain line rest where l: "fst (crSrc r) = line @ CRLF @ rest" "no_line_end line" "length line \<le> maxHeaderLineBytes"
    "parseChunkHeader (crVariant r) line = Inr h" "r' = r\<lparr>crSrc := (rest, snd (crSrc r))\<rparr>" by blast
  then have "readBoundedLine (crSrc r) maxHeaderLineBytes = Inr (line, (rest, snd (crSrc r)))" by (simp add: readBoundedLine_iff)
  with l(4,5) show "readChunkHeader r = Inr (h, r')" by (simp add: readChunkHeader_def)
qed

text \<open>The two ways a step succeeds: it takes a chunk off the wire, or the end of the body.\<close>

definition takes_chunk :: "Primitives \<Rightarrow> chunkReader \<Rightarrow> string \<Rightarrow> bytes \<Rightarrow> string \<Rightarrow> chunkReader \<Rightarrow> bool" where
  "takes_chunk pm r line body sig r' \<longleftrightarrow>
    fst (crSrc r) = line @ CRLF @ body @ CRLF @ fst (crSrc r') \<and> snd (crSrc r') = snd (crSrc r) \<and>
    no_line_end line \<and> length line \<le> maxHeaderLineBytes \<and>
    parseChunkHeader (crVariant r) line = Inr (int (length body), sig) \<and> body \<noteq> [] \<and> int (length body) \<le> MaxChunkBytes \<and>
    crBuf r' = body \<and> crDecoded r' = crDecoded r + int (length body) \<and> crDecoded r' \<le> crDecodedTarget r \<and>
    crEof r' = crEof r \<and> same_request r r' \<and>
    (if signed_variant (crVariant r) then sig = chunk_signature pm r (crPrevSig r) body \<and> crPrevSig r' = sig
     else crPrevSig r' = crPrevSig r) \<and>
    crTrailerChecksums r' =
      (if crVariant r = StreamingUnsignedTrailer then map (\<lambda>(name, written). (name, written @ body)) (crTrailerChecksums r)
       else crTrailerChecksums r)"

definition takes_end :: "Primitives \<Rightarrow> chunkReader \<Rightarrow> string \<Rightarrow> string \<Rightarrow> bytes \<Rightarrow> chunkReader \<Rightarrow> bool" where
  "takes_end pm r line sig rest r' \<longleftrightarrow>
    fst (crSrc r) = line @ CRLF @ rest \<and> no_line_end line \<and> length line \<le> maxHeaderLineBytes \<and>
    parseChunkHeader (crVariant r) line = Inr (0, sig) \<and> finalize pm (r\<lparr>crSrc := (rest, snd (crSrc r))\<rparr>) sig = Inr r'"

lemma trailer_lines_shorter: "trailer_lines pm src headers sig n = Inr (res, src') \<Longrightarrow> length (fst src') < length (fst src)"
proof (induction pm src headers sig n rule: trailer_lines.induct)
  case (1 pm src headers sig n)
  obtain line src1 where l: "readBoundedLine src maxHeaderLineBytes = Inr (line, src1)"
    using 1(2) by (auto simp: trailer_lines.simps [of pm src] split: sum.splits)
  have shorter: "length (fst src1) < length (fst src)" using l by (simp add: readBoundedLine_iff CRLF_def)
  show ?case
  proof (cases "line = []")
    case True
    then show ?thesis using 1(2) l shorter by (auto simp: trailer_lines.simps [of pm src] Let_def split: if_splits)
  next
    case False
    then obtain headers' sig' where "trailer_lines pm src1 headers' sig' (n + (length line + 2)) = Inr (res, src')"
      "appendTrailerLine pm line headers sig = Some (headers', sig')" "\<not> n + (length line + 2) > maxTrailerBlockBytes"
      using 1(2) l by (auto simp: trailer_lines.simps [of pm src] Let_def split: if_splits option.splits)
    with 1(1) [OF l refl refl _ False] shorter show ?thesis by fastforce
  qed
qed

lemma readTrailerBlock_Inr:
  assumes "readTrailerBlock pm r req = Inr ((headers, sig), r')"
  shows "\<exists>src. trailer_lines pm (crSrc r) [] [] 0 = Inr ((headers, sig), src) \<and> r' = r\<lparr>crSrc := src\<rparr> \<and>
    (\<forall>name \<in> set (crTrailerNames r). \<exists>h \<in> set headers. tkName h = name)"
  using assms
  by (auto simp: readTrailerBlock_def parseTrailerLines_def missingDeclaredTrailers_def filter_empty_conv list_ex_iff
      split: sum.splits if_splits)

text \<open>Closing the body leaves the payload alone.\<close>

definition closes :: "chunkReader \<Rightarrow> chunkReader \<Rightarrow> bool" where
  "closes r r' \<longleftrightarrow> same_request r r' \<and> crBuf r' = crBuf r \<and> crDecoded r' = crDecoded r \<and>
    crTrailerChecksums r' = crTrailerChecksums r \<and> length (fst (crSrc r')) \<le> length (fst (crSrc r))"

lemma closes_trans: "closes r r' \<Longrightarrow> closes r' r'' \<Longrightarrow> closes r r''"
  by (auto simp: closes_def intro: same_request_trans)

lemma expectCRLF_closes: "expectCRLF r = Inr r' \<Longrightarrow> closes r r'"
  by (auto simp: expectCRLF_iff closes_def same_request_def)

lemma verifyLink_closes: "verifyLink pm r p m a hs = Inr r' \<Longrightarrow> closes r r'"
  by (auto simp: verifyLink_def Let_def closes_def same_request_def split: if_splits)

lemma readTrailerBlock_closes: "readTrailerBlock pm r q = Inr ((headers, sig), r') \<Longrightarrow> closes r r'"
  by (auto dest!: readTrailerBlock_Inr trailer_lines_shorter simp: closes_def same_request_def)

lemma finalizeSigned_closes: "finalizeSigned pm r sig = Inr r' \<Longrightarrow> closes r r'"
  by (auto simp: finalizeSigned_def verifyChunk_def split: sum.splits
      intro: closes_trans [OF verifyLink_closes expectCRLF_closes])

lemma finalizeSignedTrailer_closes: "finalizeSignedTrailer pm r sig = Inr r' \<Longrightarrow> closes r r'"
  by (auto simp: finalizeSignedTrailer_def verifyChunk_def split: sum.splits
      intro: closes_trans [OF closes_trans [OF verifyLink_closes readTrailerBlock_closes] verifyLink_closes])

lemma finalizeUnsignedTrailer_closes: "finalizeUnsignedTrailer pm r = Inr r' \<Longrightarrow> closes r r'"
  by (auto simp: finalizeUnsignedTrailer_def split: sum.splits option.splits intro: readTrailerBlock_closes)

lemma finalize_Inr:
  assumes "finalize pm r sig = Inr r'"
  shows "crEof r'" "crDecoded r = crDecodedTarget r" "closes r r'"
proof -
  obtain r1 where r1: "(case crVariant r of
             StreamingSigned \<Rightarrow> finalizeSigned pm r sig
           | StreamingSignedTrailer \<Rightarrow> finalizeSignedTrailer pm r sig
           | StreamingUnsignedTrailer \<Rightarrow> finalizeUnsignedTrailer pm r
           | StreamingNone \<Rightarrow> Inr r) = Inr r1" "crDecoded r1 = crDecodedTarget r1" "r' = r1\<lparr>crEof := True\<rparr>"
    using assms by (auto simp: finalize_def split: sum.splits if_splits)
  have "closes r r1"
    using r1(1) finalizeSigned_closes finalizeSignedTrailer_closes finalizeUnsignedTrailer_closes
    by (cases "crVariant r") (simp_all add: closes_def same_request_def)
  with r1(2,3) show "crEof r'" "crDecoded r = crDecodedTarget r" "closes r r'"
    by (simp_all add: closes_def same_request_def)
qed

lemma io_ReadFull_some:
  "io_ReadFull src n = ((body, None), src') \<longleftrightarrow> length body = n \<and> fst src = body @ fst src' \<and> snd src' = snd src"
  by (cases src; cases src') (auto simp: io_ReadFull_def split: if_splits)

lemma advance_Inr:
  assumes "advance pm r = Inr r'"
  shows "(\<exists>line body sig. takes_chunk pm r line body sig r') \<or> (\<exists>line sig rest. takes_end pm r line sig rest r')"
proof -
  obtain n sig r1 where h: "readChunkHeader r = Inr ((n, sig), r1)"
    using assms by (auto simp: advance_def split: sum.splits)
  then obtain line rest where l: "fst (crSrc r) = line @ CRLF @ rest" "no_line_end line" "length line \<le> maxHeaderLineBytes"
      "parseChunkHeader (crVariant r) line = Inr (n, sig)" and r1: "r1 = r\<lparr>crSrc := (rest, snd (crSrc r))\<rparr>"
    unfolding readChunkHeader_iff by blast
  show ?thesis
  proof (cases "n = 0")
    case True
    then have "takes_end pm r line sig rest r'" using assms h l r1 by (simp add: takes_end_def advance_def)
    then show ?thesis by blast
  next
    case False
    have "0 \<le> n" using l(4) by (auto simp: parseChunkHeader_def Let_def split: option.splits if_splits prod.splits)
    have bounds: "\<not> n > MaxChunkBytes" "\<not> crDecoded r1 + n > crDecodedTarget r1"
      using assms h False by (auto simp: advance_def split: if_splits)
    obtain body src where body: "io_ReadFull (crSrc r1) (nat n) = ((body, None), src)"
      using assms h False bounds by (auto simp: advance_def split: prod.splits option.splits)
    obtain r2 where r2: "expectCRLF (r1\<lparr>crSrc := src\<rparr>) = Inr r2"
      using assms h False bounds body by (auto simp: advance_def split: sum.splits)
    obtain r3 where r3: "(if signed_variant (crVariant r2) then verifyChunk pm r2 body sig else Inr r2) = Inr r3"
      using assms h False bounds body r2 by (auto simp: advance_def signed_variant_def split: sum.splits)
    obtain r4 where r4: "(if crVariant r3 = StreamingUnsignedTrailer
         then (case crChecksumInitErr r3 of Some err \<Rightarrow> Inl err | None \<Rightarrow> Inr (write_checksums body r3)) else Inr r3) = Inr r4"
      using assms h False bounds body r2 r3 unfolding signed_variant_def by (auto simp: advance_def split: sum.splits)
    have r': "r' = r4\<lparr>crBuf := body, crDecoded := crDecoded r4 + n\<rparr>"
      using assms h False bounds body r2 r3 r4 unfolding signed_variant_def by (simp add: advance_def)
    have len: "n = int (length body)" "rest = body @ fst src" "snd src = snd (crSrc r)" "body \<noteq> []"
      using body \<open>0 \<le> n\<close> False by (auto simp: io_ReadFull_some r1)
    obtain rest' where rest': "fst src = CRLF @ rest'" "r2 = r\<lparr>crSrc := (rest', snd (crSrc r))\<rparr>"
      using r2 len(3) by (auto simp: expectCRLF_iff r1)
    have s3: "r3 = (if signed_variant (crVariant r) then r2\<lparr>crPrevSig := sig\<rparr> else r2)"
      "signed_variant (crVariant r) \<longrightarrow> sig = chunk_signature pm r (crPrevSig r) body"
      using r3 rest'(2) by (simp_all add: verifyChunk_iff chunk_signature_def split: if_splits)
    have s4: "r4 = (if crVariant r = StreamingUnsignedTrailer then write_checksums body r3 else r3)"
      using r4 by (auto simp: s3(1) rest'(2) split: if_splits option.splits)
    have "takes_chunk pm r line body sig r'"
      using l bounds s3(2) unfolding takes_chunk_def r' s4 s3(1) rest'(2) same_request_def write_checksums_def r1
      by (cases "crVariant r") (simp_all add: len rest'(1) signed_variant_def)
    then show ?thesis by blast
  qed
qed

lemma advance_shorter:
  assumes "advance pm r = Inr r'"
  shows "length (fst (crSrc r')) < length (fst (crSrc r))"
  using advance_Inr [OF assms] by (auto simp: takes_chunk_def takes_end_def CRLF_def closes_def dest!: finalize_Inr(3))

subsection \<open>Reading\<close>

function chunk_fill :: "Primitives \<Rightarrow> chunkReader \<Rightarrow> io_err option \<times> chunkReader" where
  "chunk_fill pm r =
    (if crBuf r \<noteq> [] then (None, r)
     else if crEof r then (Some IoEOF, r)
     else case advance pm r of
       Inl err \<Rightarrow> (Some (IoErr err), r\<lparr>crErr := Some err\<rparr>)
     | Inr r' \<Rightarrow> chunk_fill pm r')"
  by pat_completeness auto

termination chunk_fill
  by (relation "measure (\<lambda>(_, r). length (fst (crSrc r)))") (auto dest: advance_shorter)

declare chunk_fill.simps [simp del]

definition chunkReader_Read :: "Primitives \<Rightarrow> chunkReader \<Rightarrow> nat \<Rightarrow> (bytes \<times> io_err option) \<times> chunkReader" where
  "chunkReader_Read pm r n =
    (case crErr r of
       Some err \<Rightarrow> (([], Some (IoErr err)), r)
     | None \<Rightarrow>
         case chunk_fill pm r of
           (Some e, r') \<Rightarrow> (([], Some e), r')
         | (None, r') \<Rightarrow> ((take n (crBuf r'), None), r'\<lparr>crBuf := drop n (crBuf r')\<rparr>))"

text \<open>The stream of a reader: the chunks still on the wire, up to the error or end that stops it.\<close>

function payload :: "Primitives \<Rightarrow> chunkReader \<Rightarrow> stream" where
  "payload pm r =
    (if crEof r then ([], IoEOF)
     else case advance pm r of
       Inl err \<Rightarrow> ([], IoErr err)
     | Inr r' \<Rightarrow> (case payload pm (r'\<lparr>crBuf := []\<rparr>) of (rest, e) \<Rightarrow> (crBuf r' @ rest, e)))"
  by pat_completeness auto

termination payload
  by (relation "measure (\<lambda>(_, r). length (fst (crSrc r)))") (auto dest: advance_shorter)

declare payload.simps [simp del]

definition chunk_denotes :: "Primitives \<Rightarrow> chunkReader \<Rightarrow> stream" where
  "chunk_denotes pm r =
    (case crErr r of
       Some err \<Rightarrow> ([], IoErr err)
     | None \<Rightarrow> (crBuf r @ fst (payload pm (r\<lparr>crBuf := []\<rparr>)), snd (payload pm (r\<lparr>crBuf := []\<rparr>))))"

lemma advance_err: "advance pm r = Inr r' \<Longrightarrow> crErr r' = crErr r"
  by (auto dest!: advance_Inr finalize_Inr(3) simp: takes_chunk_def takes_end_def same_request_def closes_def)

lemma chunk_fill_denotes:
  "crErr r = None \<Longrightarrow>
    (case chunk_fill pm r of
       (None, r') \<Rightarrow> crErr r' = None \<and> crBuf r' \<noteq> [] \<and> chunk_denotes pm r' = chunk_denotes pm r
     | (Some e, r') \<Rightarrow> chunk_denotes pm r = ([], e))"
proof (induction pm r rule: chunk_fill.induct)
  case (1 pm r)
  show ?case
  proof (cases "crBuf r = [] \<and> \<not> crEof r")
    case False
    then show ?thesis using 1(2) by (auto simp: chunk_fill.simps [of pm r] chunk_denotes_def payload.simps)
  next
    case True
    then have r: "r\<lparr>crBuf := []\<rparr> = r" by simp
    show ?thesis
    proof (cases "advance pm r")
      case (Inl err)
      then show ?thesis using True 1(2) unfolding chunk_denotes_def r
        by (simp add: chunk_fill.simps [of pm r] payload.simps [of pm r])
    next
      case (Inr r')
      then have e: "crErr r' = None" using advance_err 1(2) by metis
      have "chunk_denotes pm r = chunk_denotes pm r'"
        using True 1(2) e Inr unfolding chunk_denotes_def r by (simp add: payload.simps [of pm r] split: prod.splits)
      then show ?thesis using 1(1) [of r'] True Inr e by (simp add: chunk_fill.simps [of pm r] split: prod.splits option.splits)
    qed
  qed
qed

interpretation chunked: stream_reader "chunkReader_Read pm" "\<lambda>_. True" "chunk_denotes pm"
  "\<lambda>r. length (fst (chunk_denotes pm r))" for pm
proof (unfold_locales, goal_cases)
  case (1 r n out r')
  then have none: "crErr r = None" by (auto simp: chunkReader_Read_def split: option.splits)
  then obtain r1 where r1: "chunk_fill pm r = (None, r1)" "out = take n (crBuf r1)" "r' = r1\<lparr>crBuf := drop n (crBuf r1)\<rparr>"
    using 1(3) by (auto simp: chunkReader_Read_def split: prod.splits option.splits)
  have d: "crErr r1 = None" "crBuf r1 \<noteq> []" "chunk_denotes pm r1 = chunk_denotes pm r"
    using chunk_fill_denotes [OF none, of pm] r1(1) by simp_all
  have "chunk_denotes pm r = (out @ fst (chunk_denotes pm r'), snd (chunk_denotes pm r'))" "out \<noteq> []"
    unfolding d(3) [symmetric] using d(1,2) r1(2,3) 1(2) by (simp_all add: chunk_denotes_def)
  then show ?case by simp
next
  case (2 r n out e r')
  show ?case
  proof (cases "crErr r")
    case None
    then show ?thesis using 2(3) chunk_fill_denotes [OF None, of pm]
      by (auto simp: chunkReader_Read_def split: prod.splits option.splits)
  next
    case (Some err)
    then show ?thesis using 2(3) by (simp add: chunkReader_Read_def chunk_denotes_def)
  qed
qed

end
