(* ===== verification/ChunkReaderProps.thy ===== *)
theory ChunkReaderProps
  imports ChunkReader
begin

text \<open>
  What the decoder of streaming uploads promises: in the signed variants it yields only bytes of chunks whose
  signatures continue the chain from the request's own signature, and reports the end of the body only after the signed
  end of the chain at exactly the declared length; with an unsigned trailer it reports the end only when every declared
  checksum is the checksum of what it yielded; and the encoding a client makes of its data decodes to that data.
\<close>

subsection \<open>The chain of signatures\<close>

text \<open>The signature a request's key gives a chunk after the signature before it.\<close>

definition request_signature :: "Primitives \<Rightarrow> StreamingMaterial \<Rightarrow> string \<Rightarrow> bytes \<Rightarrow> string" where
  "request_signature pm mat prevSig body =
    link_signature pm (smSigningKey mat) (smAmzDate mat) (smCredScope mat) prevSig ''AWS4-HMAC-SHA256-PAYLOAD'' (chunk_hashes pm body)"

lemma new_reader_signature: "chunk_signature pm (NewChunkReader pm body mat) = request_signature pm mat"
  by (simp add: chunk_signature_def request_signature_def NewChunkReader_def Let_def fun_eq_iff)

text \<open>A chunk as it is on the wire: its size line, its bytes and the signature the line carries.\<close>

type_synonym wire_chunk = "string \<times> bytes \<times> string"

definition wire :: "wire_chunk \<Rightarrow> bytes" where
  "wire c = (case c of (line, body, _) \<Rightarrow> line @ CRLF @ body @ CRLF)"

definition chunk_bodies :: "wire_chunk list \<Rightarrow> bytes" where
  "chunk_bodies cs = concat (map (\<lambda>(_, body, _). body) cs)"

lemma wire_simps [simp]:
  "wire (line, body, sig) = line @ CRLF @ body @ CRLF" "chunk_bodies [] = []"
  "chunk_bodies ((line, body, sig) # cs) = body @ chunk_bodies cs"
  by (simp_all add: wire_def chunk_bodies_def)

fun signed_chain :: "(string \<Rightarrow> bytes \<Rightarrow> string) \<Rightarrow> StreamingVariant \<Rightarrow> string \<Rightarrow> wire_chunk list \<Rightarrow> bool" where
  "signed_chain sign variant prev [] = True"
| "signed_chain sign variant prev ((line, body, sig) # cs) \<longleftrightarrow>
    parseChunkHeader variant line = Inr (int (length body), sig) \<and> body \<noteq> [] \<and> int (length body) \<le> MaxChunkBytes \<and>
    sig = sign prev body \<and> signed_chain sign variant sig cs"

fun last_sig :: "string \<Rightarrow> wire_chunk list \<Rightarrow> string" where
  "last_sig prev [] = prev"
| "last_sig prev ((_, _, sig) # cs) = last_sig sig cs"

text \<open>The body ends here: an empty chunk, signed after the last one.\<close>

definition signed_end :: "(string \<Rightarrow> bytes \<Rightarrow> string) \<Rightarrow> StreamingVariant \<Rightarrow> string \<Rightarrow> bytes \<Rightarrow> bool" where
  "signed_end sign variant prev bs \<longleftrightarrow>
    (\<exists>line rest. bs = line @ CRLF @ rest \<and> parseChunkHeader variant line = Inr (0, sign prev []))"

lemma finalize_signed:
  assumes "finalize pm r sig = Inr r'" "signed_variant (crVariant r)"
  shows "sig = chunk_signature pm r (crPrevSig r) []"
  using assms
  by (auto simp: finalize_def signed_variant_def finalizeSigned_def finalizeSignedTrailer_def verifyChunk_iff split: sum.splits)

lemma payload_eof: "crEof r \<Longrightarrow> payload pm r = ([], IoEOF)"
  by (simp add: payload.simps)

lemma payload_step:
  assumes "\<not> crEof r" "advance pm r = Inr r'"
  shows "payload pm r = (crBuf r' @ fst (payload pm (r'\<lparr>crBuf := []\<rparr>)), snd (payload pm (r'\<lparr>crBuf := []\<rparr>)))"
  using assms by (simp add: payload.simps [of pm r] split: prod.splits)

lemma signature_buf [simp]: "chunk_signature pm (r\<lparr>crBuf := b\<rparr>) = chunk_signature pm r"
  by (simp add: chunk_signature_def fun_eq_iff)

lemma denotes_fresh:
  assumes "crErr r = None" "crBuf r = []"
  shows "chunk_denotes pm r = payload pm r"
proof -
  have "r\<lparr>crBuf := []\<rparr> = r" using assms(2) by simp
  then have "payload pm (r\<lparr>crBuf := []\<rparr>) = payload pm r" by (rule arg_cong)
  then show ?thesis by (simp add: chunk_denotes_def assms)
qed

lemma payload_chain:
  "\<lbrakk>signed_variant (crVariant r); \<not> crEof r; crBuf r = []; crDecoded r \<le> crDecodedTarget r\<rbrakk> \<Longrightarrow>
    \<exists>cs rest. fst (crSrc r) = concat (map wire cs) @ rest \<and> fst (payload pm r) = chunk_bodies cs \<and>
      signed_chain (chunk_signature pm r) (crVariant r) (crPrevSig r) cs \<and>
      crDecoded r + int (length (chunk_bodies cs)) \<le> crDecodedTarget r \<and>
      (snd (payload pm r) = IoEOF \<longrightarrow> crDecoded r + int (length (chunk_bodies cs)) = crDecodedTarget r \<and>
         signed_end (chunk_signature pm r) (crVariant r) (last_sig (crPrevSig r) cs) rest)"
proof (induction pm r rule: payload.induct)
  case (1 pm r)
  show ?case
  proof (cases "advance pm r")
    case (Inl err)
    then have "payload pm r = ([], IoErr err)" using 1(3) by (simp add: payload.simps)
    then show ?thesis using 1(5) by (intro exI [of _ "[]"] exI [of _ "fst (crSrc r)"]) simp
  next
    case (Inr r')
    note step = payload_step [OF 1(3) Inr]
    from advance_Inr [OF Inr] consider (chunk) line body sig where "takes_chunk pm r line body sig r'"
      | (final) line sig rest where "takes_end pm r line sig rest r'" by blast
    then show ?thesis
    proof cases
      case chunk
      let ?r = "r'\<lparr>crBuf := []\<rparr>"
      have sr: "same_request r r'" using chunk by (simp add: takes_chunk_def)
      have req: "crVariant r' = crVariant r" "crDecodedTarget r' = crDecodedTarget r"
        using sr by (simp_all add: same_request_def)
      note req = req chunk_signature_same [OF sr, of pm]
      have c: "fst (crSrc r) = line @ CRLF @ body @ CRLF @ fst (crSrc r')" "crBuf r' = body" "body \<noteq> []"
        "parseChunkHeader (crVariant r) line = Inr (int (length body), sig)" "int (length body) \<le> MaxChunkBytes"
        "crDecoded r' = crDecoded r + int (length body)" "crDecoded r' \<le> crDecodedTarget r" "\<not> crEof r'"
        "sig = chunk_signature pm r (crPrevSig r) body" "crPrevSig r' = sig"
        using chunk 1(2,3) by (simp_all add: takes_chunk_def)
      have "\<exists>cs rest. fst (crSrc r') = concat (map wire cs) @ rest \<and> fst (payload pm ?r) = chunk_bodies cs \<and>
        signed_chain (chunk_signature pm r) (crVariant r) sig cs \<and>
        crDecoded r' + int (length (chunk_bodies cs)) \<le> crDecodedTarget r \<and>
        (snd (payload pm ?r) = IoEOF \<longrightarrow> crDecoded r' + int (length (chunk_bodies cs)) = crDecodedTarget r \<and>
           signed_end (chunk_signature pm r) (crVariant r) (last_sig sig cs) rest)"
        using 1(1) [OF 1(3) Inr] 1(2) c(7,8) unfolding c(10) [symmetric] by (simp add: req)
      then obtain cs rest where IH: "fst (crSrc r') = concat (map wire cs) @ rest" "fst (payload pm ?r) = chunk_bodies cs"
        "signed_chain (chunk_signature pm r) (crVariant r) sig cs"
        "crDecoded r' + int (length (chunk_bodies cs)) \<le> crDecodedTarget r"
        "snd (payload pm ?r) = IoEOF \<longrightarrow> crDecoded r' + int (length (chunk_bodies cs)) = crDecodedTarget r \<and>
           signed_end (chunk_signature pm r) (crVariant r) (last_sig sig cs) rest" by blast
      show ?thesis
        using IH c(1-9) by (intro exI [of _ "(line, body, sig) # cs"] exI [of _ rest]) (simp add: step add.assoc)
    next
      case final
      then have f: "finalize pm (r\<lparr>crSrc := (rest, snd (crSrc r))\<rparr>) sig = Inr r'"
        and w: "fst (crSrc r) = line @ CRLF @ rest" "parseChunkHeader (crVariant r) line = Inr (0, sig)"
        by (simp_all add: takes_end_def)
      have p: "payload pm r = ([], IoEOF)"
        using finalize_Inr(1,3) [OF f] 1(4) step by (simp add: payload_eof closes_def)
      have "sig = chunk_signature pm r (crPrevSig r) []"
        using finalize_signed [OF f] 1(2) by (simp add: chunk_signature_def)
      then have "signed_end (chunk_signature pm r) (crVariant r) (crPrevSig r) (fst (crSrc r))"
        unfolding signed_end_def using w by blast
      then show ?thesis
        using finalize_Inr(2) [OF f] p by (intro exI [of _ "[]"] exI [of _ "fst (crSrc r)"]) simp
    qed
  qed
qed

text \<open>C16. In the signed variants the reader yields nothing that was not signed. However it is read, what it has
  yielded is the beginning of the bodies of chunks that stand at the front of the request's body, each with the signature
  of its bytes under the request's key after the signature before it, the first after the request's own signature, and
  together no longer than declared. It reports the end only when it has yielded all of them, at exactly the declared
  length, and the chain of signatures ends there with a signed empty chunk.\<close>

theorem only_signed_bytes_read:
  assumes "signed_variant (smVariant mat)" "0 \<le> smDecodedLen mat" "list_all ((<) 0) ns"
    and "reads (chunkReader_Read pm) ns (NewChunkReader pm body mat) = (out, e)"
    and "sign = request_signature pm mat"
  shows "\<exists>cs rest. fst body = concat (map wire cs) @ rest \<and> signed_chain sign (smVariant mat) (smSeedSig mat) cs \<and>
    prefix out (chunk_bodies cs) \<and> int (length (chunk_bodies cs)) \<le> smDecodedLen mat \<and>
    (e = Some IoEOF \<longrightarrow> out = chunk_bodies cs \<and> int (length out) = smDecodedLen mat \<and>
       signed_end sign (smVariant mat) (last_sig (smSeedSig mat) cs) rest)"
proof -
  define r where "r = NewChunkReader pm body mat"
  have r: "crVariant r = smVariant mat" "\<not> crEof r" "crBuf r = []" "crDecoded r = 0" "crDecodedTarget r = smDecodedLen mat"
    "crSrc r = body" "crPrevSig r = smSeedSig mat" "crErr r = None"
    by (simp_all add: r_def NewChunkReader_def Let_def)
  have sg: "chunk_signature pm r = sign" by (simp add: r_def new_reader_signature assms(5))
  have d: "chunk_denotes pm r = payload pm r" by (simp add: denotes_fresh r)
  obtain more where more: "fst (payload pm r) = out @ more" "e \<noteq> None \<longrightarrow> more = [] \<and> e = Some (snd (payload pm r))"
    using chunked.reads_prefix [OF TrueI assms(3) assms(4) [folded r_def]] unfolding d by blast
  obtain cs rest where cs: "fst body = concat (map wire cs) @ rest" "fst (payload pm r) = chunk_bodies cs"
    "signed_chain sign (smVariant mat) (smSeedSig mat) cs" "int (length (chunk_bodies cs)) \<le> smDecodedLen mat"
    "snd (payload pm r) = IoEOF \<longrightarrow> int (length (chunk_bodies cs)) = smDecodedLen mat \<and>
       signed_end sign (smVariant mat) (last_sig (smSeedSig mat) cs) rest"
    using payload_chain [of r pm] assms(1,2) unfolding sg by (auto simp: r)
  have "prefix out (chunk_bodies cs)" using cs(2) more(1) by (metis prefixI)
  then show ?thesis using cs more by (intro exI [of _ cs] exI [of _ rest]) auto
qed

subsection \<open>Checksums in an unsigned trailer\<close>

definition trailer_value :: "trailerKV list \<Rightarrow> string \<Rightarrow> string option" where
  "trailer_value headers = map_of (rev (map (\<lambda>h. (tkName h, tkValue h)) headers))"

lemma newTrailerChecksums_Inr:
  "newTrailerChecksums pm names = Inr cs \<Longrightarrow>
    set cs = (\<lambda>name. (name, [])) ` set names \<and> (\<forall>name \<in> set names. map_of (checksumHashes pm) name \<noteq> None)"
  by (induction names arbitrary: cs) (auto split: option.splits sum.splits)

definition checksums_match :: "Primitives \<Rightarrow> trailerKV list \<Rightarrow> (string \<times> bytes) list \<Rightarrow> bytes \<Rightarrow> bool" where
  "checksums_match pm headers checksums out \<longleftrightarrow>
    (\<forall>(name, written) \<in> set checksums.
       base64_EncodeToString (the (map_of (checksumHashes pm) name) (written @ out)) =
       (case trailer_value headers name of None \<Rightarrow> [] | Some v \<Rightarrow> v))"

lemma checksums_match_write:
  "checksums_match pm headers (map (\<lambda>(name, written). (name, written @ body)) cs) out \<longleftrightarrow> checksums_match pm headers cs (body @ out)"
  by (simp add: checksums_match_def split_beta)

lemma case_none: "(case x of None \<Rightarrow> None | Some (a, b) \<Rightarrow> Some (f a)) = None \<Longrightarrow> x = None"
  by (cases x) auto

lemma finalizeUnsigned_checked:
  assumes "finalize pm r sig = Inr r'" "crVariant r = StreamingUnsignedTrailer"
  shows "crChecksumInitErr r = None \<and> (\<exists>headers src. trailer_lines pm (crSrc r) [] [] 0 = Inr ((headers, []), src) \<and>
    (\<forall>name \<in> set (crTrailerNames r). \<exists>h \<in> set headers. tkName h = name) \<and>
    (checksums_match pm headers (crTrailerChecksums r) []))"
proof -
  obtain headers sig' r1 where b: "readTrailerBlock pm r False = Inr ((headers, sig'), r1)"
    and v: "verifyUnsignedTrailerChecksums pm r1 headers = None" and init: "crChecksumInitErr r = None"
    using assms by (auto simp: finalize_def finalizeUnsignedTrailer_def split: sum.splits option.splits)
  have "sig' = []" using b by (auto simp: readTrailerBlock_def split: sum.splits if_splits)
  moreover have "crTrailerChecksums r1 = crTrailerChecksums r" using readTrailerBlock_closes [OF b] by (simp add: closes_def)
  moreover have "checksums_match pm headers (crTrailerChecksums r1) []"
  proof -
    let ?bad = "\<lambda>(name, written). base64_EncodeToString (the (map_of (checksumHashes pm) name) written) \<noteq>
      (case trailer_value headers name of None \<Rightarrow> [] | Some v \<Rightarrow> v)"
    have "find ?bad (crTrailerChecksums r1) = None"
      using v unfolding verifyUnsignedTrailerChecksums_def Let_def trailer_value_def
      by (rule case_none)
    then show ?thesis by (simp add: checksums_match_def find_None_iff split_beta)
  qed
  ultimately show ?thesis using readTrailerBlock_Inr [OF b] init by auto
qed

lemma payload_checked:
  "\<lbrakk>crVariant r = StreamingUnsignedTrailer; \<not> crEof r; crBuf r = []; snd (payload pm r) = IoEOF\<rbrakk> \<Longrightarrow>
    crDecoded r + int (length (fst (payload pm r))) = crDecodedTarget r \<and> crChecksumInitErr r = None \<and>
    (\<exists>pre trailer headers src. fst (crSrc r) = pre @ trailer \<and>
      trailer_lines pm (trailer, snd (crSrc r)) [] [] 0 = Inr ((headers, []), src) \<and>
      (\<forall>name \<in> set (crTrailerNames r). \<exists>h \<in> set headers. tkName h = name) \<and>
      (checksums_match pm headers (crTrailerChecksums r) (fst (payload pm r))))"
proof (induction pm r rule: payload.induct)
  case (1 pm r)
  obtain r' where Inr: "advance pm r = Inr r'" using 1(3,5) by (cases "advance pm r") (simp_all add: payload.simps [of pm r])
  note step = payload_step [OF 1(3) Inr]
  from advance_Inr [OF Inr] consider (chunk) line body sig where "takes_chunk pm r line body sig r'"
    | (final) line sig rest where "takes_end pm r line sig rest r'" by blast
  then show ?case
  proof cases
    case chunk
    let ?r = "r'\<lparr>crBuf := []\<rparr>"
    have sr: "same_request r r'" using chunk by (simp add: takes_chunk_def)
    have req: "crVariant r' = StreamingUnsignedTrailer" "crDecodedTarget r' = crDecodedTarget r"
      "crTrailerNames r' = crTrailerNames r" "crChecksumInitErr r' = crChecksumInitErr r"
      using sr 1(2) by (simp_all add: same_request_def)
    have c: "fst (crSrc r) = line @ CRLF @ body @ CRLF @ fst (crSrc r')" "crBuf r' = body" "\<not> crEof r'"
      "snd (crSrc r') = snd (crSrc r)" "crDecoded r' = crDecoded r + int (length body)"
      "crTrailerChecksums r' = map (\<lambda>(name, written). (name, written @ body)) (crTrailerChecksums r)"
      using chunk 1(2,3) by (simp_all add: takes_chunk_def)
    have "snd (payload pm ?r) = IoEOF" using 1(5) step by simp
    then have IH: "crDecoded ?r + int (length (fst (payload pm ?r))) = crDecodedTarget ?r \<and> crChecksumInitErr ?r = None \<and>
      (\<exists>pre trailer headers src. fst (crSrc ?r) = pre @ trailer \<and>
        trailer_lines pm (trailer, snd (crSrc ?r)) [] [] 0 = Inr ((headers, []), src) \<and>
        (\<forall>name \<in> set (crTrailerNames ?r). \<exists>h \<in> set headers. tkName h = name) \<and>
        (checksums_match pm headers (crTrailerChecksums ?r) (fst (payload pm ?r))))"
      using 1(1) [OF 1(3) Inr] c(3) req(1) by simp
    have chk: "checksums_match pm headers (crTrailerChecksums ?r) (fst (payload pm ?r)) \<longleftrightarrow>
      checksums_match pm headers (crTrailerChecksums r) (fst (payload pm r))" for headers
      by (simp add: c(2,6) step checksums_match_write)
    have "\<exists>pre trailer headers src. fst (crSrc r') = pre @ trailer \<and>
        trailer_lines pm (trailer, snd (crSrc r)) [] [] 0 = Inr ((headers, []), src) \<and>
        (\<forall>name \<in> set (crTrailerNames r). \<exists>h \<in> set headers. tkName h = name) \<and>
        (checksums_match pm headers (crTrailerChecksums r) (fst (payload pm r)))"
      using IH unfolding chk by (simp add: c(4) req(3))
    then obtain pre trailer headers src where w: "fst (crSrc r') = pre @ trailer"
      "trailer_lines pm (trailer, snd (crSrc r)) [] [] 0 = Inr ((headers, []), src)"
      "\<forall>name \<in> set (crTrailerNames r). \<exists>h \<in> set headers. tkName h = name"
      "checksums_match pm headers (crTrailerChecksums r) (fst (payload pm r))"
      by blast
    have "fst (crSrc r) = (line @ CRLF @ body @ CRLF @ pre) @ trailer" using c(1) w(1) by simp
    moreover have "crDecoded r + int (length (fst (payload pm r))) = crDecodedTarget r" "crChecksumInitErr r = None"
      using IH c(2,5) req step by simp_all
    ultimately show ?thesis using w(2-) by blast
  next
    case final
    let ?r = "r\<lparr>crSrc := (rest, snd (crSrc r))\<rparr>"
    have f: "finalize pm ?r sig = Inr r'" and w: "fst (crSrc r) = (line @ CRLF) @ rest"
      using final by (simp_all add: takes_end_def)
    have p: "payload pm r = ([], IoEOF)"
      using finalize_Inr(1,3) [OF f] 1(4) step by (simp add: payload_eof closes_def)
    have dec: "crDecoded r = crDecodedTarget r" using finalize_Inr(2) [OF f] by simp
    have "crVariant ?r = StreamingUnsignedTrailer" using 1(2) by simp
    from finalizeUnsigned_checked [OF f this] obtain headers src where
      "crChecksumInitErr r = None" "trailer_lines pm (rest, snd (crSrc r)) [] [] 0 = Inr ((headers, []), src)"
      "\<forall>name \<in> set (crTrailerNames r). \<exists>h \<in> set headers. tkName h = name"
      "checksums_match pm headers (crTrailerChecksums r) []" by auto
    with w dec show ?thesis unfolding p fst_conv
      by (intro conjI exI [of _ "line @ CRLF"] exI [of _ rest] exI [of _ headers] exI [of _ src]) simp_all
  qed
qed

text \<open>C18. With an unsigned trailer the reader reports the end of the body only when every checksum the request declared
  is the checksum of exactly the bytes it yielded, as the trailer block at the end of the body gives it, and their number
  is the declared one. Declared names that are no checksum never reach the end.\<close>

theorem unsigned_trailer_checked:
  assumes "smVariant mat = StreamingUnsignedTrailer" "list_all ((<) 0) ns"
    and "reads (chunkReader_Read pm) ns (NewChunkReader pm body mat) = (out, Some IoEOF)"
  shows "int (length out) = smDecodedLen mat \<and>
    (\<exists>pre trailer headers src. fst body = pre @ trailer \<and> trailer_lines pm (trailer, snd body) [] [] 0 = Inr ((headers, []), src) \<and>
      (\<forall>name \<in> set (smTrailerNames mat). \<exists>hash. map_of (checksumHashes pm) name = Some hash \<and>
         trailer_value headers name = Some (base64_EncodeToString (hash out))))"
proof -
  define r where "r = NewChunkReader pm body mat"
  have r: "crVariant r = StreamingUnsignedTrailer" "\<not> crEof r" "crBuf r = []" "crDecoded r = 0"
    "crDecodedTarget r = smDecodedLen mat" "crSrc r = body" "crErr r = None" "crTrailerNames r = smTrailerNames mat"
    by (simp_all add: r_def NewChunkReader_def Let_def assms(1))
  have "chunk_denotes pm r = payload pm r" by (simp add: denotes_fresh r)
  then have out: "fst (payload pm r) = out" "snd (payload pm r) = IoEOF"
    using chunked.reads_prefix [OF TrueI assms(2) assms(3) [folded r_def]] by auto
  have p: "int (length out) = smDecodedLen mat" "crChecksumInitErr r = None"
    using payload_checked [of r pm] r out by simp_all
  obtain pre trailer headers src where w: "fst body = pre @ trailer"
    "trailer_lines pm (trailer, snd body) [] [] 0 = Inr ((headers, []), src)"
    "\<forall>name \<in> set (smTrailerNames mat). \<exists>h \<in> set headers. tkName h = name"
    "checksums_match pm headers (crTrailerChecksums r) out"
    using payload_checked [of r pm] r out by auto
  have cs: "newTrailerChecksums pm (smTrailerNames mat) = Inr (crTrailerChecksums r)"
    using p(2) by (auto simp: r_def NewChunkReader_def Let_def assms(1) split: sum.splits)
  have "\<exists>hash. map_of (checksumHashes pm) name = Some hash \<and> trailer_value headers name = Some (base64_EncodeToString (hash out))"
    if name: "name \<in> set (smTrailerNames mat)" for name
  proof -
    obtain hash where hash: "map_of (checksumHashes pm) name = Some hash" "(name, []) \<in> set (crTrailerChecksums r)"
      using newTrailerChecksums_Inr [OF cs] name by auto
    have "trailer_value headers name \<noteq> None"
      using w(3) name by (auto simp: trailer_value_def map_of_eq_None_iff image_iff)
    moreover have "base64_EncodeToString (hash out) = (case trailer_value headers name of None \<Rightarrow> [] | Some v \<Rightarrow> v)"
      using w(4) hash unfolding checksums_match_def by fastforce
    ultimately show ?thesis using hash(1) by auto
  qed
  then show ?thesis using p(1) w(1,2) by blast
qed

subsection \<open>What a client sends\<close>

text \<open>The encoding of a signed upload: the size of a chunk in hexadecimal and its signature, the bytes, and the empty
  chunk at the end.\<close>

definition signed_line :: "nat \<Rightarrow> string \<Rightarrow> string" where
  "signed_line n sig = hex_digits n @ '';chunk-signature='' @ sig"

fun encode_signed :: "(string \<Rightarrow> bytes \<Rightarrow> string) \<Rightarrow> string \<Rightarrow> bytes list \<Rightarrow> bytes" where
  "encode_signed sign prev [] = signed_line 0 (sign prev []) @ CRLF @ CRLF"
| "encode_signed sign prev (body # bodies) =
    signed_line (length body) (sign prev body) @ CRLF @ body @ CRLF @ encode_signed sign (sign prev body) bodies"

lemma Cut_char: "c \<notin> set s \<Longrightarrow> strings_Cut [c] (s @ c # t) = Some (s, t)"
  by (induction s) auto

lemma hex_no: "list_all isHexByte s \<Longrightarrow> CHR '';'' \<notin> set s \<and> no_line_end s"
  by (auto simp: list_all_iff no_line_end_def isHexByte_def hex_value_def byte_def)

lemma parse_signed_line:
  assumes "signed_variant v" "n < 2 ^ 63" "length sig = 64" "list_all isHexByte sig"
  shows "parseChunkHeader v (signed_line n sig) = Inr (int n, sig)"
proof -
  have hex: "list_all isHexByte (hex_digits n)" "hex_digits n \<noteq> []" using hex_digits_value by blast+
  have "strings_Cut '';'' (signed_line n sig) = Some (hex_digits n, ''chunk-signature='' @ sig)"
    using Cut_char [of "CHR '';''" "hex_digits n"] hex_no [OF hex(1)] by (simp add: signed_line_def)
  moreover have "sig \<noteq> []" using assms(3) by auto
  ultimately show ?thesis
    using assms TrimSpace_hex [OF hex(2,1)] ParseHex_digits [OF assms(2)]
    by (auto simp: parseChunkHeader_def isHex_def signed_variant_def Let_def)
qed

lemma hex_digits_length: "n < 16 ^ k \<Longrightarrow> 0 < k \<Longrightarrow> length (hex_digits n) \<le> k"
proof (induction k arbitrary: n)
  case (Suc k)
  show ?case
  proof (cases "n < 16")
    case False
    then have "n div 16 < 16 ^ k" "0 < k" using Suc.prems by (auto simp: less_mult_imp_div_less intro: gr0I)
    with Suc.IH False show ?thesis by (simp add: hex_digits.simps [of n])
  qed (simp add: hex_digits.simps [of n])
qed simp

lemma signed_line_short:
  assumes "n \<le> nat MaxChunkBytes" "length sig = 64" "list_all isHexByte sig"
  shows "no_line_end (signed_line n sig)" "length (signed_line n sig) \<le> maxHeaderLineBytes"
proof -
  have "length (hex_digits n) \<le> 7" using hex_digits_length [of n 7] assms(1) by (simp add: MaxChunkBytes_def)
  then show "length (signed_line n sig) \<le> maxHeaderLineBytes" using assms(2) by (simp add: signed_line_def maxHeaderLineBytes_def)
  have "no_line_end (hex_digits n)" "no_line_end sig" using hex_no hex_digits_value assms(3) by blast+
  then show "no_line_end (signed_line n sig)" by (auto simp: signed_line_def no_line_end_def)
qed

lemma advance_signed_chunk:
  assumes v: "crVariant r = StreamingSigned" and src: "fst (crSrc r) = signed_line (length body) sig @ CRLF @ body @ CRLF @ rest"
    and b: "body \<noteq> []" "int (length body) \<le> MaxChunkBytes" "crDecoded r + int (length body) \<le> crDecodedTarget r"
    and sig: "sig = chunk_signature pm r (crPrevSig r) body" "length sig = 64" "list_all isHexByte sig"
  shows "advance pm r = Inr (r\<lparr>crSrc := (rest, snd (crSrc r)), crPrevSig := sig, crBuf := body,
    crDecoded := crDecoded r + int (length body)\<rparr>)"
proof -
  let ?r1 = "r\<lparr>crSrc := (body @ CRLF @ rest, snd (crSrc r))\<rparr>"
  have n: "length body \<le> nat MaxChunkBytes" using b(2) by simp
  then have "length body < 2 ^ 63" by (simp add: MaxChunkBytes_def)
  then have "parseChunkHeader (crVariant r) (signed_line (length body) sig) = Inr (int (length body), sig)"
    using parse_signed_line sig(2,3) v by (simp add: signed_variant_def)
  then have h: "readChunkHeader r = Inr ((int (length body), sig), ?r1)"
    unfolding readChunkHeader_iff using src signed_line_short [OF n sig(2,3)] by blast
  have body: "io_ReadFull (crSrc ?r1) (length body) = ((body, None), (CRLF @ rest, snd (crSrc r)))"
    by (simp add: io_ReadFull_some)
  have crlf: "expectCRLF (?r1\<lparr>crSrc := (CRLF @ rest, snd (crSrc r))\<rparr>) = Inr (r\<lparr>crSrc := (rest, snd (crSrc r))\<rparr>)"
    by (simp add: expectCRLF_iff)
  have "verifyChunk pm (r\<lparr>crSrc := (rest, snd (crSrc r))\<rparr>) body sig = Inr (r\<lparr>crSrc := (rest, snd (crSrc r)), crPrevSig := sig\<rparr>)"
    unfolding verifyChunk_iff using sig(1) by (simp add: chunk_signature_def)
  with h body crlf b v show ?thesis by (simp add: advance_def)
qed

lemma advance_signed_end:
  assumes v: "crVariant r = StreamingSigned" and src: "fst (crSrc r) = signed_line 0 sig @ CRLF @ CRLF"
    and b: "crDecoded r = crDecodedTarget r"
    and sig: "sig = chunk_signature pm r (crPrevSig r) []" "length sig = 64" "list_all isHexByte sig"
  shows "advance pm r = Inr (r\<lparr>crSrc := ([], snd (crSrc r)), crPrevSig := sig, crEof := True\<rparr>)"
proof -
  let ?r1 = "r\<lparr>crSrc := (CRLF, snd (crSrc r))\<rparr>"
  have "parseChunkHeader (crVariant r) (signed_line 0 sig) = Inr (0, sig)"
    using parse_signed_line [of _ 0] sig(2,3) v by (simp add: signed_variant_def)
  then have h: "readChunkHeader r = Inr ((0, sig), ?r1)"
    unfolding readChunkHeader_iff using src signed_line_short [of 0, OF _ sig(2,3)] by auto
  have "verifyChunk pm ?r1 [] sig = Inr (?r1\<lparr>crPrevSig := sig\<rparr>)"
    unfolding verifyChunk_iff using sig(1) by (simp add: chunk_signature_def)
  moreover have "expectCRLF (?r1\<lparr>crPrevSig := sig\<rparr>) = Inr (r\<lparr>crSrc := ([], snd (crSrc r)), crPrevSig := sig\<rparr>)"
    by (simp add: expectCRLF_iff)
  ultimately show ?thesis using h v b by (simp add: advance_def finalize_def finalizeSigned_def)
qed

lemma signature_form:
  assumes "\<forall>bs. length (pmSHA256 pm bs) = 32"
  shows "length (chunk_signature pm r prev body) = 64" "list_all isHexByte (chunk_signature pm r prev body)"
  using length_hmacSHA256 [OF assms] hex_EncodeToString_props by (simp_all add: chunk_signature_def link_signature_def)

lemma payload_encoded:
  "\<lbrakk>\<forall>bs. length (pmSHA256 pm bs) = 32; crVariant r = StreamingSigned; \<not> crEof r; crBuf r = [];
    \<forall>body \<in> set bodies. body \<noteq> [] \<and> int (length body) \<le> MaxChunkBytes;
    fst (crSrc r) = encode_signed (chunk_signature pm r) (crPrevSig r) bodies;
    crDecodedTarget r = crDecoded r + int (length (concat bodies))\<rbrakk> \<Longrightarrow>
   payload pm r = (concat bodies, IoEOF)"
proof (induction bodies arbitrary: r)
  case Nil
  then have "advance pm r = Inr (r\<lparr>crSrc := ([], snd (crSrc r)), crPrevSig := chunk_signature pm r (crPrevSig r) [], crEof := True\<rparr>)"
    by (intro advance_signed_end) (simp_all add: signature_form)
  from payload_step [OF Nil.prems(3) this] Nil.prems(4) show ?case by (simp add: payload_eof)
next
  case (Cons body bodies)
  let ?sig = "chunk_signature pm r (crPrevSig r) body"
  let ?r = "r\<lparr>crSrc := (encode_signed (chunk_signature pm r) ?sig bodies, snd (crSrc r)), crPrevSig := ?sig,
    crDecoded := crDecoded r + int (length body), crBuf := []\<rparr>"
  have a: "advance pm r = Inr (?r\<lparr>crBuf := body\<rparr>)"
    using advance_signed_chunk [of r body ?sig _ pm] Cons.prems by (simp add: signature_form)
  have "chunk_signature pm ?r = chunk_signature pm r" by (simp add: chunk_signature_def fun_eq_iff)
  then have "payload pm ?r = (concat bodies, IoEOF)" using Cons.IH [of ?r] Cons.prems by simp
  with payload_step [OF Cons.prems(3) a] show ?case by simp
qed

lemma encoded_denotes:
  assumes "\<forall>bs. length (pmSHA256 pm bs) = 32" "smVariant mat = StreamingSigned"
    and "\<forall>body \<in> set bodies. body \<noteq> [] \<and> int (length body) \<le> MaxChunkBytes"
    and "smDecodedLen mat = int (length (concat bodies))"
  shows "chunk_denotes pm (NewChunkReader pm (encode_signed (request_signature pm mat) (smSeedSig mat) bodies, e) mat) = (concat bodies, IoEOF)"
proof -
  define r where "r = NewChunkReader pm (encode_signed (request_signature pm mat) (smSeedSig mat) bodies, e) mat"
  have r: "crVariant r = StreamingSigned" "\<not> crEof r" "crBuf r = []" "crDecoded r = 0" "crErr r = None"
    "crDecodedTarget r = int (length (concat bodies))" "crPrevSig r = smSeedSig mat"
    "fst (crSrc r) = encode_signed (chunk_signature pm r) (smSeedSig mat) bodies"
    unfolding r_def new_reader_signature by (simp_all add: NewChunkReader_def Let_def assms(2,4))
  have "payload pm r = (concat bodies, IoEOF)"
    by (rule payload_encoded [OF assms(1) r(1-3) assms(3)]) (simp_all add: r)
  then have "chunk_denotes pm r = (concat bodies, IoEOF)" by (simp add: denotes_fresh r)
  then show ?thesis by (simp add: r_def)
qed

text \<open>C17. What a client sends is what is stored: data cut into chunks and encoded with the chain of signatures decodes to
  that data and then the end of the body, whatever the sizes of the reads.\<close>

theorem signed_upload_decodes:
  assumes "\<forall>bs. length (pmSHA256 pm bs) = 32" "smVariant mat = StreamingSigned"
    and "\<forall>body \<in> set bodies. body \<noteq> [] \<and> int (length body) \<le> MaxChunkBytes"
    and "smDecodedLen mat = int (length (concat bodies))"
    and "body = (encode_signed (request_signature pm mat) (smSeedSig mat) bodies, e)"
    and "list_all ((<) 0) ns" "length (concat bodies) < length ns"
  shows "reads (chunkReader_Read pm) ns (NewChunkReader pm body mat) = (concat bodies, Some IoEOF)"
  using chunked.reads_all [of ns pm "NewChunkReader pm body mat"] encoded_denotes [OF assms(1-4), of e] assms(5-7) by simp

subsection \<open>Samples\<close>

definition toyPrimitives :: Primitives where
  "toyPrimitives =
    \<lparr>pmSHA256 = (\<lambda>bs. take 32 (bs @ replicate 32 CHR ''s'')),
     pmCRC32 = (\<lambda>bs. [unbyte (length bs mod 256)]), pmCRC32C = id, pmCRC64NVME = id, pmSHA1 = id, pmLowerRune = id,
     pmSortTrailers = sort_key tkName\<rparr>"

definition sample_material :: StreamingMaterial where
  "sample_material =
    \<lparr>smVariant = StreamingSigned, smSeedSig = ''seed'', smSigningKey = ''key'', smCredScope = ''scope'', smAmzDate = ''date'',
     smDecodedLen = 4, smTrailerNames = []\<rparr>"

definition sample_body :: stream where
  "sample_body = (encode_signed (request_signature toyPrimitives sample_material) ''seed'' [''da'', ''ta''], IoEOF)"

lemma sample_hash: "\<forall>bs. length (pmSHA256 toyPrimitives bs) = 32"
  by (auto simp: toyPrimitives_def min_def)

theorem signed_upload_decodes_witness:
  "reads (chunkReader_Read toyPrimitives) [1, 2, 3, 4, 5] (NewChunkReader toyPrimitives sample_body sample_material) =
    (''data'', Some IoEOF)"
  using signed_upload_decodes [OF sample_hash, of sample_material "[''da'', ''ta'']" sample_body IoEOF "[1, 2, 3, 4, 5]"]
  by (simp add: sample_material_def sample_body_def MaxChunkBytes_def)

theorem only_signed_bytes_read_witness:
  "\<exists>cs rest. fst sample_body = concat (map wire cs) @ rest \<and>
    signed_chain (request_signature toyPrimitives sample_material) StreamingSigned ''seed'' cs \<and> chunk_bodies cs = ''data''"
proof -
  have "chunk_denotes toyPrimitives (NewChunkReader toyPrimitives sample_body sample_material) = (''data'', IoEOF)"
    using encoded_denotes [OF sample_hash, of sample_material "[''da'', ''ta'']" IoEOF]
    by (simp add: sample_material_def sample_body_def MaxChunkBytes_def)
  then have "reads (chunkReader_Read toyPrimitives) [1, 2, 3, 4, 5] (NewChunkReader toyPrimitives sample_body sample_material) =
    (''data'', Some IoEOF)"
    using chunked.reads_all [of "[1, 2, 3, 4, 5]" toyPrimitives "NewChunkReader toyPrimitives sample_body sample_material"] by simp
  from only_signed_bytes_read [OF _ _ _ this refl] show ?thesis
    by (auto simp: sample_material_def signed_variant_def)
qed

definition sample_trailer_material :: StreamingMaterial where
  "sample_trailer_material = sample_material\<lparr>smVariant := StreamingUnsignedTrailer, smTrailerNames := [''x-amz-checksum-crc32'']\<rparr>"

definition sample_trailer_body :: stream where
  "sample_trailer_body =
    (''4'' @ CRLF @ ''data'' @ CRLF @ ''0'' @ CRLF @ ''x-amz-checksum-crc32:BA=='' @ CRLF @ CRLF, IoEOF)"

text \<open>The steps of the reader on the sample.\<close>

lemma parse_unsigned_line:
  assumes "n < 2 ^ 63"
  shows "parseChunkHeader StreamingUnsignedTrailer (hex_digits n) = Inr (int n, [])"
proof -
  have hex: "list_all isHexByte (hex_digits n)" "hex_digits n \<noteq> []" using hex_digits_value by blast+
  have "c \<notin> set s \<Longrightarrow> strings_Cut [c] s = None" for c :: char and s by (induction s) auto
  then have "strings_Cut '';'' (hex_digits n) = None" using hex_no [OF hex(1)] by blast
  then show ?thesis using TrimSpace_hex [OF hex(2,1)] ParseHex_digits [OF assms] by (simp add: parseChunkHeader_def)
qed

lemma sample_trailer_lines:
  "trailer_lines toyPrimitives (''x-amz-checksum-crc32:BA=='' @ CRLF @ CRLF, IoEOF) [] [] 0 =
    Inr (([\<lparr>tkName = ''x-amz-checksum-crc32'', tkValue = ''BA==''\<rparr>], []), ([], IoEOF))"
proof -
  let ?l = "''x-amz-checksum-crc32:BA==''"
  have 1: "readBoundedLine (?l @ CRLF @ CRLF, IoEOF) maxHeaderLineBytes = Inr (?l, (CRLF, IoEOF))"
    by (simp add: readBoundedLine_iff no_line_end_def maxHeaderLineBytes_def)
  have 2: "readBoundedLine (CRLF, IoEOF) maxHeaderLineBytes = Inr ([], ([], IoEOF))"
    by (simp add: readBoundedLine_iff no_line_end_def maxHeaderLineBytes_def)
  have "splitTrailerLine toyPrimitives ?l = Some (''x-amz-checksum-crc32'', ''BA=='')"
    by (simp add: splitTrailerLine_def TrimSpace_visible visible_def byte_def ToLower_id)
  then have "appendTrailerLine toyPrimitives ?l [] [] = Some ([\<lparr>tkName = ''x-amz-checksum-crc32'', tkValue = ''BA==''\<rparr>], [])"
    by (simp add: appendTrailerLine_def trailerSignatureHeader_def maxTrailerHeaders_def)
  with 1 2 show ?thesis
    by (subst trailer_lines.simps, subst trailer_lines.simps) (simp add: maxTrailerBlockBytes_def)
qed

lemma sample_trailer_payload:
  "payload toyPrimitives (NewChunkReader toyPrimitives sample_trailer_body sample_trailer_material) = (''data'', IoEOF)"
proof -
  let ?r = "NewChunkReader toyPrimitives sample_trailer_body sample_trailer_material"
  let ?t = "''x-amz-checksum-crc32:BA=='' @ CRLF @ CRLF"
  define r0 where "r0 = ?r"
  have b64: "base64_EncodeToString [unbyte 4] = ''BA==''" by code_simp
  have hex: "hex_digits 4 = ''4''" "hex_digits 0 = ''0''"
    by (simp_all add: hex_digits.simps) code_simp+
  have r0: "crVariant r0 = StreamingUnsignedTrailer" "crSrc r0 = (''4'' @ CRLF @ ''data'' @ CRLF @ ''0'' @ CRLF @ ?t, IoEOF)"
    "crDecoded r0 = 0" "crDecodedTarget r0 = 4" "crChecksumInitErr r0 = None" "\<not> crEof r0"
    "crTrailerChecksums r0 = [(''x-amz-checksum-crc32'', [])]" "crTrailerNames r0 = [''x-amz-checksum-crc32'']"
    by (simp_all add: r0_def NewChunkReader_def sample_trailer_material_def sample_material_def sample_trailer_body_def
        checksumHashes_def Let_def)
  define r1 where "r1 = r0\<lparr>crSrc := (''0'' @ CRLF @ ?t, IoEOF), crBuf := ''data'', crDecoded := 4,
    crTrailerChecksums := [(''x-amz-checksum-crc32'', ''data'')]\<rparr>"
  have "readChunkHeader r0 = Inr ((4, []), r0\<lparr>crSrc := (''data'' @ CRLF @ ''0'' @ CRLF @ ?t, IoEOF)\<rparr>)"
    unfolding readChunkHeader_iff using parse_unsigned_line [of 4] r0(1,2)
    by (intro exI [of _ "''4''"] exI [of _ "''data'' @ CRLF @ ''0'' @ CRLF @ ?t"])
      (simp add: hex no_line_end_def maxHeaderLineBytes_def)
  moreover have "io_ReadFull (''data'' @ CRLF @ ''0'' @ CRLF @ ?t, IoEOF) 4 = ((''data'', None), (CRLF @ ''0'' @ CRLF @ ?t, IoEOF))"
    by (simp add: io_ReadFull_some)
  moreover have "expectCRLF (r0\<lparr>crSrc := (CRLF @ ''0'' @ CRLF @ ?t, IoEOF)\<rparr>) = Inr (r0\<lparr>crSrc := (''0'' @ CRLF @ ?t, IoEOF)\<rparr>)"
    by (simp add: expectCRLF_iff)
  ultimately have a1: "advance toyPrimitives r0 = Inr r1"
    using r0 by (simp add: advance_def r1_def MaxChunkBytes_def write_checksums_def)
  define r2 where "r2 = r1\<lparr>crBuf := []\<rparr>"
  have "readChunkHeader r2 = Inr ((0, []), r2\<lparr>crSrc := (?t, IoEOF)\<rparr>)"
    unfolding readChunkHeader_iff using parse_unsigned_line [of 0] r0(1)
    by (intro exI [of _ "''0''"] exI [of _ ?t]) (simp add: hex no_line_end_def maxHeaderLineBytes_def r2_def r1_def)
  moreover have "readTrailerBlock toyPrimitives (r2\<lparr>crSrc := (?t, IoEOF)\<rparr>) False =
    Inr (([\<lparr>tkName = ''x-amz-checksum-crc32'', tkValue = ''BA==''\<rparr>], []), r2\<lparr>crSrc := ([], IoEOF)\<rparr>)"
    using sample_trailer_lines r0(8)
    by (simp add: readTrailerBlock_def parseTrailerLines_def missingDeclaredTrailers_def r2_def r1_def)
  moreover have "verifyUnsignedTrailerChecksums toyPrimitives (r2\<lparr>crSrc := ([], IoEOF)\<rparr>)
    [\<lparr>tkName = ''x-amz-checksum-crc32'', tkValue = ''BA==''\<rparr>] = None"
    by (simp add: verifyUnsignedTrailerChecksums_def r2_def r1_def checksumHashes_def toyPrimitives_def
        b64 del: base64_EncodeToString.simps)
  ultimately have a2: "advance toyPrimitives r2 = Inr (r2\<lparr>crSrc := ([], IoEOF), crEof := True\<rparr>)"
    using r0 by (simp add: advance_def finalize_def finalizeUnsignedTrailer_def r2_def r1_def)
  have "payload toyPrimitives r2 = ([], IoEOF)"
    using payload_step [OF _ a2] r0(6) by (simp add: r2_def r1_def payload_eof)
  then show ?thesis using payload_step [OF r0(6) a1] by (simp add: r1_def r2_def flip: r0_def)
qed

theorem unsigned_trailer_checked_witness:
  "\<exists>pre trailer headers src. fst sample_trailer_body = pre @ trailer \<and>
    trailer_lines toyPrimitives (trailer, IoEOF) [] [] 0 = Inr ((headers, []), src) \<and>
    trailer_value headers ''x-amz-checksum-crc32'' = Some (base64_EncodeToString (pmCRC32 toyPrimitives ''data''))"
proof -
  let ?r = "NewChunkReader toyPrimitives sample_trailer_body sample_trailer_material"
  have "crErr ?r = None" "crBuf ?r = []" by (simp_all add: NewChunkReader_def Let_def)
  then have "chunk_denotes toyPrimitives ?r = (''data'', IoEOF)" by (simp add: denotes_fresh sample_trailer_payload)
  then have "reads (chunkReader_Read toyPrimitives) [3, 3, 3, 3, 3] ?r = (''data'', Some IoEOF)"
    using chunked.reads_all [of "[3, 3, 3, 3, 3]" toyPrimitives ?r] by simp
  from unsigned_trailer_checked [OF _ _ this] show ?thesis
    by (auto simp: sample_trailer_material_def sample_trailer_body_def checksumHashes_def)
qed

end
