(* ===== verification/Spec2Isabelle.thy ===== *)
theory Spec2Isabelle
  imports StoreProps Uploads Settler BackendStates Quota Listing StoredForms Breaker Cache ChunkReaderProps
begin

text \<open>
  A verification development of the object ledger of \<open>s3-orchestrator\<close>.
\<close>

section \<open>The whole database as a state machine\<close>

text \<open>
  Everything that writes to the SQLite database, one rule per operation: the store's transactions,
  the cleanup queue, the backend states, the quota rows and the multipart uploads, each at its own
  time and from any instance.
\<close>

inductive db_step :: "db \<Rightarrow> db \<Rightarrow> bool" where
  store: "opsAdapter r = sqlite_adapter now inst \<Longrightarrow> db_step d (perform now r op d)"
| patch: "sqlite_UpdateCopyMetadata now loc p d = Inr ((), d') \<Longrightarrow> db_step d d'"
| forget: "sqlite_DeletePending i d = Inr ((), d') \<Longrightarrow> db_step d d'"
| claim: "db_step d (snd (ClaimPendingCleanups now n inst cutoff d))"
| complete: "db_step d (snd (CompleteCleanupItems items d))"
| retry: "db_step d (snd (RetryCleanupItem now item delay msg d))"
| bury: "db_step d (snd (MoveCleanupToDLQ now item msg d))"
| requeue: "db_step d (snd (RequeueCleanupDLQ now b d))"
| sweep: "db_step d (snd (SweepStaleCleanupQueueRows path b d))"
| cordon: "db_step d (snd (SetBackendFlag now b FlagCordoned d))"
| uncordon: "db_step d (snd (ClearBackendFlags b FlagCordoned d))"
| start_drain: "db_step d (snd (StartDrain now b d))"
| cancel_drain: "db_step d (snd (ClearBackendFlags b DrainFlags d))"
| drained: "db_step d (AddDrainedObjects b n d)"
| drain_failed: "db_step d (MarkDrainFailed now b msg d)"
| drain_done: "db_step d (snd (CompleteDrain now b d))"
| forget_state: "db_step d (snd (ClearBackendState b d))"
| remove: "db_step d (DeleteBackendData b d)"
| limits: "db_step d (SyncQuotaLimits backends d)"
| reconcile: "ReconcileUsage d = Inr (applied, d') \<Longrightarrow> db_step d d'"
| upload: "db_step d (snd (CreateMultipartUpload now params d))"
| begin_mark: "db_step d (snd (BeginMultipartCompletion now u stale d))"
| renew_mark: "db_step d (snd (RenewMultipartCompletion now u d))"
| end_mark: "db_step d (EndMultipartCompletion u d)"

inductive reachable :: "db \<Rightarrow> bool" where
  fresh: "reachable empty_db"
| step: "\<lbrakk>reachable d; db_step d d'\<rbrakk> \<Longrightarrow> reachable d'"

subsection \<open>The counters are exact in every reachable database\<close>

definition exact :: "ledger \<Rightarrow> bool" where
  "exact L \<longleftrightarrow> (\<forall>b. drift L b = 0) \<and> (\<forall>bi. stripe_drift L bi = 0)"

lemma exact_same_drift: "\<lbrakk>same_drift L L'; exact L\<rbrakk> \<Longrightarrow> exact L'"
  by (simp add: exact_def same_drift_def)

lemma exact_rows:
  "\<lbrakk>exact (ledger_of d); mset (dbLocations d') = mset (dbLocations d); dbStripes d' = dbStripes d\<rbrakk> \<Longrightarrow> exact (ledger_of d')"
  by (rule exact_same_drift [of "ledger_of d"]) (auto intro: same_driftI)

lemma quotas_schema_ok:
  assumes "schema_ok d" "distinct (map fst q)" "fst ` set (dbQuotas d) \<subseteq> fst ` set q"
  shows "schema_ok (d\<lparr>dbQuotas := q\<rparr>)"
proof -
  have "known d b \<Longrightarrow> known (d\<lparr>dbQuotas := q\<rparr>) b" for b
    using assms(3) by (auto simp: known_def)
  with assms(1,2) show ?thesis by (simp add: schema_ok_def)
qed

lemma SyncQuotaLimits_ok: "schema_ok d \<Longrightarrow> schema_ok (SyncQuotaLimits backends d)"
proof -
  assume ok: "schema_ok d"
  have "distinct (map fst q) \<Longrightarrow>
      distinct (map fst (foldl (\<lambda>q b. AList.update (bcName b) (bcQuotaBytes b) q) q bs)) \<and>
      fst ` set q \<subseteq> fst ` set (foldl (\<lambda>q b. AList.update (bcName b) (bcQuotaBytes b) q) q bs)"
    for q and bs :: "BackendConfig list"
  proof (induction bs arbitrary: q)
    case (Cons b bs)
    have "distinct (map fst (AList.update (bcName b) (bcQuotaBytes b) q))"
      using Cons.prems by (rule distinct_update)
    from Cons.IH [OF this] show ?case by (auto simp: dom_update)
  qed simp
  moreover have "distinct (map fst (dbQuotas d))"
    using ok by (simp add: schema_ok_def)
  ultimately show ?thesis
    unfolding SyncQuotaLimits_def using ok by (intro quotas_schema_ok) simp_all
qed

lemma reconcile_exact:
  assumes "exact (ledger_of d)" "ReconcileUsage d = Inr (applied, d')"
  shows "d' = d"
proof -
  have "sum_where (\<lambda>loc. locBackendName loc = b) locSizeBytes (dbLocations d) =
      sum_where (\<lambda>e. fst (fst e) = b) snd (dbStripes d)" for b
    using assms(1) by (simp add: exact_def drift_def bytes_on_def)
  then have "usage_drift d = []"
    by (auto simp: usage_drift_def filter_empty_conv)
  with assms(2) show ?thesis
    by (simp add: ReconcileUsage_def sqlite_AdjustQuotaStripes_def tx_bind_Inr)
qed

lemma removed_exact: "exact (ledger_of d) \<Longrightarrow> exact (ledger_of (DeleteBackendData b d))"
proof -
  assume e: "exact (ledger_of d)"
  have "sum_where (\<lambda>e. fst (fst e) = x) snd (filter (\<lambda>e. fst (fst e) \<noteq> b) ss) =
      (if x = b then 0 else sum_where (\<lambda>e. fst (fst e) = x) snd ss)" for x and ss :: "((string \<times> nat) \<times> int) list"
    by (induction ss) auto
  moreover have "alookup 0 (filter (\<lambda>e. fst (fst e) \<noteq> b) ss) bi = (if fst bi = b then 0 else alookup 0 ss bi)"
    for bi and ss :: "((string \<times> nat) \<times> int) list"
    by (induction ss) (auto simp: alookup_def)
  moreover have "bytes_on x (filter_mset (\<lambda>l. locBackendName l \<noteq> b) M) = (if x = b then 0 else bytes_on x M)" for x M
    by (induction M) auto
  moreover have "stripe_bytes bi (filter_mset (\<lambda>l. locBackendName l \<noteq> b) M) = (if fst bi = b then 0 else stripe_bytes bi M)" for bi M
    by (induction M) auto
  ultimately show ?thesis
    using e by (simp add: exact_def drift_def stripe_drift_def)
qed

lemma patched_keys [simp]:
  "locObjectKey (patched now p l) = locObjectKey l" "locBackendName (patched now p l) = locBackendName l"
  "locSizeBytes (patched now p l) = locSizeBytes l"
  by (simp_all add: patched_def Let_def split: option.splits)

lemma patch_exact:
  "exact (ledger_of d) \<Longrightarrow> exact (ledger_of (d\<lparr>dbLocations := map (\<lambda>l. if P l then patched now p l else l) (dbLocations d)\<rparr>))"
proof -
  have "bytes_on b (mset (map (\<lambda>l. if P l then patched now p l else l) ls)) = bytes_on b (mset ls)"
    "stripe_bytes bi (mset (map (\<lambda>l. if P l then patched now p l else l) ls)) = stripe_bytes bi (mset ls)" for b bi ls
    by (induction ls) auto
  then show "exact (ledger_of d) \<Longrightarrow> ?thesis"
    by (simp add: exact_def drift_def stripe_drift_def del: mset_map)
qed

lemma spec_step_config:
  assumes "spec_step now op L L'"
  shows "lgFlags L' = lgFlags L"
proof -
  have "lgFlags (snd (spec_claims now out ps ranked accepts M)) = lgFlags M" for out ps ranked accepts M
    by (induction now out ps ranked accepts M rule: spec_claims.induct) (auto simp: Let_def with_claim_def)
  with assms show ?thesis
    by (induction rule: spec_step.induct)
      (auto simp: spec_record_def spec_promote_def spec_promoted_def spec_companion_def spec_discard_def spec_drop_def
        spec_delete_def spec_delete_copy_def spec_place_commit_def spec_import_def spec_record_part_def
        spec_delete_upload_def Let_def ledger_ops with_claim_def split: PathState.splits option.splits)
qed

text \<open>Every flag set a reachable database gives a backend carries at most one stage of a drain.\<close>

definition drains_ok :: "db \<Rightarrow> bool" where
  "drains_ok d \<longleftrightarrow> (\<forall>b. drain_ok (capacity_flags d b))"

lemma drains_ok_iff:
  assumes "schema_ok d"
  shows "drains_ok d \<longleftrightarrow> states_ok d"
proof
  assume "drains_ok d"
  then show "states_ok d"
    unfolding drains_ok_def states_ok_def using state_flags [OF assms] by metis
next
  assume st: "states_ok d"
  have "drain_ok (capacity_flags d b)" for b
  proof (cases "find (\<lambda>st. stBackendName st = b) (dbStates d)")
    case None
    then show ?thesis by (simp add: capacity_flags_def drain_ok_def)
  next
    case (Some r)
    then have "r \<in> set (dbStates d)" by (auto simp: find_Some_iff)
    with Some st show ?thesis by (simp add: capacity_flags_def states_ok_def)
  qed
  then show "drains_ok d" by (simp add: drains_ok_def)
qed

definition invariant :: "db \<Rightarrow> bool" where
  "invariant d \<longleftrightarrow> schema_ok d \<and> exact (ledger_of d) \<and> states_ok d"

lemma invariant_queue:
  assumes "invariant d" "schema_ok d'" "lgCopies (ledger_of d') = lgCopies (ledger_of d)"
    "lgStripe (ledger_of d') = lgStripe (ledger_of d)" "lgUsed (ledger_of d') = lgUsed (ledger_of d)"
    "lgFlags (ledger_of d') = lgFlags (ledger_of d)"
  shows "invariant d'"
proof -
  have "same_drift (ledger_of d) (ledger_of d')"
    using assms(3,5,4) by (rule same_driftI)
  moreover have d: "schema_ok d" "exact (ledger_of d)" "states_ok d"
    using assms(1) by (simp_all only: invariant_def simp_thms)
  ultimately have e: "exact (ledger_of d')"
    by (blast intro: exact_same_drift)
  have "capacity_flags d' = capacity_flags d"
    using assms(6) by simp
  then have "states_ok d'"
    using d drains_ok_iff [OF d(1)] drains_ok_iff [OF assms(2)] by (simp only: drains_ok_def)
  with e assms(2) show ?thesis by (simp only: invariant_def simp_thms)
qed

lemma invariant_states:
  assumes "invariant d" "schema_ok d'" "states_ok d'" "dbLocations d' = dbLocations d" "dbStripes d' = dbStripes d"
  shows "invariant d'"
  using assms exact_rows [of d d'] by (simp add: invariant_def)

lemma invariant_rows:
  assumes "invariant d" "schema_ok d'" "dbLocations d' = dbLocations d" "dbStripes d' = dbStripes d" "dbStates d' = dbStates d"
  shows "invariant d'"
  using assms exact_rows [of d d'] by (simp add: invariant_def states_ok_def)

lemma invariant_uploads:
  assumes "invariant d"
  shows "invariant (snd (CreateMultipartUpload now params d))" "invariant (snd (BeginMultipartCompletion now u stale d))"
    "invariant (snd (RenewMultipartCompletion now u d))" "invariant (EndMultipartCompletion u d)"
proof -
  have ok: "schema_ok d" using assms by (simp add: invariant_def)
  show "invariant (snd (CreateMultipartUpload now params d))"
    by (rule invariant_rows [OF assms CreateMultipartUpload_ok [OF ok]]) (simp_all add: CreateMultipartUpload_def)
  show "invariant (snd (BeginMultipartCompletion now u stale d))"
    by (rule invariant_rows [OF assms completion_marks_ok(1) [OF ok]]) (simp_all add: BeginMultipartCompletion_def Let_def)
  show "invariant (snd (RenewMultipartCompletion now u d))"
    by (rule invariant_rows [OF assms completion_marks_ok(2) [OF ok]]) (simp_all add: RenewMultipartCompletion_def Let_def)
  show "invariant (EndMultipartCompletion u d)"
    by (rule invariant_rows [OF assms completion_marks_ok(3) [OF ok]]) (simp_all add: EndMultipartCompletion_def)
qed

lemma states_rows:
  "dbLocations (snd (upsert_state row P f d)) = dbLocations d" "dbStripes (snd (upsert_state row P f d)) = dbStripes d"
  "dbLocations (snd (update_states P f d)) = dbLocations d" "dbStripes (snd (update_states P f d)) = dbStripes d"
  by (simp_all add: upsert_state_def update_states_def)

lemmas state_statement_defs = SetBackendFlag_def ClearBackendFlags_def StartDrain_def AddDrainedObjects_def
  MarkDrainFailed_def CompleteDrain_def ClearBackendState_def states_rows

lemma invariant_state_statements:
  assumes "invariant d"
  shows "invariant (snd (SetBackendFlag now b FlagCordoned d))" "invariant (snd (ClearBackendFlags b FlagCordoned d))"
    "invariant (snd (StartDrain now b d))" "invariant (snd (ClearBackendFlags b DrainFlags d))"
    "invariant (AddDrainedObjects b n d)" "invariant (MarkDrainFailed now b msg d)"
    "invariant (snd (CompleteDrain now b d))" "invariant (snd (ClearBackendState b d))"
proof -
  have d: "schema_ok d" "states_ok d" using assms by (auto simp: invariant_def)
  note ok = drain_statements_ok [OF d(1)] and st = drain_statements_drain [OF d(2)]
  show "invariant (snd (SetBackendFlag now b FlagCordoned d))"
    by (rule invariant_states [OF assms ok(1) st(1)]) (simp_all add: state_statement_defs)
  show "invariant (snd (ClearBackendFlags b FlagCordoned d))"
    by (rule invariant_states [OF assms ok(2) st(2)]) (simp_all add: state_statement_defs)
  show "invariant (snd (ClearBackendFlags b DrainFlags d))"
    by (rule invariant_states [OF assms ok(2) st(3)]) (simp_all add: state_statement_defs)
  show "invariant (snd (StartDrain now b d))"
    by (rule invariant_states [OF assms ok(3) st(4)]) (simp_all add: state_statement_defs)
  show "invariant (AddDrainedObjects b n d)"
    by (rule invariant_states [OF assms ok(4) st(5)]) (simp_all add: state_statement_defs)
  show "invariant (MarkDrainFailed now b msg d)"
    by (rule invariant_states [OF assms ok(5) st(6)]) (simp_all add: state_statement_defs)
  show "invariant (snd (CompleteDrain now b d))"
    by (rule invariant_states [OF assms ok(6) st(7)]) (simp_all add: state_statement_defs)
  show "invariant (snd (ClearBackendState b d))"
    by (rule invariant_states [OF assms ok(7) st(8)]) (simp_all add: state_statement_defs)
qed

lemma store_step_invariant:
  assumes "invariant d" "opsAdapter r = sqlite_adapter now inst"
  shows "invariant (perform now r op d)"
proof -
  let ?d = "perform now r op d"
  have d: "schema_ok d" "exact (ledger_of d)" "drains_ok d"
    using assms(1) drains_ok_iff [of d] by (auto simp: invariant_def)
  have s: "simulated now schema_ok ledger_of op d ?d"
    by (rule sq.perform_simulated [OF d(1) assms(2)])
  then have "same_drift (ledger_of d) (ledger_of ?d)" "lgFlags (ledger_of ?d) = lgFlags (ledger_of d)"
    using spec_step_drift [OF _ schema_ok_ledger_ok [OF d(1)]] spec_step_config
    unfolding simulated_def by (metis same_drift_refl)+
  moreover have "schema_ok ?d"
    using s by (simp add: simulated_def)
  ultimately show ?thesis
    using d drains_ok_iff [of ?d] exact_same_drift by (auto simp: invariant_def drains_ok_def)
qed

lemma db_step_invariant:
  assumes "db_step d d'" "invariant d"
  shows "invariant d'"
  using assms
proof (induction rule: db_step.induct)
  case (store r now inst d op)
  then show ?case by (intro store_step_invariant)
next
  case (patch now loc p d d')
  then have ok: "schema_ok d" "exact (ledger_of d)" "states_ok d"
    and d': "d' = d\<lparr>dbLocations := map (\<lambda>l. if names_copy loc l then patched now p l else l) (dbLocations d)\<rparr>"
    by (auto simp: invariant_def sqlite_UpdateCopyMetadata_def split: if_splits)
  have "schema_ok d'"
    using sq.update_metadata [where now = now and loc = loc and patch = p and s = d and t = d' and u = "()"]
      patch.hyps ok(1) by simp
  with ok patch_exact show ?case by (simp add: invariant_def d' states_ok_def)
next
  case (forget i d d')
  then have ok: "schema_ok d" by (simp add: invariant_def)
  have "schema_ok d'"
    using sq.delete_pending [where i = i and s = d and t = d' and u = "()"] forget.hyps ok by simp
  with forget show ?case
    by - (rule invariant_rows [of d]; auto simp: sqlite_DeletePending_def)
next
  case (remove d b)
  then show ?case
    using DeleteBackendData_ok removed_exact by (auto simp: invariant_def states_ok_def DeleteBackendData_def Let_def)
next
  case (limits d backends)
  then show ?case
    using SyncQuotaLimits_ok [of d backends]
    by - (rule invariant_rows [of d]; simp add: invariant_def SyncQuotaLimits_def)
next
  case (reconcile d applied d')
  then show ?case using reconcile_exact by (auto simp: invariant_def)
next
  case (claim d now n inst cutoff)
  with ClaimPendingCleanups_ok [of d now n inst cutoff] show ?case
    by - (rule invariant_queue [of d]; simp add: invariant_def del: ledger_of_sel)
next
  case (complete d items)
  with CompleteCleanupItems_ok [of d items] show ?case
    by - (rule invariant_queue [of d]; simp add: invariant_def del: ledger_of_sel)
next
  case (retry d now item delay msg)
  with RetryCleanupItem_ok [of d now item delay msg] show ?case
    by - (rule invariant_queue [of d]; simp add: invariant_def del: ledger_of_sel)
next
  case (bury d now item msg)
  with MoveCleanupToDLQ_ok [of d now item msg] show ?case
    by - (rule invariant_queue [of d]; simp add: invariant_def del: ledger_of_sel)
next
  case (requeue d now b)
  with RequeueCleanupDLQ_ok [of d now b] show ?case
    by - (rule invariant_queue [of d]; simp add: invariant_def del: ledger_of_sel)
next
  case (sweep d path b)
  with SweepStaleCleanupQueueRows_ok [of d path b] show ?case
    by - (rule invariant_queue [of d]; simp add: invariant_def del: ledger_of_sel)
qed (simp_all add: invariant_uploads invariant_state_statements)

text \<open>
  C1. In every database the system can reach from a fresh schema the constraints hold, every
  backend is in at most one stage of a drain, and the byte counters are exact: what the stripes of
  a backend add up to is what its recorded copies take, so admission never judges by a stale total.
\<close>

theorem reachable_counters_exact:
  assumes "reachable d"
  shows "schema_ok d \<and> states_ok d \<and>
    (\<forall>b. sum_where (\<lambda>e. fst (fst e) = b) snd (dbStripes d) =
         sum_where (\<lambda>l. locBackendName l = b) locSizeBytes (dbLocations d))"
proof -
  from assms have "invariant d"
  proof (induction rule: reachable.induct)
    case fresh
    have "schema_ok empty_db" by (rule empty_db_ok)
    then show ?case
      by (simp add: invariant_def exact_def drift_def stripe_drift_def bytes_on_def stripe_bytes_def states_ok_def
          empty_db_def alookup_def)
  next
    case (step d d')
    then show ?case by (blast intro: db_step_invariant)
  qed
  then show ?thesis
    by (simp add: invariant_def exact_def drift_def bytes_on_def)
qed

theorem reachable_counters_exact_witness:
  "let d1 = SyncQuotaLimits [\<lparr>bcName = ''b1'', bcQuotaBytes = 1000\<rparr>] empty_db;
       d2 = perform 8 (sqlite_ops 8 ''x'' None None None) (OpClaim (sample_intent ''i'' ''k'' ''b1'' ''k!1'') AcceptForWrite) d1;
       d3 = perform 9 (sqlite_ops 9 ''x'' None None None) (OpRecord (sample_write ''i'' ''b1'' ''k!1'')) d2 in
   length (dbLocations d3) = 1 \<and> sum_where (\<lambda>e. fst (fst e) = ''b1'') snd (dbStripes d3) =
     sum_where (\<lambda>l. locBackendName l = ''b1'') locSizeBytes (dbLocations d3)"
proof -
  define d1 where "d1 = SyncQuotaLimits [\<lparr>bcName = ''b1'', bcQuotaBytes = 1000\<rparr>] empty_db"
  define d2 where "d2 = perform 8 (sqlite_ops 8 ''x'' None None None) (OpClaim (sample_intent ''i'' ''k'' ''b1'' ''k!1'') AcceptForWrite) d1"
  define d3 where "d3 = perform 9 (sqlite_ops 9 ''x'' None None None) (OpRecord (sample_write ''i'' ''b1'' ''k!1'')) d2"
  have "reachable d1"
    unfolding d1_def by (rule reachable.step [OF reachable.fresh db_step.limits])
  then have "reachable d2"
    unfolding d2_def by (rule reachable.step) (rule db_step.store, simp add: sqlite_ops_def)
  then have "reachable d3"
    unfolding d3_def by (rule reachable.step) (rule db_step.store, simp add: sqlite_ops_def)
  from reachable_counters_exact [OF this]
  have "sum_where (\<lambda>e. fst (fst e) = ''b1'') snd (dbStripes d3) =
     sum_where (\<lambda>l. locBackendName l = ''b1'') locSizeBytes (dbLocations d3)" by blast
  moreover have "length (dbLocations d3) = 1"
    unfolding d3_def d2_def d1_def by code_simp
  ultimately show ?thesis
    unfolding Let_def d1_def [symmetric] d2_def [symmetric] d3_def [symmetric] by blast
qed

end
